(* ===== verification/GoTime.thy ===== *)
theory GoTime
  imports Prelude
begin

text \<open>
  What the program uses of Go's \<open>time\<close> package. An instant (\<open>time.Time\<close>) is the number of
  nanoseconds since the Unix epoch, a duration (\<open>time.Duration\<close>) a number of nanoseconds.
  The calendar is the proleptic Gregorian one. A \<open>time.Location\<close> is its zone table: the
  offset in force before the first transition and the list of transitions, each the Unix
  second it happens at and the offset east of UTC from then on; the tables themselves are
  data of the host and stay parameters. \<open>go_date\<close> is \<open>time.Date\<close> with its two-step search
  for the offset, so that a local time that does not exist or exists twice resolves here
  as it does in Go.
\<close>

type_synonym instant = int
type_synonym duration = int

definition second :: duration where "second = 1000000000"
definition millisecond :: duration where "millisecond = 1000000"
definition minute :: duration where "minute = 60000000000"
definition hour :: duration where "hour = 3600000000000"

lemmas duration_units [go_defs] = second_def millisecond_def minute_def hour_def

text \<open>The zero \<open>time.Time\<close>, 1 January of the year 1, midnight UTC.\<close>

definition zero_time :: instant where
  "zero_time = - 62135596800000000000"

section \<open>The calendar\<close>

definition is_leap :: "int \<Rightarrow> bool" where
  "is_leap y = (y mod 4 = 0 \<and> (y mod 100 \<noteq> 0 \<or> y mod 400 = 0))"

text \<open>Days from 1 January of year 1 to 1 January of year \<open>y\<close>.\<close>

definition days_before_year :: "int \<Rightarrow> int" where
  "days_before_year y = 365 * (y - 1) + (y - 1) div 4 - (y - 1) div 100 + (y - 1) div 400"

definition year_len :: "int \<Rightarrow> int" where
  "year_len y = (if is_leap y then 366 else 365)"

definition days_before_month :: "bool \<Rightarrow> int \<Rightarrow> int" where
  "days_before_month leap m =
     (if m \<le> 1 then 0 else if m = 2 then 31 else
      (if leap then 1 else 0) +
      (if m = 3 then 59 else if m = 4 then 90 else if m = 5 then 120 else if m = 6 then 151
       else if m = 7 then 181 else if m = 8 then 212 else if m = 9 then 243
       else if m = 10 then 273 else if m = 11 then 304 else 334))"

definition month_len :: "bool \<Rightarrow> int \<Rightarrow> int" where
  "month_len leap m =
     (if m = 2 then (if leap then 29 else 28)
      else if m = 4 \<or> m = 6 \<or> m = 9 \<or> m = 11 then 30 else 31)"

definition month_of_yday :: "bool \<Rightarrow> int \<Rightarrow> int" where
  "month_of_yday leap yd =
     (let l = (if leap then 1 else 0) in
      if yd < 31 then 1 else if yd < 59 + l then 2 else if yd < 90 + l then 3
      else if yd < 120 + l then 4 else if yd < 151 + l then 5 else if yd < 181 + l then 6
      else if yd < 212 + l then 7 else if yd < 243 + l then 8 else if yd < 273 + l then 9
      else if yd < 304 + l then 10 else if yd < 334 + l then 11 else 12)"

definition year_of_day :: "int \<Rightarrow> int" where
  "year_of_day n =
     (let y = 400 * n div 146097 + 1
      in if n < days_before_year y then y - 1
         else if days_before_year (y + 1) \<le> n then y + 1 else y)"

text \<open>Day numbers count from the Unix epoch; 719162 days lie between year 1 and 1970.\<close>

definition day_number :: "int \<Rightarrow> int \<Rightarrow> int \<Rightarrow> int" where
  "day_number y m d = days_before_year y + days_before_month (is_leap y) m + d - 1 - 719162"

definition civil_of_day :: "int \<Rightarrow> int \<times> int \<times> int" where
  "civil_of_day n =
     (let a = n + 719162; y = year_of_day a; yd = a - days_before_year y;
          m = month_of_yday (is_leap y) yd
      in (y, m, yd - days_before_month (is_leap y) m + 1))"

definition valid_date :: "int \<Rightarrow> int \<Rightarrow> int \<Rightarrow> bool" where
  "valid_date y m d = (1 \<le> m \<and> m \<le> 12 \<and> 1 \<le> d \<and> d \<le> month_len (is_leap y) m)"

text \<open>\<open>time.Date\<close> normalises a month outside 1 to 12 into the year; days just add up.\<close>

definition norm_day_number :: "int \<Rightarrow> int \<Rightarrow> int \<Rightarrow> int" where
  "norm_day_number y m d = day_number (y + (m - 1) div 12) ((m - 1) mod 12 + 1) d"

subsection \<open>Years\<close>

lemma div_plus1:
  fixes x n :: int
  assumes "0 < n"
  shows "(x + 1) div n = x div n + (if (x + 1) mod n = 0 then 1 else 0)"
proof -
  have x: "x = n * (x div n) + x mod n" by simp
  have r: "0 \<le> x mod n" "x mod n < n" using assms by simp_all
  show ?thesis
  proof (cases "x mod n + 1 = n")
    case True
    with x have e: "x + 1 = n * (x div n + 1)" by (simp only: distrib_left mult_1_right)
    have "(x + 1) div n = x div n + 1" by (subst e) (use assms in simp)
    moreover have "(x + 1) mod n = 0" by (subst e) simp
    ultimately show ?thesis by simp
  next
    case False
    with r have lt: "0 \<le> x mod n + 1" "x mod n + 1 < n" by simp_all
    have e: "x + 1 = n * (x div n) + (x mod n + 1)" using x by simp
    have "(x + 1) div n = x div n" by (rule int_div_pos_eq [OF e lt])
    moreover have "(x + 1) mod n = x mod n + 1" by (rule int_mod_pos_eq [OF e lt])
    ultimately show ?thesis using r by simp
  qed
qed

lemma days_before_year_Suc: "days_before_year (y + 1) = days_before_year y + year_len y"
proof -
  have 4: "y div 4 = (y - 1) div 4 + (if y mod 4 = 0 then 1 else 0)"
    using div_plus1 [of 4 "y - 1"] by simp
  have 100: "y div 100 = (y - 1) div 100 + (if y mod 100 = 0 then 1 else 0)"
    using div_plus1 [of 100 "y - 1"] by simp
  have 400: "y div 400 = (y - 1) div 400 + (if y mod 400 = 0 then 1 else 0)"
    using div_plus1 [of 400 "y - 1"] by simp
  have a: "y mod 4 = 0" if "y mod 100 = 0"
    using mod_mod_cancel [of 4 100 y] that by simp
  have b: "y mod 100 = 0" if "y mod 400 = 0"
    using mod_mod_cancel [of 100 400 y] that by simp
  have step: "365 * y + (c + (if p then 1 else 0)) - (d + (if q then 1 else 0))
      + (e + (if r then 1 else 0))
      = 365 * (y - 1) + c - d + e + (if p \<and> (\<not> q \<or> r) then 366 else 365)"
    if "q \<Longrightarrow> p" "r \<Longrightarrow> q" for c d e :: int and p q r
    using that by (cases p; cases q; cases r) simp_all
  have "y + 1 - 1 = y" by simp
  then show ?thesis
    unfolding days_before_year_def year_len_def is_leap_def
    by (simp only: 4 100 400 step [OF a b])
qed

lemma year_len_bounds: "365 \<le> year_len y" "year_len y \<le> 366"
  by (simp_all add: year_len_def)

lemma days_before_year_estimate:
  "400 * days_before_year y \<le> 146097 * (y - 1) + 400"
  "146097 * (y - 1) \<le> 400 * days_before_year y + 700"
proof -
  define x where "x = y - 1"
  obtain a b c d e f where v: "a = x div 4" "b = x div 100" "c = x div 400"
    "d = x mod 4" "e = x mod 100" "f = x mod 400" by blast
  have q: "4 * a = x - d" "100 * b = x - e" "400 * c = x - f"
    by (simp_all add: v minus_mod_eq_mult_div)
  have r: "0 \<le> d" "d \<le> 3" "0 \<le> e" "e \<le> 99" "0 \<le> f" "f \<le> 399"
    using pos_mod_bound [of 4 x] pos_mod_bound [of 100 x] pos_mod_bound [of 400 x]
    by (simp_all add: v)
  have m: "e \<le> f"
    using mod_mod_cancel [of 100 400 x] zmod_le_nonneg_dividend [OF r(5), of 100]
    by (simp add: v)
  have u: "days_before_year y = 365 * x + a - b + c"
    by (simp add: days_before_year_def x_def v)
  have "400 * days_before_year y = 146000 * x + 100 * (4 * a) - 4 * (100 * b) + 400 * c"
    by (simp add: u)
  also have "\<dots> = 146097 * x - 100 * d + 4 * e - f"
    unfolding q by simp
  finally have k: "400 * days_before_year y = 146097 * (y - 1) - 100 * d + 4 * e - f"
    by (simp add: x_def)
  show "400 * days_before_year y \<le> 146097 * (y - 1) + 400"
    unfolding k using r m by simp
  show "146097 * (y - 1) \<le> 400 * days_before_year y + 700"
    unfolding k using r m by simp
qed

lemma days_before_year_mono: "y \<le> z \<Longrightarrow> days_before_year y \<le> days_before_year z"
proof (induction z rule: int_ge_induct)
  case base
  show ?case by simp
next
  case (step i)
  then show ?case using days_before_year_Suc [of i] year_len_bounds [of i] by simp
qed

lemma year_of_day_bounds:
  "days_before_year (year_of_day n) \<le> n"
  "n < days_before_year (year_of_day n + 1)"
proof -
  define y where "y = 400 * n div 146097 + 1"
  have lo: "146097 * (y - 1) \<le> 400 * n" and hi: "400 * n < 146097 * y"
    using minus_mod_eq_mult_div [of "400 * n" 146097] pos_mod_bound [of 146097 "400 * n"]
      pos_mod_sign [of 146097 "400 * n"] by (simp_all add: y_def)
  have a: "days_before_year (y - 1) \<le> n"
    using days_before_year_estimate(1) [of "y - 1"] lo by simp
  have b: "n < days_before_year (y + 2)"
    using days_before_year_estimate(2) [of "y + 2"] hi by simp
  have c: "y + 1 + 1 = y + 2" by simp
  show "days_before_year (year_of_day n) \<le> n"
    "n < days_before_year (year_of_day n + 1)"
    using a b unfolding year_of_day_def y_def [symmetric] Let_def
    by (auto simp: c split: if_splits simp del: add.assoc)
qed

lemma year_of_day_unique:
  assumes "days_before_year y \<le> n" and "n < days_before_year (y + 1)"
  shows "year_of_day n = y"
proof (rule ccontr)
  assume "year_of_day n \<noteq> y"
  then consider "year_of_day n + 1 \<le> y" | "y + 1 \<le> year_of_day n" by linarith
  then show False
  proof cases
    case 1
    then show False using days_before_year_mono year_of_day_bounds(2) [of n] assms(1)
      by fastforce
  next
    case 2
    then show False using days_before_year_mono year_of_day_bounds(1) [of n] assms(2)
      by fastforce
  qed
qed

subsection \<open>Months and dates\<close>

lemma month_of_yday_bounds:
  assumes "0 \<le> yd" and "yd < (if leap then 366 else 365)"
  shows "1 \<le> month_of_yday leap yd" "month_of_yday leap yd \<le> 12"
    "days_before_month leap (month_of_yday leap yd) \<le> yd"
    "yd < days_before_month leap (month_of_yday leap yd) + month_len leap (month_of_yday leap yd)"
  using assms
  by (cases leap; simp add: month_of_yday_def days_before_month_def month_len_def)+

lemma month_cases:
  fixes m :: int
  assumes "1 \<le> m" "m \<le> 12"
  obtains "m = 1" | "m = 2" | "m = 3" | "m = 4" | "m = 5" | "m = 6" | "m = 7" | "m = 8"
    | "m = 9" | "m = 10" | "m = 11" | "m = 12"
proof -
  have "m = 1 \<or> m = 2 \<or> m = 3 \<or> m = 4 \<or> m = 5 \<or> m = 6 \<or> m = 7 \<or> m = 8
    \<or> m = 9 \<or> m = 10 \<or> m = 11 \<or> m = 12"
    using assms by presburger
  then show thesis using that by blast
qed

lemma month_of_yday_unique:
  assumes "1 \<le> m" "m \<le> 12" "1 \<le> d" "d \<le> month_len leap m"
  shows "month_of_yday leap (days_before_month leap m + d - 1) = m"
  using assms(3,4)
  by (cases rule: month_cases [OF assms(1,2)])
    (auto simp: month_of_yday_def days_before_month_def month_len_def Let_def split: if_splits)

lemma yday_range:
  assumes "1 \<le> m" "m \<le> 12" "1 \<le> d" "d \<le> month_len leap m"
  shows "0 \<le> days_before_month leap m + d - 1"
    "days_before_month leap m + d - 1 < (if leap then 366 else 365)"
  using assms(3,4)
  by (cases rule: month_cases [OF assms(1,2)];
      auto simp: days_before_month_def month_len_def split: if_splits)+

lemma civil_of_day_number:
  assumes "valid_date y m d"
  shows "civil_of_day (day_number y m d) = (y, m, d)"
proof -
  let ?yd = "days_before_month (is_leap y) m + d - 1"
  have v: "1 \<le> m" "m \<le> 12" "1 \<le> d" "d \<le> month_len (is_leap y) m"
    using assms by (simp_all add: valid_date_def)
  have a: "day_number y m d + 719162 = days_before_year y + ?yd"
    by (simp add: day_number_def)
  have "year_of_day (days_before_year y + ?yd) = y"
    by (rule year_of_day_unique)
      (use yday_range [OF v] days_before_year_Suc [of y] in \<open>simp_all add: year_len_def\<close>)
  then show ?thesis
    unfolding civil_of_day_def a Let_def
    using month_of_yday_unique [OF v] by simp
qed

lemma civil_of_day_valid:
  assumes "civil_of_day n = (y, m, d)"
  shows "valid_date y m d" "day_number y m d = n"
proof -
  define a where "a = n + 719162"
  have y: "y = year_of_day a"
    using assms by (simp add: civil_of_day_def a_def Let_def)
  define yd where "yd = a - days_before_year y"
  have m: "m = month_of_yday (is_leap y) yd"
    and d: "d = yd - days_before_month (is_leap y) m + 1"
    using assms by (auto simp: civil_of_day_def a_def Let_def yd_def y)
  have "0 \<le> yd" "yd < (if is_leap y then 366 else 365)"
    using year_of_day_bounds [of a] days_before_year_Suc [of y]
    by (simp_all add: yd_def y year_len_def)
  from month_of_yday_bounds [OF this] show "valid_date y m d"
    by (simp add: valid_date_def m [symmetric] d)
  show "day_number y m d = n"
    by (simp add: day_number_def d yd_def a_def)
qed

lemma civil_of_day_inverse: "(case civil_of_day n of (y, m, d) \<Rightarrow> day_number y m d) = n"
  by (cases "civil_of_day n") (simp add: civil_of_day_valid)

lemma norm_day_number_valid:
  "1 \<le> m \<Longrightarrow> m \<le> 12 \<Longrightarrow> norm_day_number y m d = day_number y m d"
  by (simp add: norm_day_number_def)

section \<open>Locations\<close>

record location =
  loc_name :: string
  loc_base :: int
  loc_trans :: "(int \<times> int) list"

definition utc :: location where
  "utc = \<lparr>loc_name = ''UTC'', loc_base = 0, loc_trans = []\<rparr>"

text \<open>
  The zone in force at a Unix second: its offset and the half-open interval it covers, an
  end of \<open>None\<close> being the beginning or the end of time.
\<close>

fun lookup_from :: "int \<Rightarrow> int option \<Rightarrow> (int \<times> int) list \<Rightarrow> int \<Rightarrow> int \<times> int option \<times> int option" where
  "lookup_from off start [] s = (off, start, None)"
| "lookup_from off start ((t, o') # rest) s =
     (if s < t then (off, start, Some t) else lookup_from o' (Some t) rest s)"

definition loc_lookup :: "location \<Rightarrow> int \<Rightarrow> int \<times> int option \<times> int option" where
  "loc_lookup loc s = lookup_from (loc_base loc) None (loc_trans loc) s"

definition loc_offset :: "location \<Rightarrow> int \<Rightarrow> int" where
  "loc_offset loc s = fst (loc_lookup loc s)"

text \<open>The Unix second of an instant, and the second of its local wall clock.\<close>

definition unix_sec :: "instant \<Rightarrow> int" where
  "unix_sec t = t div 1000000000"

definition local_sec :: "location \<Rightarrow> instant \<Rightarrow> int" where
  "local_sec loc t = unix_sec t + loc_offset loc (unix_sec t)"

definition local_day :: "location \<Rightarrow> instant \<Rightarrow> int" where
  "local_day loc t = local_sec loc t div 86400"

definition date_of :: "location \<Rightarrow> instant \<Rightarrow> int \<times> int \<times> int" where
  "date_of loc t = civil_of_day (local_day loc t)"

definition hour_of :: "location \<Rightarrow> instant \<Rightarrow> int" where
  "hour_of loc t = local_sec loc t mod 86400 div 3600"

definition minute_of :: "location \<Rightarrow> instant \<Rightarrow> int" where
  "minute_of loc t = local_sec loc t mod 3600 div 60"

definition second_of :: "location \<Rightarrow> instant \<Rightarrow> int" where
  "second_of loc t = local_sec loc t mod 60"

definition nanosecond_of :: "instant \<Rightarrow> int" where
  "nanosecond_of t = t mod 1000000000"

text \<open>1970-01-01 was a Thursday; Sunday is 0.\<close>

definition weekday_of :: "location \<Rightarrow> instant \<Rightarrow> int" where
  "weekday_of loc t = (local_day loc t + 4) mod 7"

text \<open>
  \<open>time.Date\<close>: read the fields as UTC, look the offset up there, and look it up again at
  the instant that offset gives when that instant is outside the zone just found.
\<close>

definition before_opt :: "int \<Rightarrow> int option \<Rightarrow> bool" where
  "before_opt s b = (case b of None \<Rightarrow> False | Some x \<Rightarrow> s < x)"

definition not_before_opt :: "int \<Rightarrow> int option \<Rightarrow> bool" where
  "not_before_opt s b = (case b of None \<Rightarrow> False | Some x \<Rightarrow> x \<le> s)"

definition resolve_local :: "location \<Rightarrow> int \<Rightarrow> int" where
  "resolve_local loc wall =
     (case loc_lookup loc wall of (off, start, stop) \<Rightarrow>
        if off = 0 then wall
        else let u = wall - off in
             if before_opt u start \<or> not_before_opt u stop
             then wall - loc_offset loc u else u)"

definition go_date :: "location \<Rightarrow> int \<Rightarrow> int \<Rightarrow> int \<Rightarrow> int \<Rightarrow> int \<Rightarrow> int \<Rightarrow> int \<Rightarrow> instant" where
  "go_date loc y m d h mi s ns =
     (let total = (norm_day_number y m d * 86400 + h * 3600 + mi * 60 + s) * 1000000000 + ns
      in resolve_local loc (unix_sec total) * 1000000000 + nanosecond_of total)"

definition add_date :: "location \<Rightarrow> instant \<Rightarrow> int \<Rightarrow> int \<Rightarrow> int \<Rightarrow> instant" where
  "add_date loc t dy dm dd =
     (case date_of loc t of (y, m, d) \<Rightarrow>
        go_date loc (y + dy) (m + dm) (d + dd)
          (hour_of loc t) (minute_of loc t) (second_of loc t) (nanosecond_of t))"

text \<open>\<open>Time.Truncate\<close> rounds down to a multiple of the duration since the zero time.\<close>

definition time_truncate :: "instant \<Rightarrow> duration \<Rightarrow> instant" where
  "time_truncate t d = (if d \<le> 0 then t else t - (t - zero_time) mod d)"

lemmas time_defs [go_defs] = unix_sec_def local_sec_def local_day_def hour_of_def minute_of_def
  second_of_def nanosecond_of_def weekday_of_def

lemma utc_offset [simp]: "loc_offset utc s = 0"
  by (simp add: loc_offset_def loc_lookup_def utc_def)

lemma utc_resolve [simp]: "resolve_local utc s = s"
  by (simp add: resolve_local_def loc_lookup_def utc_def)

lemma utc_local_sec [simp]: "local_sec utc t = unix_sec t"
  by (simp add: local_sec_def)

lemma go_date_utc:
  "go_date utc y m d h mi s ns =
     (norm_day_number y m d * 86400 + h * 3600 + mi * 60 + s) * 1000000000 + ns"
  by (simp add: go_date_def Let_def unix_sec_def nanosecond_of_def)

lemma day_seconds:
  fixes d h mi :: int
  assumes "0 \<le> h" "h \<le> 23" "0 \<le> mi" "mi \<le> 59"
  shows "(d * 86400 + h * 3600 + mi * 60) div 86400 = d"
    "(d * 86400 + h * 3600 + mi * 60) mod 86400 = h * 3600 + mi * 60"
proof -
  have r: "0 \<le> h * 3600 + mi * 60" "h * 3600 + mi * 60 < 86400" using assms by linarith+
  have e: "d * 86400 + h * 3600 + mi * 60 = 86400 * d + (h * 3600 + mi * 60)" by simp
  show "(d * 86400 + h * 3600 + mi * 60) div 86400 = d"
    by (rule int_div_pos_eq [OF e r])
  show "(d * 86400 + h * 3600 + mi * 60) mod 86400 = h * 3600 + mi * 60"
    by (rule int_mod_pos_eq [OF e r])
qed

text \<open>Reading back, in UTC, the fields a valid UTC date was built from.\<close>

lemma utc_local_day_go_date:
  assumes "0 \<le> h" "h \<le> 23" "0 \<le> mi" "mi \<le> 59"
  shows "local_day utc (go_date utc y m d h mi 0 0) = norm_day_number y m d"
proof -
  have "unix_sec (go_date utc y m d h mi 0 0) = norm_day_number y m d * 86400 + h * 3600 + mi * 60"
    by (simp add: go_date_utc unix_sec_def)
  then show ?thesis by (simp add: local_day_def day_seconds [OF assms])
qed

lemma utc_fields_go_date:
  assumes "valid_date y m d" "0 \<le> h" "h \<le> 23" "0 \<le> mi" "mi \<le> 59"
  shows "date_of utc (go_date utc y m d h mi 0 0) = (y, m, d)"
    "hour_of utc (go_date utc y m d h mi 0 0) = h"
    "minute_of utc (go_date utc y m d h mi 0 0) = mi"
proof -
  have m: "1 \<le> m" "m \<le> 12" using assms(1) by (simp_all add: valid_date_def)
  show "date_of utc (go_date utc y m d h mi 0 0) = (y, m, d)"
    using assms(1) by (simp add: date_of_def utc_local_day_go_date [OF assms(2-5)]
        norm_day_number_valid [OF m] civil_of_day_number)
  have u: "unix_sec (go_date utc y m d h mi 0 0)
      = norm_day_number y m d * 86400 + h * 3600 + mi * 60"
    by (simp add: go_date_utc unix_sec_def)
  have h: "(h * 3600 + mi * 60) div 3600 = h"
    by (rule int_div_pos_eq [where r = "mi * 60"]) (use assms in simp_all)
  show "hour_of utc (go_date utc y m d h mi 0 0) = h"
    by (simp add: hour_of_def u day_seconds [OF assms(2-5)] h)
  have "(norm_day_number y m d * 86400 + h * 3600 + mi * 60) mod 3600 = mi * 60"
    by (rule int_mod_pos_eq [where q = "norm_day_number y m d * 24 + h"]) (use assms in simp_all)
  then show "minute_of utc (go_date utc y m d h mi 0 0) = mi"
    by (simp add: minute_of_def u)
qed

text \<open>\<open>AddDate\<close> in UTC moves by whole days of twenty-four hours.\<close>

lemma utc_instant_split:
  "(local_day utc t * 86400 + hour_of utc t * 3600 + minute_of utc t * 60 + second_of utc t)
     * 1000000000 + nanosecond_of t = t"
proof -
  define s where "s = unix_sec t"
  have a: "s div 86400 * 86400 + s mod 86400 = s" by (rule div_mult_mod_eq)
  have b: "s mod 86400 div 3600 * 3600 + s mod 86400 mod 3600 = s mod 86400" by (rule div_mult_mod_eq)
  have c: "s mod 86400 mod 3600 = s mod 3600" by (rule mod_mod_cancel) simp
  have d: "s mod 3600 div 60 * 60 + s mod 3600 mod 60 = s mod 3600" by (rule div_mult_mod_eq)
  have e: "s mod 3600 mod 60 = s mod 60" by (rule mod_mod_cancel) simp
  have "local_day utc t * 86400 + hour_of utc t * 3600 + minute_of utc t * 60 + second_of utc t = s"
    unfolding local_day_def hour_of_def minute_of_def second_of_def utc_local_sec s_def [symmetric]
    using a b c d e by linarith
  then show ?thesis
    by (simp add: s_def unix_sec_def nanosecond_of_def)
qed

lemma add_date_utc_days: "add_date utc t 0 0 n = t + n * 86400000000000"
proof -
  obtain y m d where c: "civil_of_day (local_day utc t) = (y, m, d)" by (rule prod_cases3)
  note v = civil_of_day_valid [OF c]
  have m: "1 \<le> m" "m \<le> 12" using v(1) by (simp_all add: valid_date_def)
  have "norm_day_number y m (d + n) = local_day utc t + n"
    using v(2) by (simp add: norm_day_number_valid [OF m] day_number_def)
  then have "add_date utc t 0 0 n =
      ((local_day utc t * 86400 + hour_of utc t * 3600 + minute_of utc t * 60 + second_of utc t)
        * 1000000000 + nanosecond_of t) + n * 86400000000000"
    by (simp add: add_date_def date_of_def c go_date_utc algebra_simps)
  then show ?thesis by (simp only: utc_instant_split)
qed

lemma time_truncate_bounds:
  "0 < d \<Longrightarrow> time_truncate t d \<le> t" "0 < d \<Longrightarrow> t < time_truncate t d + d"
  using pos_mod_bound [of d "t - zero_time"] pos_mod_sign [of d "t - zero_time"]
  by (simp_all add: time_truncate_def)

section \<open>Evaluating concrete dates\<close>

text \<open>
  A concrete date is evaluated from its fields to its number; a concrete instant is read by
  giving the fields and checking that they number its day.
\<close>

lemmas go_date_eval = go_date_def norm_day_number_def day_number_def days_before_year_def
  days_before_month_def is_leap_def unix_sec_def nanosecond_of_def resolve_local_def
  loc_lookup_def loc_offset_def before_opt_def not_before_opt_def

lemma date_ofI:
  "local_day loc t = day_number y m d \<Longrightarrow> valid_date y m d \<Longrightarrow> date_of loc t = (y, m, d)"
  by (simp add: date_of_def civil_of_day_number)

lemmas date_eval = local_day_def local_sec_def loc_offset_def loc_lookup_def unix_sec_def
  day_number_def days_before_year_def days_before_month_def is_leap_def valid_date_def
  month_len_def hour_of_def minute_of_def second_of_def nanosecond_of_def weekday_of_def

end
