(* ===== verification/Float64.thy ===== *)
theory Float64
  imports Prelude Complex_Main "HOL-Library.Log_Nat"
begin

text \<open>
  Go's \<open>float64\<close>, for the finite values the program computes with: response times in
  milliseconds, uptime percentages, error budgets. A value is the rational it denotes, and
  every arithmetic operation is the exact one followed by \<open>fl\<close>, IEEE 754 rounding to nearest
  with ties to even at 53 bits of precision and the subnormal spacing below \<open>2^-1022\<close>.

  Infinities and NaN are not values of the model. The only place one could enter is a
  response time on the wire; NaN compares like zero there, and an infinity converts to the
  same integer as any other value outside the 64-bit range (\<open>float_to_int\<close>).
\<close>

definition binade :: "rat \<Rightarrow> int" where
  "binade x =
     (let (p, q) = quotient_of \<bar>x\<bar>; e = int (floorlog 2 (nat p)) - int (floorlog 2 (nat q))
      in if 2 powi e \<le> \<bar>x\<bar> then e else e - 1)"

definition round_even :: "rat \<Rightarrow> int" where
  "round_even r =
     (let f = \<lfloor>r\<rfloor>; d = r - of_int f
      in if d < 1 / 2 then f else if d > 1 / 2 then f + 1 else if even f then f else f + 1)"

definition float_ulp :: "rat \<Rightarrow> rat" where
  "float_ulp x = 2 powi (max (binade x - 52) (- 1074))"

definition fl :: "rat \<Rightarrow> rat" where
  "fl x = (if x = 0 then 0 else of_int (round_even (x / float_ulp x)) * float_ulp x)"

definition float_add :: "rat \<Rightarrow> rat \<Rightarrow> rat" where "float_add x y = fl (x + y)"
definition float_sub :: "rat \<Rightarrow> rat \<Rightarrow> rat" where "float_sub x y = fl (x - y)"
definition float_mul :: "rat \<Rightarrow> rat \<Rightarrow> rat" where "float_mul x y = fl (x * y)"
definition float_div :: "rat \<Rightarrow> rat \<Rightarrow> rat" where "float_div x y = fl (x / y)"
definition float_of_int :: "int \<Rightarrow> rat" where "float_of_int i = fl (of_int i)"

definition rat_trunc :: "rat \<Rightarrow> int" where
  "rat_trunc x = (if 0 \<le> x then \<lfloor>x\<rfloor> else - \<lfloor>- x\<rfloor>)"

text \<open>
  The conversion to \<open>int64\<close> truncates towards zero. Outside the range the language leaves
  the result to the implementation; on amd64 it is the least integer.
\<close>

definition float_to_int :: "rat \<Rightarrow> int" where
  "float_to_int x = (if in_int64 (rat_trunc x) then rat_trunc x else min_int64)"

section \<open>Rounding is monotone and exact on the small integers\<close>

lemma floorlog_powi:
  assumes "0 < n"
  shows "(2::rat) powi (int (floorlog 2 (nat n)) - 1) \<le> of_int n"
    and "(of_int n :: rat) < 2 powi (int (floorlog 2 (nat n)))"
proof -
  let ?k = "floorlog 2 (nat n)"
  from assms have pos: "0 < ?k" by (simp add: floorlog_def)
  have "2 ^ (?k - 1) \<le> nat n \<and> nat n < 2 ^ ?k"
    using floorlog_bounds[of "nat n" 2] assms by simp
  then have "(2::int) ^ (?k - 1) \<le> n" "n < 2 ^ ?k"
    using assms by (auto simp: nat_less_iff le_nat_iff)
  then have "(2::rat) ^ (?k - 1) \<le> of_int n" "(of_int n :: rat) < 2 ^ ?k"
    by (metis of_int_le_iff of_int_numeral of_int_power,
        metis of_int_less_iff of_int_numeral of_int_power)
  then show "(2::rat) powi (int ?k - 1) \<le> of_int n" "(of_int n :: rat) < 2 powi (int ?k)"
    using pos by (auto simp: power_int_def nat_diff_distrib)
qed

lemma binade_bounds:
  assumes "0 < x"
  shows "2 powi (binade x) \<le> x" "x < 2 powi (binade x + 1)"
proof -
  obtain p q where pq: "quotient_of x = (p, q)" by fastforce
  from pq have q: "0 < q" by (rule quotient_of_denom_pos)
  from pq have x: "x = of_int p / of_int q" by (rule quotient_of_div)
  with assms q have p: "0 < p" by (simp add: zero_less_divide_iff)
  define a where "a = int (floorlog 2 (nat p))"
  define b where "b = int (floorlog 2 (nat q))"
  note P = floorlog_powi[OF p, folded a_def] and Q = floorlog_powi[OF q, folded b_def]
  have lo: "2 powi (a - b - 1) \<le> x"
  proof -
    have "(2::rat) powi (a - b - 1) * of_int q \<le> 2 powi (a - b - 1) * 2 powi b"
      using Q(2) by (simp add: mult_left_mono)
    also have "\<dots> = 2 powi (a - 1)" by (simp flip: power_int_add)
    also have "\<dots> \<le> of_int p" by (rule P(1))
    finally show ?thesis using q by (simp add: x le_divide_eq)
  qed
  have hi: "x < 2 powi (a - b + 1)"
  proof -
    have "of_int p < (2::rat) powi a" by (rule P(2))
    also have "\<dots> = 2 powi (a - b + 1) * 2 powi (b - 1)" by (simp flip: power_int_add)
    also have "\<dots> \<le> 2 powi (a - b + 1) * of_int q"
      using Q(1) by (simp add: mult_left_mono)
    finally show ?thesis using q by (simp add: x divide_less_eq)
  qed
  have "binade x = (if 2 powi (a - b) \<le> x then a - b else a - b - 1)"
    using assms pq by (simp add: binade_def a_def b_def Let_def)
  with lo hi show "2 powi (binade x) \<le> x" "x < 2 powi (binade x + 1)"
    by (auto split: if_splits)
qed

lemma round_even_of_int [simp]: "round_even (of_int i) = i"
  by (simp add: round_even_def Let_def)

lemma round_even_near: "\<lfloor>r\<rfloor> \<le> round_even r \<and> round_even r \<le> \<lfloor>r\<rfloor> + 1"
  by (simp add: round_even_def Let_def)

lemma round_even_mono:
  assumes "r \<le> s" shows "round_even r \<le> round_even s"
proof (cases "\<lfloor>r\<rfloor> = \<lfloor>s\<rfloor>")
  case True
  with assms show ?thesis by (auto simp: round_even_def Let_def)
next
  case False
  with assms have "\<lfloor>r\<rfloor> + 1 \<le> \<lfloor>s\<rfloor>" using floor_mono[OF assms] by simp
  then show ?thesis using round_even_near[of r] round_even_near[of s] by linarith
qed

lemma float_ulp_pos [simp]: "0 < float_ulp x"
  by (simp add: float_ulp_def)

lemma fl_0 [simp]: "fl 0 = 0"
  by (simp add: fl_def)

lemma powi_grid:
  assumes "m \<le> k" shows "\<exists>i. (2::rat) powi k / 2 powi m = of_int i"
proof -
  have "(2::rat) powi k / 2 powi m = 2 powi (k - m)"
    by (simp add: power_int_diff)
  also have "\<dots> = of_int (2 ^ nat (k - m))"
    using assms by (simp add: power_int_def)
  finally show ?thesis by blast
qed

lemma fl_ge_grid:
  assumes "2 powi k \<le> x" "2 powi m = float_ulp x" "m \<le> k"
  shows "2 powi k \<le> fl x"
proof -
  obtain i where i: "(2::rat) powi k / 2 powi m = of_int i" using powi_grid[OF assms(3)] by blast
  have "of_int i \<le> x / float_ulp x"
    unfolding i[symmetric] assms(2) using assms(1) by (simp add: divide_right_mono less_imp_le)
  then have "i \<le> round_even (x / float_ulp x)"
    using round_even_mono by fastforce
  then have "of_int i * float_ulp x \<le> of_int (round_even (x / float_ulp x)) * float_ulp x"
    by (simp add: mult_right_mono less_imp_le)
  moreover have "of_int i * float_ulp x = 2 powi k"
    by (simp add: i[symmetric] assms(2)[symmetric])
  moreover have "x \<noteq> 0" using assms(1) power_int_not_zero[of 2 k]
    by (metis linorder_not_le zero_less_numeral zero_less_power_int)
  ultimately show ?thesis by (simp add: fl_def)
qed

lemma fl_le_grid:
  assumes "x \<le> 2 powi k" "2 powi m = float_ulp x" "m \<le> k"
  shows "fl x \<le> 2 powi k"
proof -
  obtain i where i: "(2::rat) powi k / 2 powi m = of_int i" using powi_grid[OF assms(3)] by blast
  have "x / float_ulp x \<le> of_int i"
    unfolding i[symmetric] assms(2) using assms(1) by (simp add: divide_right_mono less_imp_le)
  then have "round_even (x / float_ulp x) \<le> i"
    using round_even_mono by fastforce
  then have "of_int (round_even (x / float_ulp x)) * float_ulp x \<le> of_int i * float_ulp x"
    by (simp add: mult_right_mono less_imp_le)
  moreover have "of_int i * float_ulp x = 2 powi k"
    by (simp add: i[symmetric] assms(2)[symmetric])
  ultimately show ?thesis by (simp add: fl_def)
qed

lemma fl_nonneg [simp]: "0 \<le> x \<Longrightarrow> 0 \<le> fl x"
proof -
  assume "0 \<le> x"
  then have "0 \<le> round_even (x / float_ulp x)"
    using round_even_mono[of 0 "x / float_ulp x"] round_even_of_int[of 0]
    by (simp add: less_imp_le)
  then show ?thesis by (simp add: fl_def less_imp_le)
qed

lemma binade_mono:
  assumes "0 < x" "x \<le> y" shows "binade x \<le> binade y"
proof (rule ccontr)
  assume "\<not> ?thesis"
  then have "(2::rat) powi (binade y + 1) \<le> 2 powi (binade x)"
    by (simp add: power_int_increasing)
  also have "\<dots> \<le> x" using binade_bounds(1)[OF assms(1)] .
  also have "\<dots> \<le> y" by (rule assms(2))
  also have "\<dots> < 2 powi (binade y + 1)" using binade_bounds(2)[of y] assms by simp
  finally show False by simp
qed

lemma fl_mono_nonneg:
  assumes "0 \<le> x" "x \<le> y" shows "fl x \<le> fl y"
proof (cases "x = 0")
  case True
  with assms show ?thesis by simp
next
  case False
  with assms have x: "0 < x" and y: "0 < y" by simp_all
  let ?mx = "max (binade x - 52) (- 1074)" and ?my = "max (binade y - 52) (- 1074)"
  have le: "binade x \<le> binade y" using x assms(2) by (rule binade_mono)
  show ?thesis
  proof (cases "?mx = ?my")
    case True
    then have u: "float_ulp x = float_ulp y" by (simp add: float_ulp_def)
    have "x / float_ulp y \<le> y / float_ulp y"
      using assms(2) by (simp add: divide_right_mono less_imp_le)
    from round_even_mono[OF this] x y u show ?thesis
      by (simp add: fl_def mult_right_mono less_imp_le)
  next
    case False
    with le have m: "?my = binade y - 52" "?mx < ?my" "binade x < binade y" by (auto simp: max_def split: if_splits)
    have "x \<le> 2 powi (binade x + 1)" using binade_bounds(2)[OF x] by simp
    also have "\<dots> \<le> 2 powi (binade y)" using m by (simp add: power_int_increasing)
    finally have "fl x \<le> 2 powi (binade y)"
      by (rule fl_le_grid[where m = "?mx"]) (use m in \<open>auto simp: float_ulp_def\<close>)
    also have "\<dots> \<le> fl y"
      by (rule fl_ge_grid[where m = "?my"])
        (use m binade_bounds(1)[OF y] in \<open>auto simp: float_ulp_def\<close>)
    finally show ?thesis .
  qed
qed

lemma binade_powi: "binade (2 powi k) = k"
proof (rule antisym)
  have pos: "(0::rat) < 2 powi k" by simp
  have "(2::rat) powi (binade (2 powi k)) \<le> 2 powi k" by (rule binade_bounds(1)[OF pos])
  then show "binade (2 powi k) \<le> k"
    by (metis linorder_not_le one_less_numeral_iff power_int_strict_increasing semiring_norm(76))
  have "(2::rat) powi k < 2 powi (binade (2 powi k) + 1)" by (rule binade_bounds(2)[OF pos])
  then have "k < binade (2 powi k) + 1"
    by (metis linorder_not_le one_le_numeral power_int_increasing)
  then show "k \<le> binade (2 powi k)" by simp
qed

lemma fl_powi:
  assumes "- 1022 \<le> k" shows "fl (2 powi k) = 2 powi k"
  by (rule antisym; rule fl_le_grid fl_ge_grid[where m = "max (k - 52) (- 1074)"];
      (simp add: float_ulp_def binade_powi)?) (use assms in \<open>auto simp: float_ulp_def binade_powi\<close>)

lemma fl_1 [simp]: "fl 1 = 1"
  using fl_powi[of 0] by simp

lemma fl_unit: "0 \<le> x \<Longrightarrow> x \<le> 1 \<Longrightarrow> 0 \<le> fl x \<and> fl x \<le> 1"
  using fl_mono_nonneg[of x 1] by simp

text \<open>The dyadic rationals with at most 53 significant bits are floats.\<close>

lemma fl_dyadic:
  assumes "0 \<le> i" "i < 2 ^ 53" "k \<le> 1000"
  shows "fl (of_int i / 2 ^ k) = of_int i / 2 ^ k"
proof (cases "i = 0")
  case False
  let ?x = "(of_int i :: rat) / 2 ^ k"
  from False assms have pos: "0 < ?x" by simp
  have "(of_int i :: rat) < of_int (2 ^ 53)" using assms(2) by (subst of_int_less_iff)
  then have "?x < of_int (2 ^ 53) / 2 ^ k" by (simp add: divide_strict_right_mono)
  also have "\<dots> = 2 powi (53 - int k)" by (simp add: power_int_diff)
  finally have "(2::rat) powi (binade ?x) < 2 powi (53 - int k)"
    using binade_bounds(1)[OF pos] by linarith
  then have "binade ?x < 53 - int k"
    by (metis linorder_not_le one_le_numeral power_int_increasing)
  moreover define m where "m = max (binade ?x - 52) (- 1074)"
  ultimately have m: "m \<le> - int k" using assms(3) by simp
  obtain j where j: "(2::rat) powi (- int k) / 2 powi m = of_int j" using powi_grid[OF m] by blast
  have u: "float_ulp ?x = 2 powi m" by (simp add: float_ulp_def m_def)
  have "?x / float_ulp ?x = of_int i * (2 powi (- int k) / 2 powi m)"
    by (simp add: u power_int_minus field_simps)
  also have "\<dots> = of_int (i * j)" by (simp add: j)
  finally have q: "?x / float_ulp ?x = of_int (i * j)" .
  then have "fl ?x = of_int (i * j) * float_ulp ?x"
    using pos by (simp only: fl_def q round_even_of_int if_False order_less_irrefl) simp
  also have "\<dots> = ?x" by (subst q[symmetric]) (simp add: order_less_imp_not_eq2)
  finally show ?thesis .
qed simp

lemma fl_of_small_int: "0 \<le> i \<Longrightarrow> i < 2 ^ 53 \<Longrightarrow> fl (of_int i) = of_int i"
  using fl_dyadic[of i 0] by simp

lemma round_even_neg: "round_even (- r) = - round_even r"
proof (cases "of_int \<lfloor>r\<rfloor> = r")
  case True
  then have "- r = of_int (- \<lfloor>r\<rfloor>)" by (simp only: of_int_minus)
  then have "round_even (- r) = - \<lfloor>r\<rfloor>" by (simp only: round_even_of_int)
  moreover have "round_even r = \<lfloor>r\<rfloor>" by (subst True[symmetric]) (simp only: round_even_of_int)
  ultimately show ?thesis by simp
next
  case False
  then have "\<lfloor>- r\<rfloor> = - \<lfloor>r\<rfloor> - 1"
    by (simp add: floor_minus ceiling_altdef)
  then show ?thesis by (simp add: round_even_def Let_def)
qed

lemma fl_neg: "fl (- x) = - fl x"
proof -
  have u: "float_ulp (- x) = float_ulp x" by (simp add: float_ulp_def binade_def)
  show ?thesis by (simp add: fl_def u round_even_neg)
qed

text \<open>Above the subnormals an operation is off by at most one part in \<open>2^53\<close>.\<close>

lemma round_even_half: "\<bar>of_int (round_even r) - r\<bar> \<le> 1 / 2"
proof -
  have "of_int \<lfloor>r\<rfloor> \<le> r" "r < of_int \<lfloor>r\<rfloor> + 1" by linarith+
  then show ?thesis
    by (auto simp: round_even_def Let_def split: if_splits)
qed

lemma fl_error:
  assumes "2 powi (- 1022) \<le> x"
  shows "\<bar>fl x - x\<bar> \<le> x / 2 ^ 53"
proof -
  have "(0::rat) < 2 powi (- 1022)" by simp
  then have pos: "0 < x" using assms by (rule less_le_trans)
  let ?u = "float_ulp x"
  have "- 1022 \<le> binade x"
    using binade_mono[OF \<open>0 < 2 powi (- 1022)\<close> assms] by (simp only: binade_powi)
  then have u: "?u = 2 powi (binade x) / 2 ^ 52" by (simp add: float_ulp_def power_int_diff)
  have "fl x - x = (of_int (round_even (x / ?u)) - x / ?u) * ?u"
    using pos by (simp add: fl_def left_diff_distrib order_less_imp_not_eq2)
  then have "\<bar>fl x - x\<bar> = \<bar>of_int (round_even (x / ?u)) - x / ?u\<bar> * ?u"
    by (simp add: abs_mult order_less_imp_le)
  also have "\<dots> \<le> 1 / 2 * ?u"
    using round_even_half[of "x / ?u"] by (intro mult_right_mono) (auto simp: order_less_imp_le)
  also have "\<dots> \<le> x / 2 ^ 53" using binade_bounds(1)[OF pos] unfolding u by simp
  finally show ?thesis .
qed

lemmas float_ops = float_add_def float_sub_def float_mul_def float_div_def float_of_int_def

end
