(* ===== verification/Model.thy ===== *)
theory Model
  imports GoTime Float64
begin

text \<open>
  The domain types (\<open>internal/model\<close>): monitors, their current state, heartbeats, the
  certificate and the registration last seen on a target. Constants the source spells as
  strings or small integers, and compares only for equality, are datatypes with one
  constructor per constant; the fields the modelled code never reads (descriptions,
  credentials, secrets) are left out of the records.
\<close>

section \<open>Identifiers\<close>

text \<open>Sixteen raw bytes; the wire carries a byte string, copied into the array.\<close>

type_synonym bytes = "8 word list"
type_synonym ident = "8 word list"

text \<open>The one organisation of a solo installation.\<close>

definition sentinel_org :: ident where
  "sentinel_org = [0, 0, 0, 0, 0, 0, 0x70, 0, 0x80, 0, 0, 0, 0, 0, 0, 1]"

definition copy_id :: "bytes \<Rightarrow> ident" where
  "copy_id bs = take 16 (bs @ replicate 16 0)"

lemma copy_id_length [simp]: "length (copy_id bs) = 16"
  by (simp add: copy_id_def)

lemma copy_id_same: "length bs = 16 \<Longrightarrow> copy_id bs = bs"
  by (simp add: copy_id_def)

section \<open>Monitors and their state\<close>

datatype monitor_status =
  MonitorStatusUp | MonitorStatusDown | MonitorStatusPending | MonitorStatusPaused
| MonitorStatusMaintenance

datatype suppression = SuppressionNone | SuppressionMaintenance | SuppressionDependency

datatype suppressed_by = Unsuppressed | SuppressedByMaintenance | SuppressedByDependency

record monitor =
  m_id :: ident
  m_org :: ident
  m_type :: string
  m_config :: string
  m_target :: string
  m_enabled :: bool
  m_interval :: int
  m_retries :: int
  m_resend_after :: int
  m_notify_on_recovery :: bool
  m_parent :: "ident option"
  m_created_at :: int

record monitor_state =
  st_monitor :: ident
  st_org :: ident
  st_status :: monitor_status
  st_last_check :: "int option"
  st_next_check :: "int option"
  st_last_change :: "int option"
  st_failures :: int
  st_response_ms :: "rat option"
  st_message :: string
  st_suppressed_by :: suppressed_by
  st_version :: int

section \<open>Heartbeats\<close>

datatype status =
  StatusDown | StatusUp | StatusPending | StatusMaintenance | StatusUnknown | StatusSkipped

fun status_code :: "status \<Rightarrow> int" where
  "status_code StatusDown = 0"
| "status_code StatusUp = 1"
| "status_code StatusPending = 2"
| "status_code StatusMaintenance = 3"
| "status_code StatusUnknown = 4"
| "status_code StatusSkipped = 5"

definition counts_toward_uptime :: "status \<Rightarrow> bool" where
  "counts_toward_uptime s = (s = StatusUp \<or> s = StatusDown)"

fun status_string :: "status \<Rightarrow> string" where
  "status_string StatusDown = ''down''"
| "status_string StatusUp = ''up''"
| "status_string StatusPending = ''pending''"
| "status_string StatusMaintenance = ''maintenance''"
| "status_string StatusUnknown = ''unknown''"
| "status_string StatusSkipped = ''skipped''"

fun suppression_code :: "suppression \<Rightarrow> int" where
  "suppression_code SuppressionNone = 0"
| "suppression_code SuppressionMaintenance = 1"
| "suppression_code SuppressionDependency = 2"

fun suppression_reason_name :: "int \<Rightarrow> string" where
  "suppression_reason_name r =
     (if r = 1 then ''maintenance'' else if r = 2 then ''dependency'' else '''')"

record heartbeat =
  hb_time :: int
  hb_monitor :: ident
  hb_org :: ident
  hb_probe :: ident
  hb_status :: status
  hb_response :: "int option"
  hb_code :: string
  hb_message :: string
  hb_attempt :: int
  hb_important :: bool
  hb_suppressed :: bool
  hb_reason :: suppression

section \<open>Certificates and registrations\<close>

record certificate =
  cert_monitor :: ident
  cert_org :: ident
  cert_subject :: string
  cert_issuer :: string
  cert_serial :: string
  cert_valid_from :: "int option"
  cert_valid_to :: int
  cert_fingerprint :: bytes
  cert_sans :: "string list"
  cert_chain_valid :: "bool option"
  cert_chain_error :: string
  cert_observed_at :: int

record domain_expiry =
  dom_monitor :: ident
  dom_org :: ident
  dom_name :: string
  dom_expires_at :: int
  dom_registrar :: string
  dom_source :: string
  dom_observed_at :: int

text \<open>
  \<open>time.Time.Sub\<close> saturates at the range of a duration; \<open>Duration.Hours\<close> adds the whole hours
  and the float quotient of the rest.
\<close>

definition time_sub :: "int \<Rightarrow> int \<Rightarrow> int" where
  "time_sub t u =
     (if t - u < min_int64 then min_int64 else if max_int64 < t - u then max_int64 else t - u)"

definition duration_hours :: "int \<Rightarrow> rat" where
  "duration_hours d =
     float_add (float_of_int (go_div d hour))
       (float_div (float_of_int (go_mod d hour)) (float_of_int hour))"

definition floored_days :: "int \<Rightarrow> int" where
  "floored_days remaining = \<lfloor>float_div (duration_hours remaining) 24\<rfloor>"

definition cert_days_remaining :: "certificate \<Rightarrow> int \<Rightarrow> int" where
  "cert_days_remaining c now = floored_days (time_sub (cert_valid_to c) now)"

definition domain_days_remaining :: "domain_expiry \<Rightarrow> int \<Rightarrow> int" where
  "domain_days_remaining d now = floored_days (time_sub (dom_expires_at d) now)"

end
