(* ===== verification/HeartbeatStore.thy ===== *)
theory HeartbeatStore
  imports Model
begin

text \<open>
  The heartbeat table (\<open>internal/store/sqlite/heartbeats.go\<close>): the row a heartbeat is stored
  as, the batch insert that ignores rows whose natural key is already there, and the page
  query. The contract of that insert is the locale \<open>keyed_log\<close>, in which a batch is shown to
  be idempotent whatever the table is; it is interpreted on the heartbeat table.
\<close>

section \<open>A log keyed by a natural key\<close>

text \<open>
  Inserting a list of rows one after another, counting the rows really inserted. The
  locale states what one insertion promises about the set of keys held.
\<close>

fun insert_all :: "('s \<Rightarrow> 'r \<Rightarrow> 's \<times> nat) \<Rightarrow> 's \<Rightarrow> 'r list \<Rightarrow> 's \<times> nat" where
  "insert_all ins s [] = (s, 0)"
| "insert_all ins s (r # rs) =
     (let (s', n) = ins s r; (s'', k) = insert_all ins s' rs in (s'', n + k))"

lemma insert_all_append:
  "insert_all ins s (rs @ ts) =
     (let (s', n) = insert_all ins s rs; (s'', k) = insert_all ins s' ts in (s'', n + k))"
  by (induction rs arbitrary: s) (simp_all add: Let_def split_beta)

locale keyed_log =
  fixes ins :: "'s \<Rightarrow> 'r \<Rightarrow> 's \<times> nat"
    and keys :: "'s \<Rightarrow> 'k set"
    and key :: "'r \<Rightarrow> 'k"
  assumes dup_ignored: "key r \<in> keys s \<Longrightarrow> ins s r = (s, 0)"
    and fresh_counted: "key r \<notin> keys s \<Longrightarrow> snd (ins s r) = 1"
    and ins_keys: "keys (fst (ins s r)) = insert (key r) (keys s)"
begin

lemma batch_keys: "keys (fst (insert_all ins s rs)) = keys s \<union> key ` set rs"
  by (induction rs arbitrary: s) (auto simp: Let_def split_beta ins_keys)

lemma batch_known: "key ` set rs \<subseteq> keys s \<Longrightarrow> insert_all ins s rs = (s, 0)"
  by (induction rs) (simp_all add: dup_ignored)

lemma batch_idempotent:
  "insert_all ins (fst (insert_all ins s rs)) rs = (fst (insert_all ins s rs), 0)"
  by (rule batch_known) (simp add: batch_keys)

lemma batch_resent_prefix:
  assumes "set ts \<subseteq> set rs"
  shows "insert_all ins (fst (insert_all ins s rs)) ts = (fst (insert_all ins s rs), 0)"
  by (rule batch_known) (use assms in \<open>auto simp: batch_keys\<close>)

lemma batch_count:
  assumes "finite (keys s)"
  shows "snd (insert_all ins s rs) = card (keys s \<union> key ` set rs) - card (keys s)"
  using assms
proof (induction rs arbitrary: s)
  case (Cons r rs)
  obtain s' n where s': "ins s r = (s', n)" by fastforce
  then have k: "keys s' = insert (key r) (keys s)" using ins_keys[of s r] by simp
  have n: "n = card (keys s') - card (keys s)"
    using s' k Cons.prems dup_ignored[of r s] fresh_counted[of r s]
    by (cases "key r \<in> keys s") (auto simp: insert_absorb)
  have mono: "card (keys s) \<le> card (keys s')" "card (keys s') \<le> card (keys s' \<union> key ` set rs)"
    using k Cons.prems by (auto intro!: card_mono)
  have "keys s \<union> key ` set (r # rs) = keys s' \<union> key ` set rs" using k by auto
  then show ?case
    using s' n mono Cons.IH[of s'] k Cons.prems by (simp add: Let_def split_beta)
qed simp

lemma batch_invariant:
  assumes "I s" "\<And>s r. I s \<Longrightarrow> I (fst (ins s r))"
  shows "I (fst (insert_all ins s rs))"
  using assms(1) by (induction rs arbitrary: s) (simp_all add: Let_def split_beta assms(2))

end

section \<open>Rows\<close>

record hb_row =
  r_time :: int
  r_monitor :: ident
  r_org :: ident
  r_probe :: ident
  r_status :: int
  r_response_ms :: "rat option"
  r_code :: "string option"
  r_message :: "string option"
  r_attempt :: int
  r_important :: bool
  r_suppressed :: bool
  r_reason :: "int option"

definition micros :: "int \<Rightarrow> int" where "micros t = t div 1000"
definition from_micros :: "int \<Rightarrow> int" where "from_micros us = us * 1000"

definition null_string :: "string \<Rightarrow> string option" where
  "null_string s = (if s = '''' then None else Some s)"

definition null_reason :: "suppression \<Rightarrow> int option" where
  "null_reason r = (if r = SuppressionNone then None else Some (suppression_code r))"

text \<open>\<open>float64(d.Microseconds()) / 1000.0\<close>, the milliseconds stored for a duration.\<close>

definition response_ms :: "int \<Rightarrow> rat" where
  "response_ms d = float_div (float_of_int (go_div d 1000)) 1000"

definition row_of :: "heartbeat \<Rightarrow> hb_row" where
  "row_of b =
     \<lparr> r_time = micros (hb_time b), r_monitor = hb_monitor b, r_org = hb_org b,
       r_probe = hb_probe b, r_status = status_code (hb_status b),
       r_response_ms = map_option response_ms (hb_response b),
       r_code = null_string (hb_code b), r_message = null_string (hb_message b),
       r_attempt = hb_attempt b, r_important = hb_important b,
       r_suppressed = hb_suppressed b, r_reason = null_reason (hb_reason b) \<rparr>"

text \<open>The unique index: \<open>(org_id, monitor_id, time, probe_id)\<close>.\<close>

definition row_key :: "hb_row \<Rightarrow> ident \<times> ident \<times> int \<times> ident" where
  "row_key r = (r_org r, r_monitor r, r_time r, r_probe r)"

definition beat_key :: "heartbeat \<Rightarrow> ident \<times> ident \<times> int \<times> ident" where
  "beat_key b = (hb_org b, hb_monitor b, micros (hb_time b), hb_probe b)"

lemma row_key_of [simp]: "row_key (row_of b) = beat_key b"
  by (simp add: row_key_def row_of_def beat_key_def)

definition insert_beat :: "hb_row list \<Rightarrow> heartbeat \<Rightarrow> hb_row list \<times> nat" where
  "insert_beat rows b =
     (if row_key (row_of b) \<in> row_key ` set rows then (rows, 0) else (rows @ [row_of b], 1))"

text \<open>
  The whole batch is one transaction: a database error anywhere leaves the table as it
  was (\<open>Ingest\<close> models the error); otherwise the rows are inserted in order.
\<close>

definition write_batch :: "hb_row list \<Rightarrow> heartbeat list \<Rightarrow> hb_row list \<times> nat" where
  "write_batch rows beats = insert_all insert_beat rows beats"

definition row_keys :: "hb_row list \<Rightarrow> (ident \<times> ident \<times> int \<times> ident) set" where
  "row_keys rows = row_key ` set rows"

interpretation beat_log: keyed_log insert_beat row_keys beat_key
  by unfold_locales (auto simp: insert_beat_def row_keys_def)

definition unique_keys :: "hb_row list \<Rightarrow> bool" where
  "unique_keys rows = distinct (map row_key rows)"

lemma insert_beat_unique: "unique_keys rows \<Longrightarrow> unique_keys (fst (insert_beat rows b))"
  by (auto simp: unique_keys_def insert_beat_def)

lemma write_batch_unique [keeps]: "unique_keys rows \<Longrightarrow> unique_keys (fst (write_batch rows bs))"
  unfolding write_batch_def
  by (rule beat_log.batch_invariant[where I = unique_keys]) (simp_all add: insert_beat_unique)

lemma write_batch_keeps_rows: "set rows \<subseteq> set (fst (write_batch rows bs))"
  unfolding write_batch_def
  by (induction bs arbitrary: rows) (fastforce simp: Let_def split_beta insert_beat_def)+

text \<open>C4: Delivery is at least once, and the heartbeat table makes that safe. Sending any
  part of a written batch again changes nothing and inserts nothing; every heartbeat of a
  batch is in the table afterwards, under its key; the table never holds two rows with one
  key; and the count returned is exactly the number of keys that were new.\<close>

theorem write_batch_redelivery:
  assumes "unique_keys rows" "write_batch rows beats = (rows', n)" "set again \<subseteq> set beats"
  shows "(write_batch rows' again = (rows', 0)) \<and>
    (unique_keys rows') \<and>
    (row_keys rows' = row_keys rows \<union> beat_key ` set beats) \<and>
    (n = length rows' - length rows)"
proof (intro conjI)
  have r': "rows' = fst (insert_all insert_beat rows beats)"
    and n: "n = snd (insert_all insert_beat rows beats)"
    using assms(2) by (simp_all add: write_batch_def)
  show "write_batch rows' again = (rows', 0)"
    unfolding write_batch_def r' by (rule beat_log.batch_resent_prefix[OF assms(3)])
  show u: "unique_keys rows'"
    using write_batch_unique[OF assms(1), of beats] assms(2) by simp
  show k: "row_keys rows' = row_keys rows \<union> beat_key ` set beats"
    unfolding r' by (rule beat_log.batch_keys)
  have card: "card (row_keys xs) = length xs" if "unique_keys xs" for xs
    using that distinct_card[of "map row_key xs"] by (simp add: unique_keys_def row_keys_def)
  show "n = length rows' - length rows"
    using beat_log.batch_count[of rows beats] n k card[OF u] card[OF assms(1)]
    by (simp add: row_keys_def)
qed

section \<open>The page query\<close>

text \<open>
  Newest first, one row more than the limit to know whether there is another page. The
  order of rows with equal times is the database's; here it is that of insertion.
\<close>

definition beat_matches :: "ident \<Rightarrow> int option \<Rightarrow> bool \<Rightarrow> hb_row \<Rightarrow> bool" where
  "beat_matches mid bound important r =
     (r_monitor r = mid \<and> (\<forall>t \<in> set_option bound. r_time r < micros t) \<and>
      (important \<longrightarrow> r_important r))"

fun status_of_code :: "int \<Rightarrow> status" where
  "status_of_code c =
     (if c = 0 then StatusDown else if c = 1 then StatusUp else if c = 2 then StatusPending
      else if c = 3 then StatusMaintenance else if c = 4 then StatusUnknown else StatusSkipped)"

definition scan_heartbeat :: "hb_row \<Rightarrow> heartbeat" where
  "scan_heartbeat r =
     \<lparr> hb_time = from_micros (r_time r), hb_monitor = copy_id (r_monitor r),
       hb_org = copy_id (r_org r), hb_probe = copy_id (r_probe r),
       hb_status = status_of_code (r_status r),
       hb_response = map_option (\<lambda>ms. float_to_int (float_mul ms 1000000)) (r_response_ms r),
       hb_code = (case r_code r of Some s \<Rightarrow> s | None \<Rightarrow> ''''),
       hb_message = (case r_message r of Some s \<Rightarrow> s | None \<Rightarrow> ''''),
       hb_attempt = r_attempt r, hb_important = r_important r, hb_suppressed = r_suppressed r,
       hb_reason = (if r_reason r = Some 1 then SuppressionMaintenance
                    else if r_reason r = Some 2 then SuppressionDependency
                    else SuppressionNone) \<rparr>"

definition list_heartbeats ::
  "hb_row list \<Rightarrow> ident \<Rightarrow> int option \<Rightarrow> nat \<Rightarrow> bool \<Rightarrow> heartbeat list \<times> bool" where
  "list_heartbeats rows mid bound limit important =
     (let found = sort_key (\<lambda>r. - r_time r) (filter (beat_matches mid bound important) rows);
          page = take (limit + 1) (map scan_heartbeat found)
      in (take limit page, limit < length page))"

end
