(* ===== verification/ControlStore.thy ===== *)
theory ControlStore
  imports HeartbeatStore
begin

text \<open>
  The part of the store the control plane uses (\<open>internal/store/sqlite/monitors.go\<close>): monitor
  configuration, monitor state, the heartbeat table of \<open>HeartbeatStore\<close>, and the last seen
  certificate and registration of each monitor.

  A database call may fail; which calls fail is the field \<open>s_faults\<close>, arbitrary and fixed
  for the duration of one operation of the control plane, so that every theorem about an
  error path quantifies over where it happens.
\<close>

datatype fault =
  Fault_monitor ident | Fault_state ident | Fault_write | Fault_save ident
| Fault_read_cert ident | Fault_save_cert ident | Fault_read_domain ident | Fault_save_domain ident

datatype store_error = ErrNotFound | ErrDatabase

record store =
  s_monitors :: "(ident \<times> monitor) list"
  s_states :: "ident \<rightharpoonup> monitor_state"
  s_rows :: "hb_row list"
  s_certs :: "ident \<rightharpoonup> certificate"
  s_domains :: "ident \<rightharpoonup> domain_expiry"
  s_faults :: "fault set"

definition load_monitor :: "store \<Rightarrow> ident \<Rightarrow> store_error + monitor" where
  "load_monitor s i =
     (if Fault_monitor i \<in> s_faults s then Inl ErrDatabase
      else case (map_of (s_monitors s) i, s_states s i) of
             (Some m, Some _) \<Rightarrow> Inr m
           | _ \<Rightarrow> Inl ErrNotFound)"

definition get_state :: "store \<Rightarrow> ident \<Rightarrow> store_error + monitor_state" where
  "get_state s i =
     (if Fault_state i \<in> s_faults s then Inl ErrDatabase else expect ErrNotFound (s_states s i))"

text \<open>Times are stored in milliseconds.\<close>

definition to_millis :: "int \<Rightarrow> int" where
  "to_millis t = t div 1000000 * 1000000"

text \<open>
  The update of \<open>SaveState\<close>: the sweep owns the value \<open>maintenance\<close> of the suppression
  column, so a row that carries it keeps it and keeps the status \<open>maintenance\<close>; the version
  goes up by one whatever was written.
\<close>

definition merge_state :: "monitor_state \<Rightarrow> monitor_state \<Rightarrow> monitor_state" where
  "merge_state old new =
     old \<lparr> st_status := (if st_suppressed_by old = SuppressedByMaintenance
                         then MonitorStatusMaintenance else st_status new),
           st_last_check := map_option to_millis (st_last_check new),
           st_next_check := map_option to_millis (st_next_check new),
           st_last_change := map_option to_millis (st_last_change new),
           st_failures := st_failures new,
           st_response_ms := st_response_ms new,
           st_message := st_message new,
           st_suppressed_by := (if st_suppressed_by old = SuppressedByMaintenance
                                then st_suppressed_by old else st_suppressed_by new),
           st_version := st_version old + 1 \<rparr>"

definition save_state :: "store \<Rightarrow> monitor_state \<Rightarrow> store_error + store" where
  "save_state s st =
     (if Fault_save (st_monitor st) \<in> s_faults s then Inl ErrDatabase
      else case s_states s (st_monitor st) of
             None \<Rightarrow> Inr s
           | Some old \<Rightarrow>
               Inr (s \<lparr> s_states := (s_states s)(st_monitor st \<mapsto> merge_state old st) \<rparr>))"

definition store_write_batch :: "store \<Rightarrow> heartbeat list \<Rightarrow> store_error + store \<times> nat" where
  "store_write_batch s beats =
     (if beats = [] then Inr (s, 0)
      else if Fault_write \<in> s_faults s then Inl ErrDatabase
      else case write_batch (s_rows s) beats of (rows, n) \<Rightarrow> Inr (s \<lparr> s_rows := rows \<rparr>, n))"

definition get_certificate :: "store \<Rightarrow> ident \<Rightarrow> store_error + certificate" where
  "get_certificate s i =
     (if Fault_read_cert i \<in> s_faults s then Inl ErrDatabase else expect ErrNotFound (s_certs s i))"

definition save_certificate :: "store \<Rightarrow> certificate \<Rightarrow> store_error + store" where
  "save_certificate s c =
     (if Fault_save_cert (cert_monitor c) \<in> s_faults s then Inl ErrDatabase
      else Inr (s \<lparr> s_certs := (s_certs s)(cert_monitor c \<mapsto>
             c \<lparr> cert_valid_from := map_option to_millis (cert_valid_from c),
                 cert_valid_to := to_millis (cert_valid_to c),
                 cert_observed_at := to_millis (cert_observed_at c) \<rparr>) \<rparr>))"

definition get_domain_expiry :: "store \<Rightarrow> ident \<Rightarrow> store_error + domain_expiry" where
  "get_domain_expiry s i =
     (if Fault_read_domain i \<in> s_faults s then Inl ErrDatabase
      else expect ErrNotFound (s_domains s i))"

definition save_domain_expiry :: "store \<Rightarrow> domain_expiry \<Rightarrow> store_error + store" where
  "save_domain_expiry s d =
     (if Fault_save_domain (dom_monitor d) \<in> s_faults s then Inl ErrDatabase
      else Inr (s \<lparr> s_domains := (s_domains s)(dom_monitor d \<mapsto>
             d \<lparr> dom_expires_at := to_millis (dom_expires_at d),
                 dom_observed_at := to_millis (dom_observed_at d) \<rparr>) \<rparr>))"

section \<open>What an update of one table leaves alone\<close>

lemma save_state_other [keeps]:
  assumes "save_state s st = Inr s'"
  shows "s_rows s' = s_rows s" "s_monitors s' = s_monitors s" "s_faults s' = s_faults s"
    "s_certs s' = s_certs s" "s_domains s' = s_domains s"
    "i \<noteq> st_monitor st \<Longrightarrow> s_states s' i = s_states s i"
  using assms by (auto simp: save_state_def split: if_splits option.splits)

lemma store_write_batch_other [keeps]:
  assumes "store_write_batch s beats = Inr (s', n)"
  shows "s_states s' = s_states s" "s_monitors s' = s_monitors s" "s_faults s' = s_faults s"
    "s_certs s' = s_certs s" "s_domains s' = s_domains s"
  using assms by (auto simp: store_write_batch_def split: if_splits prod.splits)

lemma store_write_batch_rows:
  "store_write_batch s beats = Inr (s', n) \<Longrightarrow> write_batch (s_rows s) beats = (s_rows s', n)"
  by (auto simp: store_write_batch_def write_batch_def split: if_splits prod.splits)

lemma save_certificate_other [keeps]:
  assumes "save_certificate s c = Inr s'"
  shows "s_states s' = s_states s" "s_monitors s' = s_monitors s" "s_faults s' = s_faults s"
    "s_rows s' = s_rows s" "s_domains s' = s_domains s"
  using assms by (auto simp: save_certificate_def split: if_splits)

lemma save_domain_expiry_other [keeps]:
  assumes "save_domain_expiry s d = Inr s'"
  shows "s_states s' = s_states s" "s_monitors s' = s_monitors s" "s_faults s' = s_faults s"
    "s_rows s' = s_rows s" "s_certs s' = s_certs s"
  using assms by (auto simp: save_domain_expiry_def split: if_splits)

section \<open>The contract between the sweep and the result path\<close>

text \<open>
  The result path may save any state it likes: the locale states what a save promises about
  a row the maintenance sweep has claimed, and that a row never goes backwards in version.
\<close>

locale state_table =
  fixes row :: "'s \<Rightarrow> ident \<Rightarrow> monitor_state option"
    and save :: "'s \<Rightarrow> monitor_state \<Rightarrow> 'e + 's"
  assumes save_elsewhere:
      "save s st = Inr s' \<Longrightarrow> i \<noteq> st_monitor st \<Longrightarrow> row s' i = row s i"
    and save_keeps_claim:
      "save s st = Inr s' \<Longrightarrow> row s i = Some r \<Longrightarrow> st_suppressed_by r = SuppressedByMaintenance \<Longrightarrow>
         \<exists>r'. row s' i = Some r' \<and> st_suppressed_by r' = SuppressedByMaintenance \<and>
              (i = st_monitor st \<or> st_status r = MonitorStatusMaintenance \<longrightarrow>
                 st_status r' = MonitorStatusMaintenance)"
    and save_versions:
      "save s st = Inr s' \<Longrightarrow> row s i = Some r \<Longrightarrow>
         \<exists>r'. row s' i = Some r' \<and> st_version r \<le> st_version r'"

fun save_all :: "('s \<Rightarrow> 'st \<Rightarrow> 'e + 's) \<Rightarrow> ('st \<Rightarrow> 'f) \<Rightarrow> 's \<Rightarrow> 'st list \<Rightarrow> ('f \<times> 's) + 's" where
  "save_all save err s [] = Inr s"
| "save_all save err s (st # sts) =
     (case save s st of Inl _ \<Rightarrow> Inl (err st, s) | Inr s' \<Rightarrow> save_all save err s' sts)"

context state_table
begin

lemma save_all_claim:
  assumes "save_all save err s sts = Inr s'" "row s i = Some r"
    "st_suppressed_by r = SuppressedByMaintenance" "st_status r = MonitorStatusMaintenance"
  shows "\<exists>r'. row s' i = Some r' \<and> st_suppressed_by r' = SuppressedByMaintenance \<and>
              st_status r' = MonitorStatusMaintenance"
  using assms
proof (induction sts arbitrary: s r)
  case (Cons st sts)
  then obtain s1 where s1: "save s st = Inr s1" "save_all save err s1 sts = Inr s'"
    by (auto split: sum.splits)
  from save_keeps_claim[OF s1(1) Cons.prems(2,3)] Cons.prems(4) Cons.IH[OF s1(2)]
  show ?case by blast
qed auto

lemma save_all_elsewhere:
  "save_all save err s sts = Inr s' \<Longrightarrow> i \<notin> st_monitor ` set sts \<Longrightarrow> row s' i = row s i"
  by (induction sts arbitrary: s) (auto simp: save_elsewhere split: sum.splits)

end

interpretation states: state_table s_states save_state
proof unfold_locales
  show "s_states s' i = s_states s i"
    if "save_state s st = Inr s'" "i \<noteq> st_monitor st" for s st s' i
    using save_state_other(6)[OF that] .
qed (auto simp: save_state_def merge_state_def split: if_splits option.splits)

end
