(* ===== verification/GoStrings.thy ===== *)
theory GoStrings
  imports Prelude "HOL-Library.Sublist"
begin

text \<open>
  What the program uses of Go's \<open>strings\<close> and \<open>strconv\<close>. A Go string is its list of bytes.
  \<open>unicode.IsSpace\<close> is modelled on the bytes below 128, so the white space of
  \<open>strings.Fields\<close> and \<open>strings.TrimSpace\<close> is the ASCII one.
\<close>

definition code_of :: "char \<Rightarrow> int" where
  "code_of c = int (of_char c)"

definition is_space :: "char \<Rightarrow> bool" where
  "is_space c = (code_of c = 32 \<or> (9 \<le> code_of c \<and> code_of c \<le> 13))"

definition is_digit :: "char \<Rightarrow> bool" where
  "is_digit c = (48 \<le> code_of c \<and> code_of c \<le> 57)"

definition trim_right :: "string \<Rightarrow> string" where
  "trim_right s = rev (dropWhile is_space (rev s))"

definition trim_space :: "string \<Rightarrow> string" where
  "trim_space s = trim_right (dropWhile is_space s)"

text \<open>\<open>strings.Fields\<close>: the maximal runs of bytes that are not white space.\<close>

function go_fields :: "string \<Rightarrow> string list" where
  "go_fields s =
     (let t = dropWhile is_space s in
      if t = [] then []
      else takeWhile (\<lambda>c. \<not> is_space c) t # go_fields (dropWhile (\<lambda>c. \<not> is_space c) t))"
  by pat_completeness auto
termination
proof (relation "measure length", simp)
  fix s t :: string
  assume t: "t = dropWhile is_space s" "t \<noteq> []"
  then have "\<not> is_space (hd t)" by (metis hd_dropWhile)
  with t(2) have "length (dropWhile (\<lambda>c. \<not> is_space c) t) < length t"
    by (cases t) (auto simp: le_imp_less_Suc length_dropWhile_le)
  also have "length t \<le> length s" by (simp add: t(1) length_dropWhile_le)
  finally show "(dropWhile (\<lambda>c. \<not> is_space c) t, s) \<in> measure length" by simp
qed

declare go_fields.simps [simp del]

text \<open>\<open>strings.Split\<close> on a one-byte separator: never an empty list.\<close>

fun split_on :: "char \<Rightarrow> string \<Rightarrow> string list" where
  "split_on sep [] = [[]]"
| "split_on sep (c # cs) =
     (if c = sep then [] # split_on sep cs
      else (case split_on sep cs of [] \<Rightarrow> [[c]] | w # ws \<Rightarrow> (c # w) # ws))"

text \<open>\<open>strings.Cut\<close> on a one-byte separator: before, after, found.\<close>

fun cut :: "char \<Rightarrow> string \<Rightarrow> string \<times> string \<times> bool" where
  "cut sep [] = ([], [], False)"
| "cut sep (c # cs) =
     (if c = sep then ([], cs, True)
      else (case cut sep cs of (before, after, found) \<Rightarrow> (c # before, after, found)))"

definition join_strings :: "string \<Rightarrow> string list \<Rightarrow> string" where
  "join_strings sep ws =
     (case ws of [] \<Rightarrow> [] | w # rest \<Rightarrow> w @ concat (map (\<lambda>x. sep @ x) rest))"

text \<open>\<open>strconv.Atoi\<close>: an optional sign, decimal digits, and the 64-bit range.\<close>

fun digits_value :: "int \<Rightarrow> string \<Rightarrow> int option" where
  "digits_value acc [] = Some acc"
| "digits_value acc (c # cs) =
     (if is_digit c then digits_value (10 * acc + (code_of c - 48)) cs else None)"

definition check_int64 :: "int option \<Rightarrow> int option" where
  "check_int64 v = (case v of None \<Rightarrow> None | Some i \<Rightarrow> if in_int64 i then Some i else None)"

definition atoi :: "string \<Rightarrow> int option" where
  "atoi s =
     (case s of [] \<Rightarrow> None
      | c # cs \<Rightarrow>
          if c = CHR ''-'' then (if cs = [] then None else check_int64 (map_option uminus (digits_value 0 cs)))
          else if c = CHR ''+'' then (if cs = [] then None else check_int64 (digits_value 0 cs))
          else check_int64 (digits_value 0 s))"

text \<open>\<open>strconv.Itoa\<close>.\<close>

definition digit_char :: "nat \<Rightarrow> char" where
  "digit_char n = char_of (48 + n)"

fun nat_str :: "nat \<Rightarrow> string" where
  "nat_str n = (if n < 10 then [digit_char n] else nat_str (n div 10) @ [digit_char (n mod 10)])"

declare nat_str.simps [simp del]

definition itoa :: "int \<Rightarrow> string" where
  "itoa i = (if i < 0 then CHR ''-'' # nat_str (nat (- i)) else nat_str (nat i))"

section \<open>Facts\<close>

lemma split_on_nonempty [simp]: "split_on sep s \<noteq> []"
  by (cases s) (auto split: list.splits)

lemma cut_found: "cut sep s = (b, a, True) \<Longrightarrow> s = b @ sep # a \<and> sep \<notin> set b"
  by (induction s arbitrary: b a) (auto split: if_splits prod.splits)

lemma cut_not_found: "cut sep s = (b, a, False) \<Longrightarrow> b = s \<and> a = [] \<and> sep \<notin> set s"
  by (induction s arbitrary: b a) (auto split: if_splits prod.splits)

lemma cut_append [simp]: "sep \<notin> set b \<Longrightarrow> cut sep (b @ sep # a) = (b, a, True)"
  by (induction b) auto

lemma cut_absent: "sep \<notin> set s \<Longrightarrow> cut sep s = (s, [], False)"
  by (induction s) auto

lemma split_on_absent: "sep \<notin> set s \<Longrightarrow> split_on sep s = [s]"
  by (induction s) auto

lemma split_on_append: "sep \<notin> set b \<Longrightarrow> split_on sep (b @ sep # a) = b # split_on sep a"
  by (induction b) (auto split: list.splits)

lemma code_digit_char: "n < 10 \<Longrightarrow> code_of (digit_char n) = 48 + int n"
  by (simp add: code_of_def digit_char_def)

lemma is_digit_digit_char: "n < 10 \<Longrightarrow> is_digit (digit_char n)"
  by (simp add: is_digit_def code_digit_char)

lemma digits_value_append:
  "digits_value acc (xs @ ys) =
     (case digits_value acc xs of None \<Rightarrow> None | Some v \<Rightarrow> digits_value v ys)"
  by (induction xs arbitrary: acc) auto

lemma nat_str_digits: "\<forall>c \<in> set (nat_str n). is_digit c"
proof (induction n rule: nat_str.induct)
  case (1 n)
  show ?case
  proof (cases "n < 10")
    case True
    then show ?thesis by (simp add: nat_str.simps [of n] is_digit_digit_char)
  next
    case False
    with 1 show ?thesis by (auto simp: nat_str.simps [of n] is_digit_digit_char)
  qed
qed

lemma nat_str_nonempty [simp]: "nat_str n \<noteq> []"
  by (simp add: nat_str.simps [of n])

lemma digits_value_nat_str: "digits_value 0 (nat_str n) = Some (int n)"
proof (induction n rule: nat_str.induct)
  case (1 n)
  show ?case
  proof (cases "n < 10")
    case True
    then show ?thesis
      by (simp add: nat_str.simps [of n] is_digit_digit_char code_digit_char)
  next
    case False
    then have "digits_value 0 (nat_str n) = Some (10 * int (n div 10) + int (n mod 10))"
      using 1 by (simp add: nat_str.simps [of n] digits_value_append is_digit_digit_char
          code_digit_char)
    also have "10 * int (n div 10) + int (n mod 10) = int n"
      by (metis mult_div_mod_eq of_nat_add of_nat_mult of_nat_numeral)
    finally show ?thesis .
  qed
qed

lemma sign_not_digit: "\<not> is_digit CHR ''-''" "\<not> is_digit CHR ''+''"
  by (simp_all add: is_digit_def code_of_def)

lemma digit_not_space: "is_digit c \<Longrightarrow> \<not> is_space c"
  by (simp add: is_digit_def is_space_def)

lemma atoi_nat_str: "int n \<le> max_int64 \<Longrightarrow> atoi (nat_str n) = Some (int n)"
proof -
  assume n: "int n \<le> max_int64"
  obtain c cs where s: "nat_str n = c # cs" by (cases "nat_str n") auto
  then have "is_digit c" using nat_str_digits [of n] by simp
  then have "c \<noteq> CHR ''-''" "c \<noteq> CHR ''+''" using sign_not_digit by auto
  then have "atoi (nat_str n) = check_int64 (digits_value 0 (nat_str n))"
    by (simp add: atoi_def s del: digits_value.simps)
  with n show ?thesis
    by (simp add: digits_value_nat_str check_int64_def in_int64_def min_int64_def)
qed

text \<open>\<open>Atoi\<close> reads back what \<open>Itoa\<close> writes.\<close>

lemma atoi_itoa: "in_int64 i \<Longrightarrow> atoi (itoa i) = Some i"
proof (cases "i < 0")
  case False
  assume "in_int64 i"
  with False show ?thesis using atoi_nat_str [of "nat i"] by (simp add: itoa_def in_int64_def)
next
  case True
  assume i: "in_int64 i"
  from True show ?thesis
    by (simp add: itoa_def atoi_def digits_value_nat_str check_int64_def i)
qed

lemma atoi_in_int64: "atoi s = Some i \<Longrightarrow> in_int64 i"
  by (auto simp: atoi_def check_int64_def split: list.splits if_splits option.splits)

lemma trim_space_id:
  "s = [] \<or> (\<not> is_space (hd s) \<and> \<not> is_space (last s)) \<Longrightarrow> trim_space s = s"
proof (cases "s = []")
  case False
  assume "s = [] \<or> (\<not> is_space (hd s) \<and> \<not> is_space (last s))"
  with False have h: "\<not> is_space (hd s)" "\<not> is_space (hd (rev s))" by (simp_all add: hd_rev)
  have d: "dropWhile is_space xs = xs" if "xs \<noteq> []" "\<not> is_space (hd xs)" for xs
    using that by (cases xs) simp_all
  show ?thesis using False h by (simp add: trim_space_def trim_right_def d)
qed (simp add: trim_space_def trim_right_def)

lemma trim_space_no_space: "\<forall>c \<in> set s. \<not> is_space c \<Longrightarrow> trim_space s = s"
  by (rule trim_space_id) (cases "s = []", auto)

lemma go_fields_word:
  assumes "w \<noteq> []" "\<forall>c \<in> set w. \<not> is_space c"
  shows "go_fields (w @ CHR '' '' # s) = w # go_fields (CHR '' '' # s)" "go_fields w = [w]"
proof -
  have sp: "is_space CHR '' ''" by (simp add: is_space_def code_of_def)
  have d: "dropWhile is_space (w @ r) = w @ r" for r using assms by (cases w) auto
  have t: "takeWhile (\<lambda>c. \<not> is_space c) (w @ CHR '' '' # s) = w"
    "dropWhile (\<lambda>c. \<not> is_space c) (w @ CHR '' '' # s) = CHR '' '' # s"
    using assms(2) sp by (simp_all add: takeWhile_append2 dropWhile_append2)
  show "go_fields (w @ CHR '' '' # s) = w # go_fields (CHR '' '' # s)"
    by (subst go_fields.simps) (simp add: d Let_def t)
  have e: "takeWhile (\<lambda>c. \<not> is_space c) w = w" "dropWhile (\<lambda>c. \<not> is_space c) w = []"
    using assms(2) by (simp_all add: takeWhile_eq_all_conv dropWhile_eq_Nil_conv)
  have "dropWhile is_space w = w" using d [of "[]"] by simp
  then have "go_fields w = w # go_fields []"
    by (subst go_fields.simps) (simp add: Let_def e assms(1))
  then show "go_fields w = [w]" by (simp add: go_fields.simps [of "[]"])
qed

lemma go_fields_space: "is_space c \<Longrightarrow> go_fields (c # s) = go_fields s"
  by (subst (1 2) go_fields.simps) (simp add: Let_def)

lemma digits_value_bound:
  "digits_value acc s = Some v \<Longrightarrow> 0 \<le> acc \<Longrightarrow> 0 \<le> v \<and> v < (acc + 1) * 10 ^ length s"
proof (induction s arbitrary: acc)
  case Nil
  then show ?case by simp
next
  case (Cons c cs)
  then have d: "is_digit c" and v: "digits_value (10 * acc + (code_of c - 48)) cs = Some v"
    by (auto split: if_splits)
  have c: "0 \<le> code_of c - 48" "code_of c - 48 \<le> 9" using d by (simp_all add: is_digit_def)
  have "0 \<le> v \<and> v < (10 * acc + (code_of c - 48) + 1) * 10 ^ length cs"
    by (rule Cons.IH [OF v]) (use c Cons.prems(2) in simp)
  moreover have "(10 * acc + (code_of c - 48) + 1) * 10 ^ length cs \<le> (10 * (acc + 1)) * (10 ^ length cs :: int)"
    by (rule mult_right_mono) (use c in simp_all)
  moreover have "(10 * (acc + 1)) * (10 ^ length cs :: int) = (acc + 1) * 10 ^ length (c # cs)"
    by (simp add: algebra_simps)
  ultimately show ?case by linarith
qed

lemma check_int64_Some: "check_int64 x = Some v \<longleftrightarrow> x = Some v \<and> in_int64 v"
  by (auto simp: check_int64_def split: option.splits if_splits)

lemma atoi_cases:
  assumes "atoi s = Some v"
  obtains cs w where "length cs \<le> length s" "digits_value 0 cs = Some w" "v = w \<or> v = - w"
proof -
  obtain c cs where s: "s = c # cs" using assms by (cases s) (auto simp: atoi_def)
  consider (minus) "c = CHR ''-''" | (plus) "c = CHR ''+''"
    | (none) "c \<noteq> CHR ''-''" "c \<noteq> CHR ''+''" by blast
  then show thesis
  proof cases
    case minus
    then obtain w where "digits_value 0 cs = Some w" "v = - w"
      using assms by (auto simp: atoi_def s check_int64_Some split: if_splits)
    then show ?thesis using that [of cs w] s by simp
  next
    case plus
    then have "digits_value 0 cs = Some v"
      using assms by (auto simp: atoi_def s check_int64_Some split: if_splits)
    then show ?thesis using that [of cs v] s by simp
  next
    case none
    then have "atoi s = check_int64 (digits_value 0 s)"
      by (simp add: atoi_def s del: digits_value.simps)
    then have "digits_value 0 s = Some v" using assms check_int64_Some by metis
    then show ?thesis using that [of s v] by simp
  qed
qed

lemma atoi_bound: "atoi s = Some v \<Longrightarrow> v < 10 ^ length s"
proof -
  assume "atoi s = Some v"
  then obtain cs w where a: "length cs \<le> length s" "digits_value 0 cs = Some w" "v = w \<or> v = - w"
    by (rule atoi_cases)
  have "0 \<le> w" "w < 10 ^ length cs" using digits_value_bound [OF a(2)] by simp_all
  moreover have "(10::int) ^ length cs \<le> 10 ^ length s" by (rule power_increasing) (use a in simp_all)
  ultimately show ?thesis using a(3) by linarith
qed

lemma cut_lengths: "cut sep s = (b, a, f) \<Longrightarrow> length b \<le> length s \<and> length a \<le> length s"
  using cut_found [of sep s b a] cut_not_found [of sep s b a] by (cases f) auto

lemma trim_space_length: "length (trim_space s) \<le> length s"
proof -
  have "length (dropWhile is_space (rev (dropWhile is_space s))) \<le> length (rev (dropWhile is_space s))"
    by (rule length_dropWhile_le)
  also have "\<dots> \<le> length s" by (simp add: length_dropWhile_le)
  finally show ?thesis by (simp add: trim_space_def trim_right_def)
qed

end
