(* ===== verification/Observations.thy ===== *)
theory Observations
  imports ControlStore GoStrings
begin

text \<open>
  The half of a check that is not a verdict (\<open>internal/controlplane/observations.go\<close>): the
  certificate or registration seen on the wire, stored in place of the previous one, and the
  expiry alert decided against the row it replaces. Also the wire types of a probe's result,
  which the ingest path shares.
\<close>

section \<open>Results on the wire\<close>

datatype outcome =
  OUTCOME_UNSPECIFIED | OUTCOME_UP | OUTCOME_DOWN | OUTCOME_UNKNOWN | OUTCOME_SKIPPED
| OUTCOME_OTHER int \<comment> \<open>a number this build has no name for: the enum is open\<close>

record cert_seen =
  cs_subject :: string
  cs_issuer :: string
  cs_serial :: string
  cs_from_micros :: int
  cs_to_micros :: int
  cs_fingerprint :: bytes
  cs_sans :: "string list"
  cs_chain_valid :: "bool option"
  cs_chain_error :: string
  cs_threshold :: "int option"

record domain_seen =
  ds_domain :: string
  ds_expires_micros :: int
  ds_registrar :: string
  ds_source :: string
  ds_threshold :: "int option"

record result =
  res_id :: bytes
  res_monitor :: bytes
  res_micros :: int
  res_outcome :: outcome
  res_ms :: rat
  res_code :: string
  res_message :: string
  res_attempt :: int
  res_cert :: "cert_seen option"
  res_domain :: "domain_seen option"

section \<open>Alerts\<close>

datatype event_type =
  EventMonitorDown | EventMonitorUp | EventMonitorPending
| EventMonitorCertificateExpiring | EventMonitorDomainExpiring

record alert =
  al_fire :: bool
  al_event :: "event_type option"
  al_previous :: "monitor_status option"

definition no_alert :: alert where
  "no_alert = \<lparr> al_fire = False, al_event = None, al_previous = None \<rparr>"

record pending_alert =
  pa_monitor :: monitor
  pa_beat :: heartbeat
  pa_alert :: alert
  pa_status :: "monitor_status option"

record observed =
  ob_monitor :: monitor
  ob_beat :: heartbeat
  ob_status :: monitor_status
  ob_result :: result

section \<open>Words for an expiry\<close>

definition humanise_days :: "int \<Rightarrow> string" where
  "humanise_days d = (if d = 1 then ''1 day'' else itoa d @ '' days'')"

definition expiry_phrase :: "int \<Rightarrow> string" where
  "expiry_phrase d =
     (if d < 0 then ''expired '' @ humanise_days (- d) @ '' ago''
      else if d = 0 then ''expires today'' else ''expires in '' @ humanise_days d)"

definition pad_to :: "nat \<Rightarrow> string \<Rightarrow> string" where
  "pad_to n s = replicate (n - length s) (CHR ''0'') @ s"

text \<open>\<open>time.RFC3339\<close> of an instant in UTC, for the years 0 to 9999.\<close>

definition rfc3339 :: "instant \<Rightarrow> string" where
  "rfc3339 t =
     (case date_of utc t of (y, m, d) \<Rightarrow>
        pad_to 4 (itoa y) @ ''-'' @ pad_to 2 (itoa m) @ ''-'' @ pad_to 2 (itoa d) @ ''T'' @
        pad_to 2 (itoa (hour_of utc t)) @ '':'' @ pad_to 2 (itoa (minute_of utc t)) @ '':'' @
        pad_to 2 (itoa (second_of utc t)) @ ''Z'')"

section \<open>When an observation is worth an event\<close>

definition certificate_worth_saying ::
  "certificate option \<Rightarrow> certificate \<Rightarrow> int \<Rightarrow> int \<Rightarrow> bool" where
  "certificate_worth_saying previous current days threshold =
     (if threshold < days then False
      else case previous of
             None \<Rightarrow> True
           | Some p \<Rightarrow>
               if cert_fingerprint p \<noteq> cert_fingerprint current then True
               else cert_days_remaining p (cert_observed_at p) \<noteq> days)"

definition domain_worth_saying ::
  "domain_expiry option \<Rightarrow> domain_expiry \<Rightarrow> int \<Rightarrow> int \<Rightarrow> bool" where
  "domain_worth_saying previous current days threshold =
     (if threshold < days then False
      else case previous of
             None \<Rightarrow> True
           | Some p \<Rightarrow>
               if dom_expires_at p \<noteq> dom_expires_at current then True
               else domain_days_remaining p (dom_observed_at p) \<noteq> days)"

definition under_maintenance :: "heartbeat \<Rightarrow> bool" where
  "under_maintenance b = (hb_suppressed b \<and> hb_reason b = SuppressionMaintenance)"

text \<open>
  An expiry alert carries a copy of the heartbeat with the sentence written into it.
\<close>

definition expiry_alert :: "observed \<Rightarrow> event_type \<Rightarrow> int \<Rightarrow> string \<Rightarrow> pending_alert" where
  "expiry_alert ob ev days message =
     \<lparr> pa_monitor = ob_monitor ob,
       pa_beat = (ob_beat ob) \<lparr> hb_message := message, hb_code := itoa days \<rparr>,
       pa_alert = no_alert \<lparr> al_fire := True, al_event := Some ev \<rparr>,
       pa_status = Some (ob_status ob) \<rparr>"

section \<open>Recording\<close>

definition certificate_of :: "observed \<Rightarrow> cert_seen \<Rightarrow> certificate" where
  "certificate_of ob seen =
     \<lparr> cert_monitor = m_id (ob_monitor ob), cert_org = m_org (ob_monitor ob),
       cert_subject = cs_subject seen, cert_issuer = cs_issuer seen,
       cert_serial = cs_serial seen,
       cert_valid_from = (if cs_from_micros seen = 0 then None
                          else Some (from_micros (cs_from_micros seen))),
       cert_valid_to = from_micros (cs_to_micros seen),
       cert_fingerprint = cs_fingerprint seen, cert_sans = cs_sans seen,
       cert_chain_valid = cs_chain_valid seen, cert_chain_error = cs_chain_error seen,
       cert_observed_at = hb_time (ob_beat ob) \<rparr>"

text \<open>
  The row is read before it is written, because the decision needs what the write destroys.
  A failed read or write is logged and ends the recording without an alert; it never fails
  the batch.
\<close>

definition record_certificate ::
  "store \<Rightarrow> observed \<Rightarrow> cert_seen \<Rightarrow> store \<times> pending_alert option" where
  "record_certificate s ob seen =
     (if cs_to_micros seen = 0 then (s, None) else
      let current = certificate_of ob seen in
      case get_certificate s (m_id (ob_monitor ob)) of
        Inl ErrDatabase \<Rightarrow> (s, None)
      | prior \<Rightarrow>
          let previous = (case prior of Inr c \<Rightarrow> Some c | Inl _ \<Rightarrow> None) in
          (case save_certificate s current of
             Inl _ \<Rightarrow> (s, None)
           | Inr s' \<Rightarrow>
               (case cs_threshold seen of
                  None \<Rightarrow> (s', None)
                | Some threshold \<Rightarrow>
                    let days = cert_days_remaining current (hb_time (ob_beat ob));
                        subject = (if m_target (ob_monitor ob) = '''' then cert_subject current
                                   else m_target (ob_monitor ob))
                    in if under_maintenance (ob_beat ob) then (s', None)
                       else if \<not> certificate_worth_saying previous current days threshold
                         then (s', None)
                       else (s', Some (expiry_alert ob EventMonitorCertificateExpiring days
                              (''certificate for '' @ subject @ '' '' @ expiry_phrase days @
                               '', on '' @ rfc3339 (cert_valid_to current)))))))"

definition registration_of :: "observed \<Rightarrow> domain_seen \<Rightarrow> domain_expiry" where
  "registration_of ob seen =
     \<lparr> dom_monitor = m_id (ob_monitor ob), dom_org = m_org (ob_monitor ob),
       dom_name = ds_domain seen, dom_expires_at = from_micros (ds_expires_micros seen),
       dom_registrar = ds_registrar seen, dom_source = ds_source seen,
       dom_observed_at = hb_time (ob_beat ob) \<rparr>"

definition record_domain ::
  "store \<Rightarrow> observed \<Rightarrow> domain_seen \<Rightarrow> store \<times> pending_alert option" where
  "record_domain s ob seen =
     (if ds_expires_micros seen = 0 \<or> ds_domain seen = '''' then (s, None) else
      let current = registration_of ob seen in
      case get_domain_expiry s (m_id (ob_monitor ob)) of
        Inl ErrDatabase \<Rightarrow> (s, None)
      | prior \<Rightarrow>
          let previous = (case prior of Inr d \<Rightarrow> Some d | Inl _ \<Rightarrow> None) in
          (case save_domain_expiry s current of
             Inl _ \<Rightarrow> (s, None)
           | Inr s' \<Rightarrow>
               (case ds_threshold seen of
                  None \<Rightarrow> (s', None)
                | Some threshold \<Rightarrow>
                    let days = domain_days_remaining current (hb_time (ob_beat ob));
                        message = ''the registration for '' @ dom_name current @ '' '' @
                                  expiry_phrase days @ '', on '' @ rfc3339 (dom_expires_at current) @
                                  (if dom_registrar current = '''' then ''''
                                   else '', registered with '' @ dom_registrar current)
                    in if under_maintenance (ob_beat ob) then (s', None)
                       else if \<not> domain_worth_saying previous current days threshold
                         then (s', None)
                       else (s', Some (expiry_alert ob EventMonitorDomainExpiring days message)))))"

definition opt_list :: "'a option \<Rightarrow> 'a list" where
  "opt_list v = (case v of None \<Rightarrow> [] | Some x \<Rightarrow> [x])"

definition record_one :: "store \<Rightarrow> observed \<Rightarrow> store \<times> pending_alert list" where
  "record_one s ob =
     (let (s1, a) = (case res_cert (ob_result ob) of
                       None \<Rightarrow> (s, None) | Some c \<Rightarrow> record_certificate s ob c);
          (s2, b) = (case res_domain (ob_result ob) of
                       None \<Rightarrow> (s1, None) | Some d \<Rightarrow> record_domain s1 ob d)
      in (s2, opt_list a @ opt_list b))"

fun record_observed :: "store \<Rightarrow> observed list \<Rightarrow> store \<times> pending_alert list" where
  "record_observed s [] = (s, [])"
| "record_observed s (ob # obs) =
     (let (s1, alerts) = record_one s ob; (s2, more) = record_observed s1 obs
      in (s2, alerts @ more))"

end
