(* ===== verification/Ingest.thy ===== *)
theory Ingest
  imports Observations
begin

text \<open>
  Ingest (\<open>internal/controlplane/ingest.go\<close>, with \<open>raise\<close> and \<open>broadcast\<close> of \<open>server.go\<close>): how a
  batch of probe results becomes heartbeats, state transitions, alerts and live updates.
  \<open>apply_result\<close> is the state machine of one monitor, \<open>ingest_results\<close> the whole handler with
  its error exits; what is sent to the outside (events, updates) and the telemetry counters
  are fields of the plane.
\<close>

section \<open>Suppression\<close>

type_synonym batch_states = "(ident \<times> monitor_state) list"

definition max_dependency_depth :: nat where
  "max_dependency_depth = 10"

text \<open>
  The walk up the parent chain: the batch's own states first, the stored ones after. Any
  failed read ends it in \<open>False\<close>: a dangling parent suppresses nothing.
\<close>

fun ancestor_walk :: "store \<Rightarrow> batch_states \<Rightarrow> nat \<Rightarrow> ident option \<Rightarrow> bool" where
  "ancestor_walk s batch _ None = False"
| "ancestor_walk s batch 0 (Some p) = False"
| "ancestor_walk s batch (Suc n) (Some p) =
     (case (case map_of batch p of Some st \<Rightarrow> Inr st | None \<Rightarrow> get_state s p) of
        Inl _ \<Rightarrow> False
      | Inr st \<Rightarrow>
          if st_status st = MonitorStatusDown \<or> st_status st = MonitorStatusMaintenance then True
          else (case load_monitor s p of
                  Inl _ \<Rightarrow> False
                | Inr parent \<Rightarrow> ancestor_walk s batch n (m_parent parent)))"

definition ancestor_unavailable :: "store \<Rightarrow> monitor \<Rightarrow> batch_states \<Rightarrow> bool" where
  "ancestor_unavailable s m batch = ancestor_walk s batch max_dependency_depth (m_parent m)"

definition suppression_for :: "store \<Rightarrow> monitor \<Rightarrow> monitor_state \<Rightarrow> batch_states \<Rightarrow> suppression" where
  "suppression_for s m st batch =
     (if st_suppressed_by st = SuppressedByMaintenance then SuppressionMaintenance
      else if ancestor_unavailable s m batch then SuppressionDependency
      else SuppressionNone)"

section \<open>The state machine of one monitor\<close>

fun outcome_status :: "outcome \<Rightarrow> status option" where
  "outcome_status OUTCOME_UP = Some StatusUp"
| "outcome_status OUTCOME_DOWN = Some StatusDown"
| "outcome_status OUTCOME_UNKNOWN = Some StatusUnknown"
| "outcome_status OUTCOME_SKIPPED = Some StatusSkipped"
| "outcome_status _ = None"

definition should_resend :: "monitor \<Rightarrow> monitor_state \<Rightarrow> bool" where
  "should_resend m st =
     (if m_resend_after m \<le> 0 \<or> st_status st \<noteq> MonitorStatusDown then False
      else let since = st_failures st - (m_retries m + 1)
           in 0 < since \<and> go_mod since (m_resend_after m) = 0)"

text \<open>The last part of \<open>apply\<close>, on both of its paths: the fields every result refreshes.\<close>

definition touch :: "monitor \<Rightarrow> int \<Rightarrow> heartbeat \<Rightarrow> monitor_state \<Rightarrow> monitor_state" where
  "touch m t beat st =
     st \<lparr> st_last_check := Some t, st_next_check := Some (t + m_interval m),
          st_message := hb_message beat,
          st_response_ms := (case hb_response beat of
                               Some d \<Rightarrow> Some (response_ms d) | None \<Rightarrow> st_response_ms st) \<rparr>"

text \<open>The verdict a heartbeat leaves: the new status and the count of consecutive failures.\<close>

definition next_verdict :: "monitor \<Rightarrow> status \<Rightarrow> monitor_status \<Rightarrow> int \<Rightarrow> monitor_status \<times> int" where
  "next_verdict m beat_status current failures =
     (case beat_status of
        StatusUp \<Rightarrow> (MonitorStatusUp, 0)
      | StatusDown \<Rightarrow>
          (if m_retries m < failures + 1 then MonitorStatusDown else MonitorStatusPending,
           failures + 1)
      | _ \<Rightarrow> (current, failures))"

text \<open>The event of a transition from \<open>previous\<close> to \<open>current\<close>, or of a repeated one.\<close>

definition transition_event ::
  "monitor \<Rightarrow> monitor_status \<Rightarrow> monitor_state \<Rightarrow> event_type option" where
  "transition_event m previous st =
     (if st_status st \<noteq> previous then
        (case st_status st of
           MonitorStatusDown \<Rightarrow> Some EventMonitorDown
         | MonitorStatusUp \<Rightarrow>
             if previous = MonitorStatusDown \<and> m_notify_on_recovery m then Some EventMonitorUp
             else None
         | MonitorStatusPending \<Rightarrow> Some EventMonitorPending
         | _ \<Rightarrow> None)
      else if should_resend m st then Some EventMonitorDown
      else None)"

definition new_beat :: "monitor_state \<Rightarrow> result \<Rightarrow> ident \<Rightarrow> suppression \<Rightarrow> status \<Rightarrow> heartbeat" where
  "new_beat st r probe supp outcome =
     \<lparr> hb_time = from_micros (res_micros r), hb_monitor = st_monitor st, hb_org = st_org st,
       hb_probe = probe, hb_status = outcome,
       hb_response = (if 0 < res_ms r then Some (float_to_int (float_mul (res_ms r) 1000000))
                      else None),
       hb_code = res_code r, hb_message = res_message r, hb_attempt = res_attempt r,
       hb_important = False, hb_suppressed = (supp \<noteq> SuppressionNone), hb_reason = supp \<rparr>"

definition apply_result ::
  "monitor \<Rightarrow> monitor_state \<Rightarrow> result \<Rightarrow> ident \<Rightarrow> suppression \<Rightarrow>
     outcome + heartbeat \<times> alert \<times> monitor_state" where
  "apply_result m st r probe supp =
     (case outcome_status (res_outcome r) of
        None \<Rightarrow> Inl (res_outcome r)
      | Some outcome \<Rightarrow>
          let t = from_micros (res_micros r);
              beat = new_beat st r probe supp outcome
          in if supp = SuppressionMaintenance then
               Inr (beat \<lparr> hb_status := StatusMaintenance \<rparr>, no_alert,
                    touch m t beat (st \<lparr> st_status := MonitorStatusMaintenance \<rparr>))
             else
               let previous = st_status st;
                   (verdict, failures) = next_verdict m outcome previous (st_failures st);
                   st1 = st \<lparr> st_suppressed_by := (if supp = SuppressionDependency
                                                   then SuppressedByDependency else Unsuppressed),
                              st_status := verdict, st_failures := failures \<rparr>;
                   changed = (verdict \<noteq> previous);
                   st2 = (if changed then st1 \<lparr> st_last_change := Some t \<rparr> else st1);
                   event = transition_event m previous st2
               in Inr (beat \<lparr> hb_important := changed \<rparr>,
                       \<lparr> al_fire = (event \<noteq> None \<and> supp = SuppressionNone),
                         al_event = event, al_previous = Some previous \<rparr>,
                       touch m t beat st2))"

section \<open>The handler\<close>

datatype ingest_error =
  Err_load_monitor ident | Err_load_state ident | Err_unhandled_outcome outcome
| Err_write_heartbeats | Err_save_state ident

record ack =
  ack_through :: bytes
  ack_accepted :: nat
  ack_rejected :: nat

record event =
  ev_type :: "event_type option"
  ev_monitor :: ident
  ev_previous :: "monitor_status option"
  ev_beat :: heartbeat
  ev_status :: monitor_status
  ev_at :: int

datatype live_status = Of_state monitor_status | Of_beat status

record live_update =
  up_monitor :: ident
  up_status :: live_status
  up_at :: int
  up_response_ms :: "rat option"
  up_important :: bool
  up_message :: string
  up_version :: int

record plane =
  pl_store :: store
  pl_probe :: ident
  pl_written :: nat
  pl_ingested :: nat
  pl_rejected :: nat
  pl_events :: "event list"
  pl_updates :: "live_update list"

record ingest_acc =
  acc_beats :: "heartbeat list"
  acc_pending :: "pending_alert list"
  acc_observed :: "observed list"
  acc_rejected :: nat
  acc_states :: batch_states
  acc_monitors :: "(ident \<times> monitor) list"

definition empty_acc :: ingest_acc where
  "empty_acc = \<lparr> acc_beats = [], acc_pending = [], acc_observed = [], acc_rejected = 0,
                 acc_states = [], acc_monitors = [] \<rparr>"

definition reject :: "ingest_acc \<Rightarrow> ingest_acc" where
  "reject acc = acc \<lparr> acc_rejected := acc_rejected acc + 1 \<rparr>"

text \<open>The state of a monitor: the batch's copy, or the stored one on first touch.\<close>

definition batch_state :: "store \<Rightarrow> ingest_acc \<Rightarrow> ident \<Rightarrow> store_error + monitor_state" where
  "batch_state s acc i =
     (case map_of (acc_states acc) i of Some st \<Rightarrow> Inr st | None \<Rightarrow> get_state s i)"

definition batch_monitor :: "store \<Rightarrow> ingest_acc \<Rightarrow> ident \<Rightarrow> store_error + monitor" where
  "batch_monitor s acc i =
     (case map_of (acc_monitors acc) i of Some m \<Rightarrow> Inr m | None \<Rightarrow> load_monitor s i)"

text \<open>Replacing or appending: \<open>states[id] = state\<close>, in the order of first touch.\<close>

fun assoc_put :: "'k \<Rightarrow> 'v \<Rightarrow> ('k \<times> 'v) list \<Rightarrow> ('k \<times> 'v) list" where
  "assoc_put k v [] = [(k, v)]"
| "assoc_put k v ((k', v') # kvs) =
     (if k = k' then (k, v) # kvs else (k', v') # assoc_put k v kvs)"

definition ingest_one ::
  "store \<Rightarrow> ident \<Rightarrow> ingest_acc \<Rightarrow> result \<Rightarrow> ingest_error + ingest_acc" where
  "ingest_one s probe acc r =
     (if res_outcome r = OUTCOME_UNSPECIFIED then Inr (reject acc) else
      let i = copy_id (res_monitor r) in
      case batch_monitor s acc i of
        Inl ErrNotFound \<Rightarrow> Inr (reject acc)
      | Inl ErrDatabase \<Rightarrow> Inl (Err_load_monitor i)
      | Inr m \<Rightarrow>
          (case batch_state s acc i of
             Inl _ \<Rightarrow> Inl (Err_load_state i)
           | Inr st \<Rightarrow>
               (case apply_result m st r probe
                       (suppression_for s m st (assoc_put i st (acc_states acc))) of
                  Inl bad \<Rightarrow> Inl (Err_unhandled_outcome bad)
                | Inr (beat, raised, st') \<Rightarrow>
                    Inr (acc \<lparr> acc_monitors := assoc_put i m (acc_monitors acc),
                               acc_states := assoc_put i st' (acc_states acc),
                               acc_beats := acc_beats acc @ [beat],
                               acc_observed := acc_observed acc @
                                 (if res_cert r \<noteq> None \<or> res_domain r \<noteq> None
                                  then [\<lparr> ob_monitor = m, ob_beat = beat,
                                          ob_status = st_status st', ob_result = r \<rparr>]
                                  else []),
                               acc_pending := acc_pending acc @
                                 (if al_fire raised
                                  then [\<lparr> pa_monitor = m, pa_beat = beat, pa_alert = raised,
                                          pa_status = None \<rparr>]
                                  else []) \<rparr>))))"

fun ingest_loop ::
  "store \<Rightarrow> ident \<Rightarrow> ingest_acc \<Rightarrow> result list \<Rightarrow> ingest_error + ingest_acc" where
  "ingest_loop s probe acc [] = Inr acc"
| "ingest_loop s probe acc (r # rs) =
     (case ingest_one s probe acc r of
        Inl e \<Rightarrow> Inl e | Inr acc' \<Rightarrow> ingest_loop s probe acc' rs)"

fun status_for :: "event_type option \<Rightarrow> monitor_status" where
  "status_for (Some EventMonitorUp) = MonitorStatusUp"
| "status_for (Some EventMonitorDown) = MonitorStatusDown"
| "status_for _ = MonitorStatusPending"

definition event_of :: "pending_alert \<Rightarrow> event" where
  "event_of p =
     \<lparr> ev_type = al_event (pa_alert p), ev_monitor = m_id (pa_monitor p),
       ev_previous = al_previous (pa_alert p), ev_beat = pa_beat p,
       ev_status = (case pa_status p of Some st \<Rightarrow> st | None \<Rightarrow> status_for (al_event (pa_alert p))),
       ev_at = hb_time (pa_beat p) \<rparr>"

definition raise_all :: "pending_alert list \<Rightarrow> event list" where
  "raise_all pending = map event_of pending"

definition update_of :: "batch_states \<Rightarrow> heartbeat \<Rightarrow> live_update" where
  "update_of states b =
     \<lparr> up_monitor = hb_monitor b,
       up_status = (case map_of states (hb_monitor b) of
                      Some st \<Rightarrow> Of_state (st_status st) | None \<Rightarrow> Of_beat (hb_status b)),
       up_at = hb_time b,
       up_response_ms = map_option response_ms (hb_response b),
       up_important = hb_important b,
       up_message = hb_message b,
       up_version = (case map_of states (hb_monitor b) of
                       Some st \<Rightarrow> st_version st | None \<Rightarrow> 0) \<rparr>"

definition broadcast :: "batch_states \<Rightarrow> heartbeat list \<Rightarrow> live_update list" where
  "broadcast states beats = map (update_of states) beats"

definition ingest_results ::
  "plane \<Rightarrow> result list \<Rightarrow> (ingest_error + ack \<times> heartbeat list) \<times> plane" where
  "ingest_results p results =
     (if results = [] then
        (Inr (\<lparr> ack_through = [], ack_accepted = 0, ack_rejected = 0 \<rparr>, []), p)
      else
        case ingest_loop (pl_store p) (pl_probe p) empty_acc (sort_key res_micros results) of
          Inl e \<Rightarrow> (Inl e, p)
        | Inr acc \<Rightarrow>
            (case store_write_batch (pl_store p) (acc_beats acc) of
               Inl _ \<Rightarrow> (Inl Err_write_heartbeats, p)
             | Inr (s1, written) \<Rightarrow>
                 let p1 = p \<lparr> pl_store := s1,
                              pl_written := pl_written p + written,
                              pl_ingested := pl_ingested p + length (acc_beats acc),
                              pl_rejected := pl_rejected p + acc_rejected acc \<rparr>
                 in case save_all save_state st_monitor s1 (map snd (acc_states acc)) of
                      Inl (i, s2) \<Rightarrow> (Inl (Err_save_state i), p1 \<lparr> pl_store := s2 \<rparr>)
                    | Inr s2 \<Rightarrow>
                        let (s3, expiries) = record_observed s2 (acc_observed acc)
                        in (Inr (\<lparr> ack_through = res_id (last results),
                                   ack_accepted = length (acc_beats acc),
                                   ack_rejected = acc_rejected acc \<rparr>, acc_beats acc),
                            p1 \<lparr> pl_store := s3,
                                 pl_events := pl_events p @ raise_all (acc_pending acc @ expiries),
                                 pl_updates := pl_updates p @
                                   broadcast (acc_states acc) (acc_beats acc) \<rparr>)))"

definition ingest ::
  "plane \<Rightarrow> result list \<Rightarrow> (ingest_error + ack) \<times> plane" where
  "ingest p results =
     (case ingest_results p results of
        (Inl e, p') \<Rightarrow> (Inl e, p') | (Inr (a, _), p') \<Rightarrow> (Inr a, p'))"

end
