(* ===== verification/IngestFacts.thy ===== *)
theory IngestFacts
  imports Ingest
begin

text \<open>
  What the state machine of one monitor does with a sequence of results: its verdict is a
  function of the outcomes seen (the number of failures since the last success), a verdict
  raises at most the events its transitions call for, and suppression withholds the events
  without touching the verdict.
\<close>

section \<open>Runs of results\<close>

text \<open>A monitor's results in the order they are applied, each with the suppression it met.\<close>

fun apply_all ::
  "monitor \<Rightarrow> ident \<Rightarrow> monitor_state \<Rightarrow> (result \<times> suppression) list \<Rightarrow>
     outcome + (heartbeat \<times> alert) list \<times> monitor_state" where
  "apply_all m probe st [] = Inr ([], st)"
| "apply_all m probe st ((r, supp) # rs) =
     (case apply_result m st r probe supp of
        Inl e \<Rightarrow> Inl e
      | Inr (b, a, st1) \<Rightarrow>
          (case apply_all m probe st1 rs of
             Inl e \<Rightarrow> Inl e | Inr (out, st2) \<Rightarrow> Inr ((b, a) # out, st2)))"

lemma apply_all_Cons:
  "apply_all m probe st ((r, supp) # rs) = Inr (out, st2) \<longleftrightarrow>
     (\<exists>b a st1 out1. apply_result m st r probe supp = Inr (b, a, st1) \<and>
        apply_all m probe st1 rs = Inr (out1, st2) \<and> out = (b, a) # out1)"
  by (auto split: sum.splits prod.splits)

declare apply_all.simps(2) [simp del] apply_all_Cons [simp]

lemma touch_simps [simp]:
  "st_status (touch m t b st) = st_status st" "st_failures (touch m t b st) = st_failures st"
  "st_suppressed_by (touch m t b st) = st_suppressed_by st"
  "st_last_change (touch m t b st) = st_last_change st"
  "st_version (touch m t b st) = st_version st" "st_monitor (touch m t b st) = st_monitor st"
  "st_org (touch m t b st) = st_org st"
  by (simp_all add: touch_def)

text \<open>One step on the path that is not maintenance, and on the one that is.\<close>

definition judged_state :: "monitor_state \<Rightarrow> suppression \<Rightarrow> int \<Rightarrow> monitor_status \<Rightarrow> int \<Rightarrow> monitor_state" where
  "judged_state st supp t verdict failures =
     (let st1 = st \<lparr> st_suppressed_by := (if supp = SuppressionDependency
                                          then SuppressedByDependency else Unsuppressed),
                     st_status := verdict, st_failures := failures \<rparr>
      in if verdict \<noteq> st_status st then st1 \<lparr> st_last_change := Some t \<rparr> else st1)"

lemma judged_state_simps [simp]:
  "st_status (judged_state st supp t v f) = v" "st_failures (judged_state st supp t v f) = f"
  "st_version (judged_state st supp t v f) = st_version st"
  "st_monitor (judged_state st supp t v f) = st_monitor st"
  "st_org (judged_state st supp t v f) = st_org st"
  "st_suppressed_by (judged_state st supp t v f) =
     (if supp = SuppressionDependency then SuppressedByDependency else Unsuppressed)"
  by (simp_all add: judged_state_def Let_def)

lemma apply_result_judged:
  assumes "supp \<noteq> SuppressionMaintenance" "outcome_status (res_outcome r) = Some oc"
    "next_verdict m oc (st_status st) (st_failures st) = (verdict, failures)"
  shows "apply_result m st r probe supp =
    Inr ((new_beat st r probe supp oc) \<lparr> hb_important := (verdict \<noteq> st_status st) \<rparr>,
         \<lparr> al_fire = (transition_event m (st_status st)
                        (judged_state st supp (from_micros (res_micros r)) verdict failures) \<noteq> None
                      \<and> supp = SuppressionNone),
           al_event = transition_event m (st_status st)
                        (judged_state st supp (from_micros (res_micros r)) verdict failures),
           al_previous = Some (st_status st) \<rparr>,
         touch m (from_micros (res_micros r)) (new_beat st r probe supp oc)
           (judged_state st supp (from_micros (res_micros r)) verdict failures))"
  using assms by (simp add: apply_result_def judged_state_def Let_def)

lemma apply_result_maintenance:
  assumes "outcome_status (res_outcome r) = Some oc"
  shows "apply_result m st r probe SuppressionMaintenance =
    Inr ((new_beat st r probe SuppressionMaintenance oc) \<lparr> hb_status := StatusMaintenance \<rparr>, no_alert,
         touch m (from_micros (res_micros r)) (new_beat st r probe SuppressionMaintenance oc)
           (st \<lparr> st_status := MonitorStatusMaintenance \<rparr>))"
  using assms by (simp add: apply_result_def Let_def)

lemma transition_event_cong:
  "st_status st = st_status st' \<Longrightarrow> st_failures st = st_failures st' \<Longrightarrow>
     transition_event m previous st = transition_event m previous st'"
  by (simp add: transition_event_def should_resend_def)

lemma apply_result_verdict:
  assumes "apply_result m st r probe supp = Inr (b, a, st')" "supp \<noteq> SuppressionMaintenance"
    "outcome_status (res_outcome r) = Some oc"
  shows "(st_status st', st_failures st') = next_verdict m oc (st_status st) (st_failures st)"
    and "hb_status b = oc"
    and "hb_important b = (st_status st' \<noteq> st_status st)"
    and "al_event a = transition_event m (st_status st) st'"
    and "al_fire a = (al_event a \<noteq> None \<and> supp = SuppressionNone)"
    and "al_previous a = Some (st_status st)"
proof -
  obtain v f where vf: "next_verdict m oc (st_status st) (st_failures st) = (v, f)" by fastforce
  note eq = assms(1)[unfolded apply_result_judged[OF assms(2,3) vf]]
  from eq vf show "(st_status st', st_failures st') = next_verdict m oc (st_status st) (st_failures st)"
    by (auto simp del: not_None_eq)
  from eq show "hb_status b = oc" "hb_important b = (st_status st' \<noteq> st_status st)"
    "al_fire a = (al_event a \<noteq> None \<and> supp = SuppressionNone)" "al_previous a = Some (st_status st)"
    by (auto simp: new_beat_def simp del: not_None_eq)
  from eq show "al_event a = transition_event m (st_status st) st'"
    by (auto simp del: not_None_eq intro!: transition_event_cong)
qed

lemma apply_result_Inr:
  "apply_result m st r probe supp = Inr x \<Longrightarrow> \<exists>oc. outcome_status (res_outcome r) = Some oc"
  by (auto simp: apply_result_def split: option.splits)

lemma outcome_status_cases:
  "outcome_status oc = Some v \<Longrightarrow>
     v = StatusUp \<or> v = StatusDown \<or> v = StatusUnknown \<or> v = StatusSkipped"
  by (cases oc) auto

section \<open>The verdict as a function of the history\<close>

text \<open>
  The reference: of the outcomes seen only the ups and downs count; the count of failures is
  the length of the run of downs at the end, on top of the old count if nothing ended it.
\<close>

definition judged :: "(result \<times> suppression) list \<Rightarrow> status list" where
  "judged rs = filter counts_toward_uptime (List.map_filter (\<lambda>(r, _). outcome_status (res_outcome r)) rs)"

definition trailing_failures :: "int \<Rightarrow> status list \<Rightarrow> int" where
  "trailing_failures before vs =
     (if StatusUp \<in> set vs then int (length (takeWhile (\<lambda>v. v \<noteq> StatusUp) (rev vs)))
      else before + int (length vs))"

definition history_status :: "monitor \<Rightarrow> monitor_status \<Rightarrow> int \<Rightarrow> status list \<Rightarrow> monitor_status" where
  "history_status m before failures vs =
     (if vs = [] then before
      else if last vs = StatusUp then MonitorStatusUp
      else if m_retries m < failures then MonitorStatusDown
      else MonitorStatusPending)"

lemma trailing_failures_step:
  "trailing_failures (snd (next_verdict m v s f)) vs =
     trailing_failures f (if counts_toward_uptime v then v # vs else vs)"
proof (cases v)
  case StatusUp
  then show ?thesis
    by (auto simp: next_verdict_def trailing_failures_def counts_toward_uptime_def takeWhile_append)
next
  case StatusDown
  then show ?thesis
    by (auto simp: next_verdict_def trailing_failures_def counts_toward_uptime_def takeWhile_append)
qed (auto simp: next_verdict_def trailing_failures_def counts_toward_uptime_def)

lemma judged_Cons:
  "outcome_status (res_outcome r) = Some oc \<Longrightarrow>
     judged ((r, supp) # rs) = (if counts_toward_uptime oc then oc # judged rs else judged rs)"
  by (simp add: judged_def List.map_filter_simps)

lemma judged_updown: "v \<in> set (judged rs) \<Longrightarrow> v = StatusUp \<or> v = StatusDown"
  by (simp add: judged_def counts_toward_uptime_def)

lemma trailing_failures_last_up:
  "trailing_failures f (vs @ [StatusUp]) = 0"
  by (simp add: trailing_failures_def)

text \<open>C1: The state machine is a function of what was observed: after any sequence of results
  outside maintenance, the count of consecutive failures is the number of failed checks since
  the last successful one, and the status is up after a success, down once that number exceeds
  the retries, pending below it, and unmoved if no check reached the target. Unknown and
  skipped results change neither.\<close>

theorem verdict_is_history:
  assumes "apply_all m probe st rs = Inr (out, st')" "\<forall>(r, supp) \<in> set rs. supp \<noteq> SuppressionMaintenance"
  shows "st_failures st' = trailing_failures (st_failures st) (judged rs) \<and>
    st_status st' = history_status m (st_status st) (st_failures st') (judged rs)"
  using assms
proof (induction rs arbitrary: st out)
    case Nil
    then show ?case by (simp add: judged_def trailing_failures_def history_status_def List.map_filter_simps)
  next
    case (Cons x rs)
    obtain r supp where x: "x = (r, supp)" by fastforce
    from Cons.prems x obtain b a st1 out1
      where step: "apply_result m st r probe supp = Inr (b, a, st1)"
        and rest: "apply_all m probe st1 rs = Inr (out1, st')"
      by auto
    from apply_result_Inr[OF step] obtain oc where oc: "outcome_status (res_outcome r) = Some oc" ..
    have v: "(st_status st1, st_failures st1) = next_verdict m oc (st_status st) (st_failures st)"
      using apply_result_verdict(1)[OF step _ oc] Cons.prems(2) x by simp
    have IH: "st_failures st' = trailing_failures (st_failures st1) (judged rs)"
      "st_status st' = history_status m (st_status st1) (st_failures st') (judged rs)"
      using Cons.IH[OF rest] Cons.prems(2) by auto
    have f: "st_failures st' = trailing_failures (st_failures st) (judged (x # rs))"
      using IH(1) trailing_failures_step[of m oc "st_status st" "st_failures st" "judged rs"] x oc
      by (simp add: judged_Cons flip: v)
    moreover have "st_status st' = history_status m (st_status st) (st_failures st') (judged (x # rs))"
    proof (cases "judged rs = []")
      case False
      with IH(2) x oc show ?thesis by (simp add: judged_Cons history_status_def)
    next
      case True
      then have "st_failures st' = st_failures st1" using IH(1) by (simp add: trailing_failures_def)
      with True IH(2) v x oc outcome_status_cases[OF oc] show ?thesis
        by (auto simp: judged_Cons history_status_def next_verdict_def counts_toward_uptime_def)
    qed
    ultimately show ?case by blast
qed

section \<open>Events\<close>

definition events_of :: "(heartbeat \<times> alert) list \<Rightarrow> event_type list" where
  "events_of out = List.map_filter (\<lambda>(_, a). if al_fire a then al_event a else None) out"

lemma events_of_simps [simp]:
  "events_of [] = []"
  "events_of ((b, a) # out) = (if al_fire a then opt_list (al_event a) else []) @ events_of out"
  by (simp_all add: events_of_def List.map_filter_simps opt_list_def split: option.splits)

lemma events_of_append [simp]: "events_of (xs @ ys) = events_of xs @ events_of ys"
  by (induction xs) auto

text \<open>Suppression decides what is said, never what is known. A result met by an unavailable
  ancestor moves the monitor exactly as it would have, and only the page is withheld; a result
  inside a maintenance window is recorded as maintenance, leaves the failure count and the time
  of the last change alone, marks no transition and raises nothing.\<close>

theorem suppression_withholds_the_alert:
  assumes "apply_result m st r probe SuppressionNone = Inr (b, a, st1)"
  shows "(apply_result m st r probe SuppressionDependency =
      Inr (b \<lparr> hb_suppressed := True, hb_reason := SuppressionDependency \<rparr>, a \<lparr> al_fire := False \<rparr>,
      st1 \<lparr> st_suppressed_by := SuppressedByDependency \<rparr>)) \<and>
    (apply_result m st r probe SuppressionMaintenance =
      Inr (b \<lparr> hb_status := StatusMaintenance, hb_important := False, hb_suppressed := True,
      hb_reason := SuppressionMaintenance \<rparr>, no_alert,
      st \<lparr> st_status := MonitorStatusMaintenance, st_last_check := st_last_check st1,
      st_next_check := st_next_check st1, st_message := st_message st1,
      st_response_ms := st_response_ms st1 \<rparr>))"
proof (intro conjI)
  obtain oc where oc: "outcome_status (res_outcome r) = Some oc"
    using apply_result_Inr[OF assms] by blast
  obtain v f where vf: "next_verdict m oc (st_status st) (st_failures st) = (v, f)" by fastforce
  let ?t = "from_micros (res_micros r)"
  have none: "b = (new_beat st r probe SuppressionNone oc) \<lparr> hb_important := (v \<noteq> st_status st) \<rparr>"
    "a = \<lparr> al_fire = (transition_event m (st_status st) (judged_state st SuppressionNone ?t v f) \<noteq> None),
           al_event = transition_event m (st_status st) (judged_state st SuppressionNone ?t v f),
           al_previous = Some (st_status st) \<rparr>"
    "st1 = touch m ?t (new_beat st r probe SuppressionNone oc) (judged_state st SuppressionNone ?t v f)"
    using assms apply_result_judged[OF _ oc vf, of SuppressionNone probe] by simp_all
  have te: "transition_event m (st_status st) (judged_state st SuppressionDependency ?t v f) =
    transition_event m (st_status st) (judged_state st SuppressionNone ?t v f)"
    by (rule transition_event_cong) simp_all
  show "apply_result m st r probe SuppressionDependency =
      Inr (b \<lparr> hb_suppressed := True, hb_reason := SuppressionDependency \<rparr>, a \<lparr> al_fire := False \<rparr>,
           st1 \<lparr> st_suppressed_by := SuppressedByDependency \<rparr>)"
    unfolding none
    by (simp add: apply_result_judged[OF _ oc vf] te new_beat_def touch_def judged_state_def Let_def
        del: not_None_eq) (auto intro!: transition_event_cong)
  show "apply_result m st r probe SuppressionMaintenance =
      Inr (b \<lparr> hb_status := StatusMaintenance, hb_important := False, hb_suppressed := True,
               hb_reason := SuppressionMaintenance \<rparr>, no_alert,
           st \<lparr> st_status := MonitorStatusMaintenance, st_last_check := st_last_check st1,
                st_next_check := st_next_check st1, st_message := st_message st1,
                st_response_ms := st_response_ms st1 \<rparr>)"
    unfolding none
    by (simp add: apply_result_maintenance[OF oc] new_beat_def touch_def judged_state_def Let_def
        split: option.splits)
qed

text \<open>A verdict of down is backed by more failures than the retries allow.\<close>

definition verdict_backed :: "monitor \<Rightarrow> monitor_state \<Rightarrow> bool" where
  "verdict_backed m st = (st_status st = MonitorStatusDown \<longrightarrow> m_retries m < st_failures st)"

lemma apply_result_backed [keeps]:
  assumes "apply_result m st r probe supp = Inr (b, a, st')" "verdict_backed m st"
  shows "verdict_backed m st'"
proof -
  obtain oc where oc: "outcome_status (res_outcome r) = Some oc"
    using apply_result_Inr[OF assms(1)] by blast
  show ?thesis
  proof (cases "supp = SuppressionMaintenance")
    case True
    with assms(1) oc show ?thesis by (auto simp: apply_result_maintenance verdict_backed_def)
  next
    case False
    from apply_result_verdict(1)[OF assms(1) False oc] assms(2) outcome_status_cases[OF oc]
    show ?thesis by (auto simp: verdict_backed_def next_verdict_def split: if_splits)
  qed
qed

text \<open>The two kinds of notice about an outage, in turn.\<close>

fun alternating :: "event_type \<Rightarrow> event_type list \<Rightarrow> bool" where
  "alternating e [] = True"
| "alternating e (x # xs) =
     (x = e \<and> alternating (if e = EventMonitorDown then EventMonitorUp else EventMonitorDown) xs)"

definition outage_events :: "event_type list \<Rightarrow> event_type list" where
  "outage_events es = filter (\<lambda>e. e = EventMonitorDown \<or> e = EventMonitorUp) es"

lemma outage_step:
  assumes "apply_result m st r probe SuppressionNone = Inr (b, a, st')"
    "m_resend_after m \<le> 0" "m_notify_on_recovery m" "verdict_backed m st"
  shows "outage_events (if al_fire a then opt_list (al_event a) else []) =
    (if st_status st \<noteq> MonitorStatusDown \<and> st_status st' = MonitorStatusDown then [EventMonitorDown]
     else if st_status st = MonitorStatusDown \<and> st_status st' \<noteq> MonitorStatusDown then [EventMonitorUp]
     else [])"
proof -
  obtain oc where oc: "outcome_status (res_outcome r) = Some oc"
    using apply_result_Inr[OF assms(1)] by blast
  note v = apply_result_verdict[OF assms(1) _ oc, simplified]
  have resend: "\<not> should_resend m st'" using assms(2) by (simp add: should_resend_def)
  from v(1) assms(4) outcome_status_cases[OF oc] have
    "st_status st = MonitorStatusDown \<Longrightarrow>
       st_status st' = MonitorStatusDown \<or> st_status st' = MonitorStatusUp"
    by (auto simp: next_verdict_def verdict_backed_def split: if_splits)
  with v(4,5) resend assms(3) show ?thesis
    by (cases "st_status st'")
      (auto simp: transition_event_def outage_events_def opt_list_def split: option.splits)
qed

text \<open>C2: One outage, one page, one all-clear. For a monitor that announces recoveries and does
  not repeat itself, the down and up events of any sequence of unsuppressed results alternate,
  beginning with down unless the monitor was down already: there is no second page for an
  outage that is still open and no recovery of something that never went down.\<close>

theorem outages_open_and_close_in_turn:
  assumes "apply_all m probe st rs = Inr (out, st')" "\<forall>(r, supp) \<in> set rs. supp = SuppressionNone"
    "m_resend_after m \<le> 0" "m_notify_on_recovery m" "verdict_backed m st"
  shows "alternating (if st_status st = MonitorStatusDown then EventMonitorUp else EventMonitorDown)
           (outage_events (events_of out))"
  using assms(1,2,5)
proof (induction rs arbitrary: st out)
  case (Cons x rs)
  obtain r where x: "x = (r, SuppressionNone)" using Cons.prems(2) by (cases x) auto
  from Cons.prems(1) x obtain b a st1 out1
    where step: "apply_result m st r probe SuppressionNone = Inr (b, a, st1)"
      and rest: "apply_all m probe st1 rs = Inr (out1, st')" and out: "out = (b, a) # out1"
    by auto
  have IH: "alternating (if st_status st1 = MonitorStatusDown then EventMonitorUp else EventMonitorDown)
           (outage_events (events_of out1))"
    using Cons.IH[OF rest] Cons.prems(2) apply_result_backed[OF step Cons.prems(3)] by simp
  have split: "outage_events (events_of out) =
    outage_events (if al_fire a then opt_list (al_event a) else []) @ outage_events (events_of out1)"
    by (simp add: out outage_events_def)
  show ?case
    unfolding split outage_step[OF step assms(3,4) Cons.prems(3)] using IH by auto
qed (simp add: outage_events_def)

section \<open>How often an outage is announced\<close>

lemma apply_all_append:
  "apply_all m probe st (xs @ ys) = Inr (out, st2) \<longleftrightarrow>
     (\<exists>out1 st1 out2. apply_all m probe st xs = Inr (out1, st1) \<and>
        apply_all m probe st1 ys = Inr (out2, st2) \<and> out = out1 @ out2)"
proof (induction xs arbitrary: st out)
  case (Cons x xs)
  then show ?case by (cases x) (auto; metis append_Cons)
qed auto

definition down_notices :: "(heartbeat \<times> alert) list \<Rightarrow> int" where
  "down_notices out = int (length (filter (\<lambda>e. e = EventMonitorDown) (events_of out)))"

definition notices_due :: "monitor \<Rightarrow> int \<Rightarrow> int" where
  "notices_due m n =
     (if n \<le> m_retries m then 0
      else if m_resend_after m \<le> 0 then 1
      else 1 + (n - m_retries m - 1) div m_resend_after m)"

lemma notices_due_step:
  assumes "0 \<le> m_retries m" "m_retries m < n"
  shows "notices_due m (n + 1) = notices_due m n +
    (if 0 < m_resend_after m \<and> (n - m_retries m) mod m_resend_after m = 0 then 1 else 0)"
proof (cases "0 < m_resend_after m")
  case True
  have "n + 1 - m_retries m - 1 = n - m_retries m - 1 + 1" by simp
  then have "(n + 1 - m_retries m - 1) div m_resend_after m =
    (n - m_retries m - 1) div m_resend_after m +
      (if (n - m_retries m) mod m_resend_after m = 0 then 1 else 0)"
    using div_plus1[OF True, of "n - m_retries m - 1"] by simp
  with True assms show ?thesis by (simp add: notices_due_def)
next
  case False
  with assms show ?thesis by (simp add: notices_due_def)
qed

lemma down_step:
  assumes "apply_result m st r probe SuppressionNone = Inr (b, a, st')" "res_outcome r = OUTCOME_DOWN"
  shows "st_failures st' = st_failures st + 1"
    and "st_status st' = (if m_retries m < st_failures st + 1 then MonitorStatusDown else MonitorStatusPending)"
    and "down_notices [(b, a)] =
      (if m_retries m < st_failures st + 1 \<and>
          (st_status st \<noteq> MonitorStatusDown \<or>
           0 < m_resend_after m \<and> 0 < st_failures st - m_retries m \<and>
           (st_failures st - m_retries m) mod m_resend_after m = 0) then 1 else 0)"
proof -
  have oc: "outcome_status (res_outcome r) = Some StatusDown" using assms(2) by simp
  note v = apply_result_verdict[OF assms(1) _ oc, simplified]
  from v(1) show f: "st_failures st' = st_failures st + 1"
    and s: "st_status st' = (if m_retries m < st_failures st + 1 then MonitorStatusDown else MonitorStatusPending)"
    by (simp_all add: next_verdict_def)
  from v(4,5) f s show "down_notices [(b, a)] =
      (if m_retries m < st_failures st + 1 \<and>
          (st_status st \<noteq> MonitorStatusDown \<or>
           0 < m_resend_after m \<and> 0 < st_failures st - m_retries m \<and>
           (st_failures st - m_retries m) mod m_resend_after m = 0) then 1 else 0)"
    by (auto simp: down_notices_def transition_event_def should_resend_def opt_list_def
        go_mod_nonneg Let_def)
qed

lemma down_notices_append: "down_notices (xs @ ys) = down_notices xs + down_notices ys"
  by (simp add: down_notices_def)

text \<open>C5: An outage of \<open>n\<close> failed checks in a row is announced once when the failures exceed the
  retries, and again after every \<open>resend_after\<close> further failures, counted from the verdict and
  not from the first failure; never before, and never again when repeats are off.\<close>

theorem outage_notices:
  assumes "apply_all m probe st rs = Inr (out, st')"
    "\<forall>(r, supp) \<in> set rs. supp = SuppressionNone \<and> res_outcome r = OUTCOME_DOWN"
    "st_failures st = 0" "st_status st \<noteq> MonitorStatusDown" "0 \<le> m_retries m"
  shows "down_notices out = notices_due m (int (length rs))"
proof -
  have "down_notices out = notices_due m (int (length rs)) \<and> st_failures st' = int (length rs) \<and>
    (st_status st' = MonitorStatusDown \<longleftrightarrow> m_retries m < int (length rs))"
    using assms(1,2)
  proof (induction rs arbitrary: out st' rule: rev_induct)
    case Nil
    then show ?case using assms(3-5) by (simp add: down_notices_def notices_due_def)
  next
    case (snoc x rs)
    obtain r where x: "x = (r, SuppressionNone)" and r: "res_outcome r = OUTCOME_DOWN"
      using snoc.prems(2) by (cases x) auto
    from snoc.prems(1) x obtain out1 st1 b a
      where init: "apply_all m probe st rs = Inr (out1, st1)"
        and step: "apply_result m st1 r probe SuppressionNone = Inr (b, a, st')"
        and out: "out = out1 @ [(b, a)]"
      by (auto simp: apply_all_append)
    from snoc.IH[OF init] snoc.prems(2)
    have IH: "down_notices out1 = notices_due m (int (length rs))" "st_failures st1 = int (length rs)"
      "(st_status st1 = MonitorStatusDown) = (m_retries m < int (length rs))"
      by auto
    note d = down_step[OF step r, unfolded IH(2)]
    show ?case
    proof (cases "m_retries m < int (length rs)")
      case True
      then show ?thesis
        using d IH notices_due_step[OF assms(5) True] by (auto simp: out down_notices_append add.commute)
    next
      case False
      then show ?thesis
        using d IH assms(5) by (auto simp: out down_notices_append notices_due_def)
    qed
  qed
  then show ?thesis by blast
qed

end
