(* ===== verification/IngestHandler.thy ===== *)
theory IngestHandler
  imports IngestFacts "HOL-Library.Multiset"
begin

text \<open>
  What the ingest handler promises about a batch: what an acknowledgement means, what every
  error exit leaves behind, whose outage silences whom, and how the result path respects a
  window the maintenance sweep has opened. The last section holds the behaviours that
  contradict the documentation, each on a concrete batch.
\<close>

section \<open>Ancestors\<close>

definition known_state :: "store \<Rightarrow> batch_states \<Rightarrow> ident \<Rightarrow> store_error + monitor_state" where
  "known_state s batch p = (case map_of batch p of Some st \<Rightarrow> Inr st | None \<Rightarrow> get_state s p)"

definition known_unavailable :: "store \<Rightarrow> batch_states \<Rightarrow> ident \<Rightarrow> bool" where
  "known_unavailable s batch p =
     (case known_state s batch p of
        Inl _ \<Rightarrow> False
      | Inr st \<Rightarrow> st_status st = MonitorStatusDown \<or> st_status st = MonitorStatusMaintenance)"

text \<open>The chain of parents above a monitor, as far as the configuration can be read.\<close>

fun nth_ancestor :: "store \<Rightarrow> nat \<Rightarrow> ident option \<Rightarrow> ident option" where
  "nth_ancestor s _ None = None"
| "nth_ancestor s 0 (Some p) = Some p"
| "nth_ancestor s (Suc k) (Some p) =
     (case load_monitor s p of Inl _ \<Rightarrow> None | Inr m \<Rightarrow> nth_ancestor s k (m_parent m))"

lemma nth_ancestor_0 [simp]: "nth_ancestor s 0 p = p"
  by (cases p) simp_all

definition readable :: "store \<Rightarrow> batch_states \<Rightarrow> ident \<Rightarrow> bool" where
  "readable s batch p = (\<exists>st. known_state s batch p = Inr st)"

lemma ancestor_walk_spec:
  "ancestor_walk s batch n p \<longleftrightarrow>
     (\<exists>k < n. \<exists>q. nth_ancestor s k p = Some q \<and> known_unavailable s batch q \<and>
        (\<forall>j < k. \<forall>r. nth_ancestor s j p = Some r \<longrightarrow> readable s batch r))"
proof (induction s batch n p rule: ancestor_walk.induct)
  case (3 s batch n p)
  show ?case
  proof (cases "known_state s batch p")
    case (Inl e)
    then have "\<not> readable s batch p" "\<not> known_unavailable s batch p"
      by (simp_all add: readable_def known_unavailable_def)
    with Inl show ?thesis
      by (auto simp: known_state_def less_Suc_eq_0_disj split: option.splits)
  next
    case (Inr st)
    then have rd: "readable s batch p" by (simp add: readable_def)
    show ?thesis
    proof (cases "st_status st = MonitorStatusDown \<or> st_status st = MonitorStatusMaintenance")
      case True
      with Inr have "known_unavailable s batch p" by (simp add: known_unavailable_def)
      with Inr True show ?thesis
        by (auto simp: known_state_def split: option.splits intro!: exI[of _ 0])
    next
      case False
      with Inr have nu: "\<not> known_unavailable s batch p" by (simp add: known_unavailable_def)
      show ?thesis
      proof (cases "load_monitor s p")
        case (Inl e)
        then have "q = p" if "nth_ancestor s k (Some p) = Some q" for k q
          using that by (cases k) simp_all
        then have "\<not> (\<exists>k < Suc n. \<exists>q. nth_ancestor s k (Some p) = Some q \<and> known_unavailable s batch q)"
          using nu by blast
        moreover have "\<not> ancestor_walk s batch (Suc n) (Some p)"
          using Inl \<open>known_state s batch p = Inr st\<close> False
          by (simp add: known_state_def split: option.splits)
        ultimately show ?thesis by blast
      next
        case (Inr parent)
        have step: "nth_ancestor s (Suc k) (Some p) = nth_ancestor s k (m_parent parent)" for k
          using Inr by simp
        have "ancestor_walk s batch (Suc n) (Some p) = ancestor_walk s batch n (m_parent parent)"
          using Inr \<open>known_state s batch p = Inr st\<close> False
          by (simp add: known_state_def split: option.splits)
        also have "\<dots> = (\<exists>k < n. \<exists>q. nth_ancestor s k (m_parent parent) = Some q \<and> known_unavailable s batch q \<and>
            (\<forall>j < k. \<forall>r. nth_ancestor s j (m_parent parent) = Some r \<longrightarrow> readable s batch r))"
          using "3.IH" Inr \<open>known_state s batch p = Inr st\<close> False by (simp add: known_state_def)
        also have "\<dots> = (\<exists>k < n. \<exists>q. nth_ancestor s (Suc k) (Some p) = Some q \<and> known_unavailable s batch q \<and>
            (\<forall>j < Suc k. \<forall>r. nth_ancestor s j (Some p) = Some r \<longrightarrow> readable s batch r))"
          using rd by (auto simp: step All_less_Suc2 simp del: nth_ancestor.simps(3))
        also have "\<dots> = (\<exists>k < Suc n. \<exists>q. nth_ancestor s k (Some p) = Some q \<and> known_unavailable s batch q \<and>
            (\<forall>j < k. \<forall>r. nth_ancestor s j (Some p) = Some r \<longrightarrow> readable s batch r))"
          using nu by (auto simp: Ex_less_Suc2 simp del: nth_ancestor.simps(3))
        finally show ?thesis .
      qed
    qed
  qed
qed auto

text \<open>A result is silenced by a dependency exactly when one of the ten nearest ancestors is
  known to be down or under maintenance, by the batch's own states before the stored ones, and
  every ancestor nearer than it can be read; an ancestor that cannot be read ends the search,
  so a dangling parent silences nobody, and a cycle of parents ends the search too.\<close>

theorem dependency_is_an_ancestor:
  shows "ancestor_unavailable s m batch \<longleftrightarrow>
     (\<exists>k < 10. \<exists>q. nth_ancestor s k (m_parent m) = Some q \<and> known_unavailable s batch q \<and>
        (\<forall>j < k. \<forall>r. nth_ancestor s j (m_parent m) = Some r \<longrightarrow> readable s batch r))"
  by (simp add: ancestor_unavailable_def max_dependency_depth_def ancestor_walk_spec)

section \<open>The loop over a batch\<close>

lemma ingest_one_cases:
  assumes "ingest_one s probe acc r = Inr acc'"
  obtains (rejected) "acc' = reject acc"
      "res_outcome r = OUTCOME_UNSPECIFIED \<or> batch_monitor s acc (copy_id (res_monitor r)) = Inl ErrNotFound"
  | (taken) m st b a st'
    where "res_outcome r \<noteq> OUTCOME_UNSPECIFIED"
      "batch_monitor s acc (copy_id (res_monitor r)) = Inr m"
      "batch_state s acc (copy_id (res_monitor r)) = Inr st"
      "apply_result m st r probe
         (suppression_for s m st (assoc_put (copy_id (res_monitor r)) st (acc_states acc))) = Inr (b, a, st')"
      "acc_beats acc' = acc_beats acc @ [b]" "acc_rejected acc' = acc_rejected acc"
      "acc_states acc' = assoc_put (copy_id (res_monitor r)) st' (acc_states acc)"
      "acc_monitors acc' = assoc_put (copy_id (res_monitor r)) m (acc_monitors acc)"
proof (cases "res_outcome r = OUTCOME_UNSPECIFIED")
  case True
  with assms rejected show ?thesis by (simp add: ingest_one_def)
next
  case False
  let ?i = "copy_id (res_monitor r)"
  show ?thesis
  proof (cases "batch_monitor s acc ?i")
    case (Inl e)
    with assms False rejected show ?thesis by (cases e) (simp_all add: ingest_one_def Let_def)
  next
    case m: (Inr m)
    with assms False obtain st where st: "batch_state s acc ?i = Inr st"
      by (cases "batch_state s acc ?i") (simp_all add: ingest_one_def Let_def)
    with assms False m obtain b a st' where ap: "apply_result m st r probe
         (suppression_for s m st (assoc_put ?i st (acc_states acc))) = Inr (b, a, st')"
      by (cases "apply_result m st r probe (suppression_for s m st (assoc_put ?i st (acc_states acc)))")
        (auto simp: ingest_one_def Let_def)
    show ?thesis
      by (rule taken[OF False m st ap]) (use assms False m st ap in \<open>auto simp: ingest_one_def Let_def\<close>)
  qed
qed

lemma assoc_put_keys: "fst ` set (assoc_put k v kvs) = insert k (fst ` set kvs)"
  by (induction k v kvs rule: assoc_put.induct) auto

lemma assoc_put_distinct [keeps]:
  "distinct (map fst kvs) \<Longrightarrow> distinct (map fst (assoc_put k v kvs))"
proof (induction k v kvs rule: assoc_put.induct)
  case (2 k v k' v' kvs)
  then show ?case using assoc_put_keys[of k v kvs] by (auto simp: image_iff)
qed simp

lemma map_of_assoc_put [simp]: "map_of (assoc_put k v kvs) = (map_of kvs)(k \<mapsto> v)"
  by (induction k v kvs rule: assoc_put.induct) auto

text \<open>What one application leaves alone, and what it stamps on the heartbeat.\<close>

lemma apply_result_ident:
  assumes "apply_result m st r probe supp = Inr (b, a, st')"
  shows "st_monitor st' = st_monitor st" "st_org st' = st_org st" "st_version st' = st_version st"
    and "hb_monitor b = st_monitor st" "hb_org b = st_org st" "hb_probe b = probe"
    and "hb_time b = from_micros (res_micros r)"
proof -
  obtain oc where oc: "outcome_status (res_outcome r) = Some oc"
    using apply_result_Inr[OF assms] by blast
  obtain v f where vf: "next_verdict m oc (st_status st) (st_failures st) = (v, f)" by fastforce
  have "st_monitor st' = st_monitor st \<and> st_org st' = st_org st \<and> st_version st' = st_version st \<and>
    hb_monitor b = st_monitor st \<and> hb_org b = st_org st \<and> hb_probe b = probe \<and>
    hb_time b = from_micros (res_micros r)"
  proof (cases "supp = SuppressionMaintenance")
    case True
    with assms show ?thesis by (auto simp: apply_result_maintenance[OF oc] new_beat_def)
  next
    case False
    from assms[unfolded apply_result_judged[OF False oc vf]] show ?thesis
      by (auto simp: new_beat_def simp del: not_None_eq)
  qed
  then show "st_monitor st' = st_monitor st" "st_org st' = st_org st" "st_version st' = st_version st"
    and "hb_monitor b = st_monitor st" "hb_org b = st_org st" "hb_probe b = probe"
    and "hb_time b = from_micros (res_micros r)" by auto
qed

text \<open>Rows are keyed by the monitor they describe.\<close>

definition table_ok :: "store \<Rightarrow> bool" where
  "table_ok s = (\<forall>i st. s_states s i = Some st \<longrightarrow> st_monitor st = i)"

text \<open>The caches of the loop agree with the store they were filled from.\<close>

definition acc_sound :: "store \<Rightarrow> ident \<Rightarrow> ingest_acc \<Rightarrow> bool" where
  "acc_sound s probe acc =
     ((\<forall>i m. map_of (acc_monitors acc) i = Some m \<longrightarrow> load_monitor s i = Inr m) \<and>
      (\<forall>i st. map_of (acc_states acc) i = Some st \<longrightarrow>
         (\<exists>st0. get_state s i = Inr st0 \<and> st_monitor st = st_monitor st0 \<and> st_org st = st_org st0 \<and>
                st_version st = st_version st0)) \<and>
      distinct (map fst (acc_states acc)) \<and>
      (\<forall>b \<in> set (acc_beats acc). hb_probe b = probe \<and>
         (\<exists>i st0. i \<in> fst ` set (acc_states acc) \<and> get_state s i = Inr st0 \<and>
                hb_monitor b = st_monitor st0)))"

lemma acc_sound_empty: "acc_sound s probe empty_acc"
  by (simp add: acc_sound_def empty_acc_def)

lemma acc_sound_monitor:
  assumes "acc_sound s probe acc" shows "batch_monitor s acc i = load_monitor s i"
  using assms by (auto simp: acc_sound_def batch_monitor_def split: option.splits)

lemma acc_sound_state:
  assumes "acc_sound s probe acc" "batch_state s acc i = Inr st"
  shows "\<exists>st0. get_state s i = Inr st0 \<and> st_monitor st = st_monitor st0 \<and> st_org st = st_org st0 \<and>
    st_version st = st_version st0"
  using assms by (auto simp: acc_sound_def batch_state_def split: option.splits)

lemma ingest_one_sound:
  assumes "ingest_one s probe acc r = Inr acc'" "acc_sound s probe acc"
  shows "acc_sound s probe acc'"
  using assms(1)
proof (cases rule: ingest_one_cases)
  case rejected
  with assms(2) show ?thesis by (simp add: acc_sound_def reject_def)
next
  case (taken m st b a st')
  let ?i = "copy_id (res_monitor r)"
  obtain st0 where st0: "get_state s ?i = Inr st0" "st_monitor st = st_monitor st0"
      "st_org st = st_org st0" "st_version st = st_version st0"
    using acc_sound_state[OF assms(2) taken(3)] by blast
  note id = apply_result_ident[OF taken(4)]
  have "load_monitor s ?i = Inr m" using taken(2) acc_sound_monitor[OF assms(2)] by simp
  moreover have "\<exists>j st1. j \<in> fst ` set (acc_states acc') \<and> get_state s j = Inr st1 \<and>
      hb_monitor c = st_monitor st1" if "c \<in> set (acc_beats acc')" for c
  proof (cases "c = b")
    case True
    with st0 id taken show ?thesis by (auto simp: assoc_put_keys)
  next
    case False
    with that taken have "c \<in> set (acc_beats acc)" by simp
    with assms(2) obtain j st1 where "j \<in> fst ` set (acc_states acc)" "get_state s j = Inr st1"
        "hb_monitor c = st_monitor st1"
      unfolding acc_sound_def by blast
    then show ?thesis unfolding taken(7) assoc_put_keys by blast
  qed
  ultimately show ?thesis
    using assms(2) taken(5-8) st0 id
    by (auto simp: acc_sound_def assoc_put_distinct)
qed

lemma ingest_one_beats: "ingest_one s probe acc r = Inr acc' \<Longrightarrow> set (acc_beats acc) \<subseteq> set (acc_beats acc')"
  by (erule ingest_one_cases) (auto simp: reject_def)

lemma ingest_loop_beats: "ingest_loop s probe acc rs = Inr acc' \<Longrightarrow> set (acc_beats acc) \<subseteq> set (acc_beats acc')"
  by (induction rs arbitrary: acc) (auto split: sum.splits dest: ingest_one_beats)

lemma ingest_loop_sound:
  "ingest_loop s probe acc rs = Inr acc' \<Longrightarrow> acc_sound s probe acc \<Longrightarrow> acc_sound s probe acc'"
  by (induction rs arbitrary: acc) (auto split: sum.splits dest: ingest_one_sound)

lemma ingest_loop_steps:
  assumes "ingest_loop s probe acc rs = Inr acc'" "acc_sound s probe acc" "r \<in> set rs"
  shows "\<exists>acc1 acc2. acc_sound s probe acc1 \<and> ingest_one s probe acc1 r = Inr acc2 \<and>
    set (acc_beats acc2) \<subseteq> set (acc_beats acc')"
  using assms
proof (induction rs arbitrary: acc)
  case (Cons x rs)
  then obtain acc1 where one: "ingest_one s probe acc x = Inr acc1"
      and rest: "ingest_loop s probe acc1 rs = Inr acc'"
    by (auto split: sum.splits)
  show ?case
  proof (cases "r = x")
    case True
    with one rest Cons.prems(2) ingest_loop_beats[OF rest] show ?thesis by blast
  next
    case False
    with Cons.IH[OF rest ingest_one_sound[OF one Cons.prems(2)]] Cons.prems(3) show ?thesis by simp
  qed
qed simp

definition rejectable :: "store \<Rightarrow> result \<Rightarrow> bool" where
  "rejectable s r = (res_outcome r = OUTCOME_UNSPECIFIED \<or>
     load_monitor s (copy_id (res_monitor r)) = Inl ErrNotFound)"

lemma ingest_one_counts:
  assumes "ingest_one s probe acc r = Inr acc'" "acc_sound s probe acc"
  shows "acc_rejected acc' = acc_rejected acc + (if rejectable s r then 1 else 0)"
    and "length (acc_beats acc') = length (acc_beats acc) + (if rejectable s r then 0 else 1)"
proof -
  have "acc_rejected acc' = acc_rejected acc + (if rejectable s r then 1 else 0) \<and>
    length (acc_beats acc') = length (acc_beats acc) + (if rejectable s r then 0 else 1)"
    using assms(1) acc_sound_monitor[OF assms(2)]
    by (cases rule: ingest_one_cases) (auto simp: reject_def rejectable_def)
  then show "acc_rejected acc' = acc_rejected acc + (if rejectable s r then 1 else 0)"
    and "length (acc_beats acc') = length (acc_beats acc) + (if rejectable s r then 0 else 1)" by auto
qed

lemma ingest_loop_counts:
  assumes "ingest_loop s probe acc rs = Inr acc'" "acc_sound s probe acc"
  shows "acc_rejected acc' = acc_rejected acc + length (filter (rejectable s) rs)"
    and "length (acc_beats acc') + length (filter (rejectable s) rs) = length (acc_beats acc) + length rs"
  using assms
proof (induction rs arbitrary: acc)
  case (Cons r rs)
  { case 1 then show ?case
      using Cons.IH(1) by (fastforce split: sum.splits dest: ingest_one_sound simp: ingest_one_counts) }
  { case 2 then show ?case
      using Cons.IH(2) by (fastforce split: sum.splits dest: ingest_one_sound simp: ingest_one_counts) }
qed auto

section \<open>The handler\<close>

text \<open>A successful call, taken apart.\<close>

lemma ingest_results_Inr:
  assumes "ingest_results p results = (Inr (a, beats), p')" "results \<noteq> []"
  obtains acc s1 n s2 s3 expiries
  where "ingest_loop (pl_store p) (pl_probe p) empty_acc (sort_key res_micros results) = Inr acc"
    "store_write_batch (pl_store p) (acc_beats acc) = Inr (s1, n)"
    "save_all save_state st_monitor s1 (map snd (acc_states acc)) = Inr s2"
    "record_observed s2 (acc_observed acc) = (s3, expiries)"
    "beats = acc_beats acc"
    "a = \<lparr> ack_through = res_id (last results), ack_accepted = length (acc_beats acc),
           ack_rejected = acc_rejected acc \<rparr>"
    "pl_store p' = s3"
    "pl_events p' = pl_events p @ raise_all (acc_pending acc @ expiries)"
    "pl_updates p' = pl_updates p @ broadcast (acc_states acc) (acc_beats acc)"
  using assms unfolding ingest_results_def Let_def
  by (auto split: sum.splits prod.splits if_splits)

lemma save_all_rows:
  "save_all save_state err s sts = Inr s' \<Longrightarrow> s_rows s' = s_rows s"
  by (induction sts arbitrary: s) (auto simp: keeps split: sum.splits)

lemma record_certificate_keeps [keeps]:
  assumes "record_certificate s ob c = (s', a)"
  shows "s_rows s' = s_rows s" "s_states s' = s_states s"
  using assms
  by (auto simp: record_certificate_def keeps Let_def
      split: if_splits sum.splits store_error.splits option.splits)

lemma record_domain_keeps [keeps]:
  assumes "record_domain s ob d = (s', a)"
  shows "s_rows s' = s_rows s" "s_states s' = s_states s"
  using assms
  by (auto simp: record_domain_def keeps Let_def
      split: if_splits sum.splits store_error.splits option.splits)

lemma record_one_keeps [keeps]:
  assumes "record_one s ob = (s', alerts)"
  shows "s_rows s' = s_rows s" "s_states s' = s_states s"
  using assms
  by (auto simp: record_one_def keeps split: option.splits prod.splits)

lemma record_observed_keeps [keeps]:
  "record_observed s obs = (s', alerts) \<Longrightarrow> s_rows s' = s_rows s \<and> s_states s' = s_states s"
  by (induction obs arbitrary: s alerts) (auto simp: keeps split: prod.splits)

lemma micros_from_micros [simp]: "micros (from_micros us) = us"
  by (simp add: micros_def from_micros_def)

lemma length_filter_sort_key: "length (filter P (sort_key f xs)) = length (filter P xs)"
  by (metis mset_filter mset_sort size_mset)

text \<open>C21: An acknowledgement means what the probe takes it to mean: it names the last result sent;
  every result is either counted accepted or counted rejected, and the rejected ones are exactly
  those with no outcome or no monitor; every other result has a heartbeat in the table under its
  own time; nothing stored before is lost, and no key occurs twice.\<close>

theorem ack_means_durable:
  assumes "ingest_results p results = (Inr (a, beats), p')" "results \<noteq> []"
    "table_ok (pl_store p)" "unique_keys (s_rows (pl_store p))"
  shows "(ack_through a = res_id (last results)) \<and>
    (ack_accepted a + ack_rejected a = length results) \<and>
    (ack_rejected a = length (filter (rejectable (pl_store p)) results)) \<and>
    (\<forall>r \<in> set results. \<not> rejectable (pl_store p) r \<longrightarrow>
      (\<exists>org. (org, copy_id (res_monitor r), res_micros r, pl_probe p) \<in> row_keys (s_rows (pl_store p')))) \<and>
    (set (s_rows (pl_store p)) \<subseteq> set (s_rows (pl_store p'))) \<and>
    (unique_keys (s_rows (pl_store p')))"
proof (intro conjI)
  from assms(1,2) obtain acc s1 n s2 s3 expiries
    where loop: "ingest_loop (pl_store p) (pl_probe p) empty_acc (sort_key res_micros results) = Inr acc"
      and wb: "store_write_batch (pl_store p) (acc_beats acc) = Inr (s1, n)"
      and sv: "save_all save_state st_monitor s1 (map snd (acc_states acc)) = Inr s2"
      and rc: "record_observed s2 (acc_observed acc) = (s3, expiries)"
      and a: "a = \<lparr> ack_through = res_id (last results), ack_accepted = length (acc_beats acc),
                   ack_rejected = acc_rejected acc \<rparr>"
      and p': "pl_store p' = s3"
    by (rule ingest_results_Inr)
  have rows: "s_rows (pl_store p') = s_rows s1"
    using save_all_rows[OF sv] record_observed_keeps[OF rc] p' by simp
  note wr = store_write_batch_rows[OF wb]
  note snd0 = acc_sound_empty[of "pl_store p" "pl_probe p"]
  note cnt = ingest_loop_counts[OF loop snd0]
  show "ack_through a = res_id (last results)" using a by simp
  show "ack_rejected a = length (filter (rejectable (pl_store p)) results)"
    using a cnt(1) by (simp add: empty_acc_def length_filter_sort_key)
  then show "ack_accepted a + ack_rejected a = length results"
    using a cnt(2) by (simp add: empty_acc_def length_filter_sort_key)
  show "set (s_rows (pl_store p)) \<subseteq> set (s_rows (pl_store p'))"
    using write_batch_keeps_rows[of "s_rows (pl_store p)" "acc_beats acc"] wr rows by simp
  show "unique_keys (s_rows (pl_store p'))"
    using write_batch_unique[OF assms(4), of "acc_beats acc"] wr rows by simp
  have keys: "row_keys (s_rows (pl_store p')) =
      row_keys (s_rows (pl_store p)) \<union> beat_key ` set (acc_beats acc)"
    using beat_log.batch_keys[of "s_rows (pl_store p)" "acc_beats acc"] wr rows
    by (simp add: write_batch_def)
  show "\<forall>r \<in> set results. \<not> rejectable (pl_store p) r \<longrightarrow>
      (\<exists>org. (org, copy_id (res_monitor r), res_micros r, pl_probe p) \<in> row_keys (s_rows (pl_store p')))"
  proof (intro ballI impI)
    fix r assume r: "r \<in> set results" and nr: "\<not> rejectable (pl_store p) r"
    from r have "r \<in> set (sort_key res_micros results)" by simp
    from ingest_loop_steps[OF loop snd0 this] obtain acc1 acc2
      where ok: "acc_sound (pl_store p) (pl_probe p) acc1"
        and one: "ingest_one (pl_store p) (pl_probe p) acc1 r = Inr acc2"
        and sub: "set (acc_beats acc2) \<subseteq> set (acc_beats acc)"
      by blast
    from one show "\<exists>org. (org, copy_id (res_monitor r), res_micros r, pl_probe p) \<in> row_keys (s_rows (pl_store p'))"
    proof (cases rule: ingest_one_cases)
      case rejected
      with nr acc_sound_monitor[OF ok] show ?thesis by (simp add: rejectable_def)
    next
      case (taken m st b al st')
      obtain st0 where st0: "get_state (pl_store p) (copy_id (res_monitor r)) = Inr st0"
          "st_monitor st = st_monitor st0"
        using acc_sound_state[OF ok taken(3)] by blast
      then have "st_monitor st = copy_id (res_monitor r)"
        using assms(3) by (auto simp: get_state_def table_ok_def split: if_splits)
      then have "beat_key b = (st_org st, copy_id (res_monitor r), res_micros r, pl_probe p)"
        using apply_result_ident[OF taken(4)] by (simp add: beat_key_def)
      moreover have "b \<in> set (acc_beats acc)" using sub taken(5) by auto
      ultimately have "(st_org st, copy_id (res_monitor r), res_micros r, pl_probe p)
          \<in> row_keys (s_rows (pl_store p'))"
        unfolding keys by (metis UnI2 image_eqI)
      then show ?thesis by blast
    qed
  qed
qed

text \<open>C35: A batch that fails tells nobody anything: no event is published and no browser is
  updated, the heartbeats are written or not written as a whole, and unless it was the save of a
  monitor's state that failed, nothing at all has changed, so that sending the batch again is
  sending it for the first time.\<close>

theorem failed_batch_is_silent:
  assumes "ingest_results p results = (Inl e, p')"
  shows "(pl_events p' = pl_events p) \<and>
    (pl_updates p' = pl_updates p) \<and>
    ((\<exists>i. e = Err_save_state i) \<or> p' = p) \<and>
    (s_rows (pl_store p') = s_rows (pl_store p) \<or>
      (\<exists>acc. s_rows (pl_store p') = fst (write_batch (s_rows (pl_store p)) (acc_beats acc)) \<and>
      ingest_loop (pl_store p) (pl_probe p) empty_acc (sort_key res_micros results) = Inr acc))"
proof (intro conjI)
  have rows: "save_all save_state err s sts = Inl (e', s') \<Longrightarrow> s_rows s' = s_rows s" for err :: "monitor_state \<Rightarrow> ident" and s sts e' s'
    by (induction sts arbitrary: s) (auto simp: keeps split: sum.splits)
  show "pl_events p' = pl_events p" "pl_updates p' = pl_updates p" "(\<exists>i. e = Err_save_state i) \<or> p' = p"
    using assms by (auto simp: ingest_results_def Let_def split: if_splits sum.splits prod.splits)
  show "s_rows (pl_store p') = s_rows (pl_store p) \<or>
      (\<exists>acc. s_rows (pl_store p') = fst (write_batch (s_rows (pl_store p)) (acc_beats acc)) \<and>
         ingest_loop (pl_store p) (pl_probe p) empty_acc (sort_key res_micros results) = Inr acc)"
  proof (cases "ingest_loop (pl_store p) (pl_probe p) empty_acc (sort_key res_micros results)")
    case (Inl x)
    with assms show ?thesis by (auto simp: ingest_results_def split: if_splits)
  next
    case (Inr acc)
    show ?thesis
    proof (cases "store_write_batch (pl_store p) (acc_beats acc)")
      case (Inl x)
      with assms \<open>ingest_loop _ _ _ _ = Inr acc\<close> show ?thesis
        by (auto simp: ingest_results_def split: if_splits)
    next
      case (Inr w)
      then obtain s1 n where w: "store_write_batch (pl_store p) (acc_beats acc) = Inr (s1, n)"
        by (cases w) simp
      from assms \<open>ingest_loop _ _ _ _ = Inr acc\<close> w have "s_rows (pl_store p') = s_rows s1"
        by (auto simp: ingest_results_def Let_def rows split: if_splits sum.splits prod.splits)
      with store_write_batch_rows[OF w] \<open>ingest_loop _ _ _ _ = Inr acc\<close> show ?thesis by auto
    qed
  qed
qed

section \<open>The sweep's claim\<close>

text \<open>C3: Whatever states the result path computed, from however stale a reading, saving them never
  takes a monitor out of the maintenance its window put it in: a row the sweep has claimed keeps
  the claim and the status, and a row no save names is left exactly as it was.\<close>

theorem saves_respect_the_sweep:
  assumes "save_all save_state st_monitor s sts = Inr s'"
  shows "(s_states s i = Some r \<and> st_suppressed_by r = SuppressedByMaintenance \<and>
      st_status r = MonitorStatusMaintenance \<longrightarrow>
        (\<exists>r'. s_states s' i = Some r' \<and> st_suppressed_by r' = SuppressedByMaintenance \<and>
              st_status r' = MonitorStatusMaintenance)) \<and>
    (i \<notin> st_monitor ` set sts \<longrightarrow> s_states s' i = s_states s i)"
  using states.save_all_claim[OF assms] states.save_all_elsewhere[OF assms] by blast

section \<open>Where the code and its documentation part\<close>

text \<open>A small plane to run batches on: one monitor, one failed check tolerated.\<close>

definition demo_id :: ident where "demo_id = replicate 16 1"

definition demo_monitor :: monitor where
  "demo_monitor =
     \<lparr> m_id = demo_id, m_org = demo_id, m_type = ''http'', m_config = '''', m_target = '''',
       m_enabled = True, m_interval = minute, m_retries = 1, m_resend_after = 0,
       m_notify_on_recovery = True, m_parent = None, m_created_at = 0 \<rparr>"

definition demo_state :: monitor_state where
  "demo_state =
     \<lparr> st_monitor = demo_id, st_org = demo_id, st_status = MonitorStatusUp, st_last_check = None,
       st_next_check = None, st_last_change = None, st_failures = 0, st_response_ms = None,
       st_message = '''', st_suppressed_by = Unsuppressed, st_version = 7 \<rparr>"

definition demo_store :: "monitor \<Rightarrow> monitor_state \<Rightarrow> store" where
  "demo_store m st =
     \<lparr> s_monitors = [(demo_id, m)], s_states = [demo_id \<mapsto> st], s_rows = [],
       s_certs = Map.empty, s_domains = Map.empty, s_faults = {} \<rparr>"

definition demo_plane :: "monitor \<Rightarrow> monitor_state \<Rightarrow> plane" where
  "demo_plane m st =
     \<lparr> pl_store = demo_store m st, pl_probe = demo_id, pl_written = 0, pl_ingested = 0,
       pl_rejected = 0, pl_events = [], pl_updates = [] \<rparr>"

definition demo_result :: "outcome \<Rightarrow> result" where
  "demo_result oc =
     \<lparr> res_id = [1], res_monitor = demo_id, res_micros = 5000000, res_outcome = oc, res_ms = 0,
       res_code = '''', res_message = ''refused'', res_attempt = 1, res_cert = None,
       res_domain = None \<rparr>"

lemma demo_copy_id [simp]: "copy_id demo_id = demo_id"
  by (rule copy_id_same) (simp add: demo_id_def)

lemmas demo_defs = demo_monitor_def demo_state_def demo_store_def demo_plane_def demo_result_def

lemmas ingest_eval = ingest_results_def ingest_one_def empty_acc_def reject_def batch_monitor_def
  batch_state_def load_monitor_def get_state_def suppression_for_def ancestor_unavailable_def
  apply_result_def new_beat_def touch_def next_verdict_def transition_event_def should_resend_def
  no_alert_def store_write_batch_def write_batch_def insert_beat_def row_of_def row_key_def
  micros_def from_micros_def null_string_def null_reason_def save_state_def merge_state_def
  to_millis_def raise_all_def event_of_def broadcast_def update_of_def minute_def Let_def

text \<open>
  A result with an outcome number this build has no name for fails the whole batch, every time
  it is sent.
\<close>

lemma loop_stops_at_other:
  assumes "r \<in> set rs" "res_outcome r = OUTCOME_OTHER n"
    "load_monitor s (copy_id (res_monitor r)) = Inr m"
  shows "\<exists>e. ingest_loop s probe empty_acc rs = Inl e"
proof (cases "ingest_loop s probe empty_acc rs")
  case (Inr acc)
  from ingest_loop_steps[OF Inr acc_sound_empty assms(1)] obtain acc1 acc2
    where ok: "acc_sound s probe acc1" and one: "ingest_one s probe acc1 r = Inr acc2" by blast
  from one have False
  proof (cases rule: ingest_one_cases)
    case rejected
    with assms acc_sound_monitor[OF ok] show ?thesis by simp
  next
    case (taken m' st b a st')
    from apply_result_Inr[OF taken(4)] assms(2) show ?thesis by simp
  qed
  then show ?thesis ..
qed simp

text \<open>One result whose outcome this build does not know, for a monitor that exists, fails every
  batch that carries it and leaves the plane as it was; the probe keeps an unacknowledged batch
  and sends it again, so nothing behind that result is ever recorded.\<close>

theorem unknown_outcome_blocks_the_stream:
  assumes "r \<in> set results" "res_outcome r = OUTCOME_OTHER n"
    "load_monitor (pl_store p) (copy_id (res_monitor r)) = Inr m"
  shows "\<exists>e. ingest_results p results = (Inl e, p)"
proof -
  have "r \<in> set (sort_key res_micros results)" using assms(1) by simp
  from loop_stops_at_other[OF this assms(2,3), of "pl_probe p"] assms(1)
  show ?thesis by (auto simp: ingest_results_def)
qed

theorem unknown_outcome_blocks_the_stream_witness:
  "\<exists>e. ingest_results (demo_plane demo_monitor demo_state)
         [demo_result OUTCOME_DOWN, demo_result (OUTCOME_OTHER 5)] =
       (Inl e, demo_plane demo_monitor demo_state)"
  by (rule unknown_outcome_blocks_the_stream[of "demo_result (OUTCOME_OTHER 5)" _ 5 _ demo_monitor])
    (simp_all add: demo_defs load_monitor_def)

text \<open>The heartbeat table ignores a batch sent twice, but the state machine does not: a monitor
  that tolerates one failure is reported down, with a page, after a single failed check whose
  acknowledgement was lost.\<close>

theorem redelivery_counts_twice:
  "(let (_, p1) = ingest_results (demo_plane demo_monitor demo_state) [demo_result OUTCOME_DOWN];
        (_, p2) = ingest_results p1 [demo_result OUTCOME_DOWN]
    in length (s_rows (pl_store p2)) = 1 \<and> s_rows (pl_store p2) = s_rows (pl_store p1) \<and>
       map ev_type (pl_events p1) = [Some EventMonitorPending] \<and>
       map ev_type (pl_events p2) = [Some EventMonitorPending, Some EventMonitorDown] \<and>
       map_option st_failures (s_states (pl_store p2) demo_id) = Some 2)"
  by (simp add: demo_defs ingest_eval)

text \<open>A result in flight when its monitor is paused still moves it: the paused monitor leaves
  the status \<open>paused\<close>, and with no failures tolerated it pages.\<close>

theorem paused_monitor_still_pages:
  "(let (_, p1) = ingest_results
          (demo_plane (demo_monitor \<lparr> m_enabled := False, m_retries := 0 \<rparr>)
             (demo_state \<lparr> st_status := MonitorStatusPaused \<rparr>)) [demo_result OUTCOME_DOWN]
    in map_option st_status (s_states (pl_store p1) demo_id) = Some MonitorStatusDown \<and>
       map ev_type (pl_events p1) = [Some EventMonitorDown])"
  by (simp add: demo_defs ingest_eval)

lemma save_all_merges:
  assumes "save_all save_state err s sts = Inr s'" "distinct (map st_monitor sts)" "st \<in> set sts"
    "s_states s (st_monitor st) = Some old"
  shows "s_states s' (st_monitor st) = Some (merge_state old st)"
  using assms
proof (induction sts arbitrary: s)
  case (Cons x sts)
  from Cons.prems(1) obtain s1 where s1: "save_state s x = Inr s1" "save_all save_state err s1 sts = Inr s'"
    by (auto split: sum.splits)
  show ?case
  proof (cases "x = st")
    case True
    then have "s_states s' (st_monitor st) = s_states s1 (st_monitor st)"
      using states.save_all_elsewhere[OF s1(2)] Cons.prems(2) by simp
    with s1(1) True Cons.prems(4) show ?thesis by (auto simp: save_state_def split: if_splits)
  next
    case False
    then have st: "st \<in> set sts" and ne: "st_monitor st \<noteq> st_monitor x"
      using Cons.prems(2,3) by (auto simp: image_iff)
    have "s_states s1 (st_monitor st) = Some old"
      using save_state_other(6)[OF s1(1) ne] Cons.prems(4) by simp
    with Cons.IH[OF s1(2)] Cons.prems(2) st show ?thesis by simp
  qed
qed simp

text \<open>The version a browser is sent is the one the change replaced: for every live update of a
  batch, the row stored by that batch already carries the next version, although the update is
  documented to carry the version after the change, which a client compares to discard what it
  has already seen.\<close>

theorem live_update_version_is_stale:
  assumes "ingest_results p results = (Inr (a, beats), p')" "results \<noteq> []" "table_ok (pl_store p)"
  shows "\<exists>news. pl_updates p' = pl_updates p @ news \<and> map up_monitor news = map hb_monitor beats \<and>
    (\<forall>u \<in> set news. \<exists>st. s_states (pl_store p') (up_monitor u) = Some st \<and>
       st_version st = up_version u + 1)"
proof -
  from assms(1,2) obtain acc s1 n s2 s3 expiries
    where loop: "ingest_loop (pl_store p) (pl_probe p) empty_acc (sort_key res_micros results) = Inr acc"
      and wb: "store_write_batch (pl_store p) (acc_beats acc) = Inr (s1, n)"
      and sv: "save_all save_state st_monitor s1 (map snd (acc_states acc)) = Inr s2"
      and rc: "record_observed s2 (acc_observed acc) = (s3, expiries)"
      and beats: "beats = acc_beats acc" and p': "pl_store p' = s3"
      and up: "pl_updates p' = pl_updates p @ broadcast (acc_states acc) (acc_beats acc)"
    by (rule ingest_results_Inr)
  have ok: "acc_sound (pl_store p) (pl_probe p) acc"
    by (rule ingest_loop_sound[OF loop acc_sound_empty])
  then have dist: "distinct (map fst (acc_states acc))" by (simp add: acc_sound_def)
  have entry: "\<exists>st0. s_states (pl_store p) i = Some st0 \<and> st_monitor st = i \<and> st_version st = st_version st0"
    if "(i, st) \<in> set (acc_states acc)" for i st
  proof -
    from that dist have "map_of (acc_states acc) i = Some st" by simp
    with ok obtain st0 where "get_state (pl_store p) i = Inr st0" "st_monitor st = st_monitor st0"
        "st_version st = st_version st0" unfolding acc_sound_def by blast
    with assms(3) show ?thesis by (auto simp: get_state_def table_ok_def split: if_splits)
  qed
  have "map st_monitor (map snd (acc_states acc)) = map fst (acc_states acc)"
    using entry by fastforce
  then have dist': "distinct (map st_monitor (map snd (acc_states acc)))" using dist by (simp only:)
  have "\<exists>st. s_states (pl_store p') (hb_monitor b) = Some st \<and>
      st_version st = up_version (update_of (acc_states acc) b) + 1" if "b \<in> set beats" for b
  proof -
    from ok that[unfolded beats] obtain i st0 where i: "i \<in> fst ` set (acc_states acc)"
        "get_state (pl_store p) i = Inr st0" "hb_monitor b = st_monitor st0"
      unfolding acc_sound_def by blast
    then obtain st where st: "(i, st) \<in> set (acc_states acc)" by auto
    from entry[OF st] obtain old where old: "s_states (pl_store p) i = Some old" "st_monitor st = i"
        "st_version st = st_version old" by blast
    have hb: "hb_monitor b = i"
      using i assms(3) by (auto simp: get_state_def table_ok_def split: if_splits)
    have "s_states s2 i = Some (merge_state old st)"
      using save_all_merges[OF sv dist', of st old] st old store_write_batch_other(1)[OF wb] by force
    then have "s_states (pl_store p') i = Some (merge_state old st)"
      using record_observed_keeps[OF rc] p' by simp
    moreover have "map_of (acc_states acc) i = Some st" using st dist by simp
    ultimately show ?thesis using hb old(3) by (simp add: update_of_def merge_state_def)
  qed
  then have "\<forall>u \<in> set (broadcast (acc_states acc) (acc_beats acc)).
      \<exists>st. s_states (pl_store p') (up_monitor u) = Some st \<and> st_version st = up_version u + 1"
    using beats by (auto simp: broadcast_def update_of_def)
  moreover have "map up_monitor (broadcast (acc_states acc) (acc_beats acc)) = map hb_monitor beats"
    by (simp add: broadcast_def update_of_def beats)
  ultimately show ?thesis using up by blast
qed

section \<open>The properties at a concrete batch\<close>

text \<open>A success and an unspecified result, in one batch.\<close>

definition demo_batch :: "result list" where
  "demo_batch = [demo_result OUTCOME_UNSPECIFIED, demo_result OUTCOME_UP]"

lemma demo_table_ok: "table_ok (pl_store (demo_plane m (demo_state \<lparr> st_status := s \<rparr>)))"
  by (simp add: demo_defs table_ok_def)


lemma demo_batch_runs:
  "\<exists>a beats p'. ingest_results (demo_plane demo_monitor demo_state) demo_batch = (Inr (a, beats), p')"
  by (simp add: demo_batch_def demo_defs ingest_eval)

lemma demo_batch_ok:
  "demo_batch \<noteq> []" "length demo_batch = 2"
  "table_ok (pl_store (demo_plane demo_monitor demo_state))"
  "unique_keys (s_rows (pl_store (demo_plane demo_monitor demo_state)))"
  by (simp_all add: demo_batch_def demo_defs table_ok_def unique_keys_def)

theorem ack_means_durable_witness:
  "\<exists>a beats p'. ingest_results (demo_plane demo_monitor demo_state) demo_batch = (Inr (a, beats), p') \<and>
     ack_accepted a + ack_rejected a = 2 \<and> unique_keys (s_rows (pl_store p'))"
proof -
  obtain a beats p' where run: "ingest_results (demo_plane demo_monitor demo_state) demo_batch = (Inr (a, beats), p')"
    using demo_batch_runs by blast
  from ack_means_durable[OF run demo_batch_ok(1,3,4)] demo_batch_ok(2) run show ?thesis by auto
qed

theorem live_update_version_is_stale_witness:
  "\<exists>a beats p' news. ingest_results (demo_plane demo_monitor demo_state) demo_batch = (Inr (a, beats), p') \<and>
     pl_updates p' = news \<and> map up_monitor news = map hb_monitor beats \<and>
     (\<forall>u \<in> set news. \<exists>st. s_states (pl_store p') (up_monitor u) = Some st \<and> st_version st = up_version u + 1)"
proof -
  obtain a beats p' where run: "ingest_results (demo_plane demo_monitor demo_state) demo_batch = (Inr (a, beats), p')"
    using demo_batch_runs by blast
  moreover have "pl_updates (demo_plane demo_monitor demo_state) = []" by (simp add: demo_plane_def)
  ultimately show ?thesis
    using live_update_version_is_stale[OF run demo_batch_ok(1,3)] by auto
qed

theorem failed_batch_is_silent_witness:
  "\<exists>e p'. ingest_results (demo_plane demo_monitor demo_state) [demo_result (OUTCOME_OTHER 5)] = (Inl e, p') \<and>
     pl_events p' = []"
proof -
  have "\<exists>e p'. ingest_results (demo_plane demo_monitor demo_state) [demo_result (OUTCOME_OTHER 5)] = (Inl e, p')"
    by (simp add: demo_defs ingest_eval)
  then show ?thesis using failed_batch_is_silent by (fastforce simp: demo_plane_def)
qed

text \<open>Four failed checks in a row, and a recovery.\<close>

definition demo_run :: "(result \<times> suppression) list" where
  "demo_run = replicate 4 (demo_result OUTCOME_DOWN, SuppressionNone)"

definition demo_repeating :: monitor where
  "demo_repeating = demo_monitor \<lparr> m_resend_after := 2 \<rparr>"

lemma demo_run_runs: "\<exists>out st'. apply_all demo_repeating demo_id demo_state demo_run = Inr (out, st')"
  by (simp add: demo_run_def demo_repeating_def demo_defs numeral_eq_Suc apply_result_def Let_def
      next_verdict_def)

theorem outage_notices_witness:
  "\<exists>out st'. apply_all demo_repeating demo_id demo_state demo_run = Inr (out, st') \<and> down_notices out = 2"
proof -
  obtain out st' where run: "apply_all demo_repeating demo_id demo_state demo_run = Inr (out, st')"
    using demo_run_runs by blast
  have "down_notices out = notices_due demo_repeating (int (length demo_run))"
    by (rule outage_notices[OF run])
      (simp_all add: demo_run_def demo_state_def demo_repeating_def demo_monitor_def demo_result_def)
  also have "\<dots> = 2"
    by (simp add: notices_due_def demo_repeating_def demo_monitor_def demo_run_def)
  finally show ?thesis using run by blast
qed

theorem verdict_is_history_witness:
  "\<exists>out st'. apply_all demo_repeating demo_id demo_state demo_run = Inr (out, st') \<and> st_failures st' = 4"
proof -
  obtain out st' where run: "apply_all demo_repeating demo_id demo_state demo_run = Inr (out, st')"
    using demo_run_runs by blast
  have "st_failures st' = trailing_failures (st_failures demo_state) (judged demo_run)"
    using verdict_is_history[OF run] by (simp add: demo_run_def)
  also have "\<dots> = 4"
    by (simp add: demo_run_def demo_result_def demo_state_def trailing_failures_def judged_def
        List.map_filter_simps numeral_eq_Suc counts_toward_uptime_def)
  finally show ?thesis using run by blast
qed

theorem outages_open_and_close_in_turn_witness:
  "\<exists>out st'. apply_all demo_monitor demo_id demo_state demo_run = Inr (out, st') \<and>
     alternating EventMonitorDown (outage_events (events_of out))"
proof -
  have "\<exists>out st'. apply_all demo_monitor demo_id demo_state demo_run = Inr (out, st')"
    by (simp add: demo_run_def demo_defs numeral_eq_Suc apply_result_def Let_def next_verdict_def)
  then obtain out st' where run: "apply_all demo_monitor demo_id demo_state demo_run = Inr (out, st')"
    by blast
  have "alternating (if st_status demo_state = MonitorStatusDown then EventMonitorUp else EventMonitorDown)
     (outage_events (events_of out))"
    by (rule outages_open_and_close_in_turn[OF run])
      (simp_all add: demo_run_def demo_monitor_def demo_state_def verdict_backed_def)
  with run show ?thesis by (simp add: demo_state_def)
qed

theorem suppression_withholds_the_alert_witness:
  "\<exists>b a st1. apply_result demo_monitor demo_state (demo_result OUTCOME_DOWN) demo_id SuppressionDependency =
     Inr (b, a, st1) \<and> \<not> al_fire a"
proof -
  have "\<exists>b a st1. apply_result demo_monitor demo_state (demo_result OUTCOME_DOWN) demo_id SuppressionNone =
      Inr (b, a, st1)"
    by (simp add: demo_defs apply_result_def Let_def next_verdict_def)
  then show ?thesis using suppression_withholds_the_alert by fastforce
qed

theorem saves_respect_the_sweep_witness:
  "\<exists>s' r'. save_all save_state st_monitor
       (demo_store demo_monitor (demo_state \<lparr> st_status := MonitorStatusMaintenance,
          st_suppressed_by := SuppressedByMaintenance \<rparr>)) [demo_state] = Inr s' \<and>
     s_states s' demo_id = Some r' \<and> st_status r' = MonitorStatusMaintenance"
proof -
  let ?s = "demo_store demo_monitor (demo_state \<lparr> st_status := MonitorStatusMaintenance,
     st_suppressed_by := SuppressedByMaintenance \<rparr>)"
  obtain s' where run: "save_all save_state st_monitor ?s [demo_state] = Inr s'"
    by (simp add: demo_store_def demo_state_def save_state_def)
  have "\<exists>r'. s_states s' demo_id = Some r' \<and> st_suppressed_by r' = SuppressedByMaintenance \<and>
      st_status r' = MonitorStatusMaintenance"
    using saves_respect_the_sweep[OF run, of demo_id "demo_state \<lparr> st_status := MonitorStatusMaintenance,
         st_suppressed_by := SuppressedByMaintenance \<rparr>"] by (simp add: demo_store_def demo_state_def)
  with run show ?thesis by blast
qed

definition demo_beat :: heartbeat where
  "demo_beat = new_beat demo_state (demo_result OUTCOME_UP) demo_id SuppressionNone StatusUp"

theorem write_batch_redelivery_witness:
  "\<exists>rows' n. write_batch [] [demo_beat, demo_beat] = (rows', n) \<and>
     write_batch rows' [demo_beat] = (rows', 0) \<and> n = length rows'"
proof -
  obtain rows' n where run: "write_batch [] [demo_beat, demo_beat] = (rows', n)" by fastforce
  from write_batch_redelivery[OF _ run, of "[demo_beat]"] run show ?thesis by (simp add: unique_keys_def)
qed

text \<open>A child behind a parent that is down.\<close>

definition demo_parent_id :: ident where "demo_parent_id = replicate 16 2"

definition demo_child :: monitor where
  "demo_child = demo_monitor \<lparr> m_parent := Some demo_parent_id \<rparr>"

definition demo_family :: store where
  "demo_family = (demo_store demo_child demo_state)
     \<lparr> s_states := [demo_parent_id \<mapsto> demo_state \<lparr> st_status := MonitorStatusDown \<rparr>] \<rparr>"

theorem dependency_is_an_ancestor_witness:
  "suppression_for demo_family demo_child demo_state [] = SuppressionDependency"
proof -
  have "known_unavailable demo_family [] demo_parent_id"
    by (simp add: known_unavailable_def known_state_def get_state_def demo_family_def demo_store_def)
  then have "ancestor_unavailable demo_family demo_child []"
    unfolding dependency_is_an_ancestor by (intro exI[of _ 0]) (simp add: demo_child_def)
  then show ?thesis by (simp add: suppression_for_def demo_state_def)
qed

end
