(* ===== verification/ExpiryFacts.thy ===== *)
theory ExpiryFacts
  imports Observations
begin

text \<open>
  The day count of an expiry and the alerts it paces: the float arithmetic of
  \<open>flooredDays\<close> is exact for every duration in whole milliseconds, and the alerts about one
  certificate count down, each day at most once.
\<close>

section \<open>Whole days\<close>

lemma fl_frac:
  assumes "0 \<le> r" "r \<le> hour"
  shows "0 \<le> fl (of_int r / of_int hour)" "fl (of_int r / of_int hour) \<le> 1"
  using fl_unit[of "of_int r / of_int hour"] assms by (simp_all add: hour_def)

text \<open>Hours, for a duration that is not negative: the whole hours and a fraction between 0 and 1.\<close>

lemma duration_hours_split:
  assumes "0 \<le> d" "d \<le> 2 ^ 63"
  shows "duration_hours d = fl (of_int (d div hour) + fl (of_int (d mod hour) / of_int hour))"
proof -
  have "d div hour \<le> 2 ^ 63 div hour" using assms by (simp add: zdiv_mono1 hour_def)
  then have "fl (of_int (d div hour)) = of_int (d div hour)"
    using assms by (intro fl_of_small_int) (simp_all add: hour_def pos_imp_zdiv_nonneg_iff)
  moreover have "fl (of_int (d mod hour)) = of_int (d mod hour)"
    using pos_mod_bound[of hour d] by (intro fl_of_small_int) (simp_all add: hour_def)
  moreover have "fl (of_int hour) = of_int hour"
    by (intro fl_of_small_int) (simp_all add: hour_def)
  ultimately show ?thesis
    using assms by (simp add: duration_hours_def float_ops go_div_nonneg go_mod_nonneg hour_def)
qed

lemma fl_27:
  assumes "0 \<le> i" "i < 2 ^ 53" shows "fl (of_int i / 134217728) = of_int i / 134217728"
  using fl_dyadic[OF assms, of 27] by simp

text \<open>Where the quotient lies on either side of a whole number of days.\<close>

lemma quotient_bounds:
  assumes d: "0 \<le> d" "d \<le> 2 ^ 63" "d mod 1000000 = 0" and n: "0 \<le> n" "n \<le> 200000"
  defines "q \<equiv> fl (duration_hours d / 24)"
  shows "n * (24 * hour) \<le> d \<Longrightarrow> of_int n \<le> q" "d \<le> n * (24 * hour) \<Longrightarrow> q \<le> of_int n"
    and "d < n * (24 * hour) \<Longrightarrow> q < of_int n" "n * (24 * hour) < d \<Longrightarrow> of_int n < q"
proof -
  let ?h = "d div hour" and ?r = "d mod hour"
  let ?f = "fl (of_int ?r / of_int hour) :: rat"
  have hr: "d = ?h * hour + ?r" "0 \<le> ?r" "?r < hour" "0 \<le> ?h"
    using d by (simp_all add: hour_def pos_imp_zdiv_nonneg_iff)
  have ms: "?r mod 1000000 = 0"
    using d(3) by (simp add: hour_def mod_mod_cancel)
  have f: "0 \<le> ?f" "?f \<le> 1" using fl_frac[of ?r] hr by auto
  have H: "duration_hours d = fl (of_int ?h + ?f)" by (rule duration_hours_split[OF d(1,2)])
  have int24: "fl (of_int (24 * n)) = of_int (24 * n)" "fl (of_int n) = of_int n"
    by (rule fl_of_small_int; use n in simp)+
  have Hnn: "0 \<le> of_int ?h + ?f" using f hr by (simp add: of_int_nonneg)
  have low: "fl c \<le> duration_hours d" if "0 \<le> c" "c \<le> of_int ?h + ?f" for c
    unfolding H by (rule fl_mono_nonneg[OF that])
  have high: "duration_hours d \<le> fl c" if "of_int ?h + ?f \<le> c" for c
    unfolding H by (rule fl_mono_nonneg[OF Hnn that])
  have Hn: "0 \<le> duration_hours d" using low[of 0] Hnn by simp
  show "of_int n \<le> q" if "n * (24 * hour) \<le> d"
  proof -
    have "24 * n \<le> ?h"
      using zdiv_mono1[OF that, of hour] by (simp add: hour_def)
    then have "of_int (24 * n) \<le> duration_hours d"
      using low[of "of_int (24 * n)"] int24 f n
      by (metis add_increasing2 mult_nonneg_nonneg of_int_0_le_iff of_int_le_iff zero_le_numeral)
    then have "of_int n \<le> duration_hours d / 24" by simp
    then show ?thesis using fl_mono_nonneg[of "of_int n" "duration_hours d / 24"] int24 n
      by (simp add: q_def)
  qed
  show "q \<le> of_int n" if "d \<le> n * (24 * hour)"
  proof -
    have "of_int ?h + ?f \<le> of_int (24 * n)"
    proof (cases "?h = 24 * n")
      case True
      with that hr have "?r = 0" by simp
      with True show ?thesis by simp
    next
      case False
      with that hr have "?h + 1 \<le> 24 * n" by (simp add: hour_def)
      then have "(of_int (?h + 1) :: rat) \<le> of_int (24 * n)" by (simp only: of_int_le_iff)
      with f show ?thesis by simp
    qed
    from high[OF this] have "duration_hours d / 24 \<le> of_int n" using int24 by simp
    then show ?thesis using fl_mono_nonneg[of "duration_hours d / 24" "of_int n"] int24 Hn
      by (simp add: q_def)
  qed
  show "q < of_int n" if less: "d < n * (24 * hour)"
  proof -
    let ?c = "of_int (24 * n * 4194304 - 1) / 4194304 :: rat"
    have n1: "1 \<le> n" using less d(1) n(1) by (cases "n = 0") (auto simp: hour_def)
    have "of_int ?h + ?f \<le> ?c"
    proof (cases "?h + 1 = 24 * n")
      case True
      have "?r \<le> hour - 1000000" using hr(3) ms by (auto simp: hour_def)
      then have "(of_int ?r :: rat) / of_int hour \<le> of_int 4194303 / 2 ^ 22"
        by (simp add: hour_def divide_le_eq)
      then have "?f \<le> fl (of_int 4194303 / 2 ^ 22)"
        by (rule fl_mono_nonneg[rotated]) (use hr in \<open>simp add: hour_def\<close>)
      also have "\<dots> = of_int 4194303 / 2 ^ 22" by (rule fl_dyadic) simp_all
      finally have "?f \<le> 4194303 / 4194304" by simp
      moreover have "of_int ?h = (of_int (24 * n) - 1 :: rat)" using True by linarith
      ultimately show ?thesis by simp
    next
      case False
      with less hr have "?h + 2 \<le> 24 * n" by (simp add: hour_def)
      then have "(of_int (?h + 2) :: rat) \<le> of_int (24 * n)" by (simp only: of_int_le_iff)
      with f show ?thesis by simp
    qed
    moreover have "fl ?c = ?c"
      using fl_dyadic[of "24 * n * 4194304 - 1" 22] n n1 by simp
    ultimately have "duration_hours d \<le> ?c" using high by metis
    then have "duration_hours d / 24 \<le> of_int (n * 134217728 - 1) / 134217728" by simp
    then have "q \<le> of_int (n * 134217728 - 1) / 134217728"
      unfolding q_def using fl_mono_nonneg[OF divide_nonneg_nonneg[OF Hn, of 24]]
        fl_27[of "n * 134217728 - 1"] n n1 by fastforce
    then show ?thesis by simp
  qed
  show "of_int n < q" if less: "n * (24 * hour) < d"
  proof -
    let ?c = "of_int (24 * n * 4194304 + 1) / 4194304 :: rat"
    have "?c \<le> of_int ?h + ?f"
    proof (cases "?h = 24 * n")
      case True
      with less hr have "0 < ?r" by simp
      with ms have "1000000 \<le> ?r" using zdvd_imp_le[of 1000000 ?r] by (simp add: mod_eq_0_iff_dvd)
      then have "of_int 1 / 2 ^ 22 \<le> (of_int ?r :: rat) / of_int hour"
        by (simp add: hour_def le_divide_eq)
      then have "fl (of_int 1 / 2 ^ 22) \<le> ?f" by (rule fl_mono_nonneg[rotated]) simp
      moreover have "fl (of_int 1 / 2 ^ 22) = (of_int 1 / 2 ^ 22 :: rat)" by (rule fl_dyadic) simp_all
      ultimately have "1 / 4194304 \<le> ?f" by simp
      with True show ?thesis by simp
    next
      case False
      have "24 * n \<le> ?h" using zdiv_mono1[of "n * (24 * hour)" d hour] less by (simp add: hour_def)
      with False have "24 * n + 1 \<le> ?h" by simp
      then have "of_int (24 * n + 1) \<le> (of_int ?h :: rat)" by (simp only: of_int_le_iff)
      with f show ?thesis by simp
    qed
    moreover have "fl ?c = ?c"
      using fl_dyadic[of "24 * n * 4194304 + 1" 22] n by simp
    ultimately have "?c \<le> duration_hours d" using low[of ?c] n by simp
    then have "of_int (n * 134217728 + 1) / 134217728 \<le> duration_hours d / 24" by simp
    then have "of_int (n * 134217728 + 1) / 134217728 \<le> q"
      unfolding q_def using fl_mono_nonneg[of "of_int (n * 134217728 + 1) / 134217728" "duration_hours d / 24"]
        fl_27[of "n * 134217728 + 1"] n by fastforce
    then show ?thesis by simp
  qed
qed

lemma duration_hours_neg: "duration_hours (- d) = - duration_hours d"
proof -
  have g: "go_div (- d) hour = - go_div d hour" "go_mod (- d) hour = - go_mod d hour"
    by (simp_all add: go_div_def go_mod_def hour_def sgn_if)
  have "float_of_int (- i) = - float_of_int i" for i by (simp add: float_of_int_def fl_neg)
  moreover have "float_div (- x) y = - float_div x y" "float_add (- x) (- z) = - float_add x z" for x y z
    using fl_neg[of "x + z"] by (simp_all add: float_ops fl_neg)
  ultimately show ?thesis by (simp add: duration_hours_def g)
qed

lemma floored_days_whole:
  assumes "in_int64 d" "d mod 1000000 = 0"
  shows "floored_days d = d div (24 * hour)"
proof (cases "0 \<le> d")
  case True
  let ?n = "d div (24 * hour)"
  have d: "d \<le> 2 ^ 63" using assms(1) by (simp add: in_int64_def max_int64_def)
  have n: "0 \<le> ?n" "?n \<le> 106751"
    using True d zdiv_mono1[OF d, of "24 * hour"] by (simp_all add: hour_def pos_imp_zdiv_nonneg_iff)
  have "?n * (24 * hour) \<le> d" "d < (?n + 1) * (24 * hour)"
    using pos_mod_bound[of "24 * hour" d] pos_mod_sign[of "24 * hour" d] div_mult_mod_eq[of d "24 * hour"]
    by (simp_all add: hour_def algebra_simps)
  then have "of_int ?n \<le> fl (duration_hours d / 24)" "fl (duration_hours d / 24) < of_int (?n + 1)"
    using quotient_bounds(1)[OF True d assms(2), of ?n] quotient_bounds(3)[OF True d assms(2), of "?n + 1"] n
    by simp_all
  then show ?thesis by (simp add: floored_days_def float_div_def floor_eq_iff)
next
  case False
  define e where "e = - d"
  define m where "m = - (d div (24 * hour))"
  have e: "0 \<le> e" "e \<le> 2 ^ 63" "e mod 1000000 = 0"
    using False assms by (auto simp: e_def in_int64_def min_int64_def mod_eq_0_iff_dvd)
  have lo: "- 106752 \<le> d div (24 * hour)"
    using zdiv_mono1[of "- (2 ^ 63)" d "24 * hour"] assms(1) by (simp add: hour_def in_int64_def min_int64_def)
  have hi: "d div (24 * hour) \<le> - 1" using False by (simp add: hour_def neg_imp_zdiv_neg_iff)
  have "e \<le> m * (24 * hour)" "(m - 1) * (24 * hour) < e"
    using pos_mod_bound[of "24 * hour" d] pos_mod_sign[of "24 * hour" d] div_mult_mod_eq[of d "24 * hour"]
    by (simp_all add: hour_def algebra_simps e_def m_def)
  then have "fl (duration_hours e / 24) \<le> of_int m" "of_int (m - 1) < fl (duration_hours e / 24)"
    using quotient_bounds(2)[OF e, of m] quotient_bounds(4)[OF e, of "m - 1"] lo hi
    by (simp_all add: m_def)
  moreover have "float_div (duration_hours d) 24 = - fl (duration_hours e / 24)"
    using duration_hours_neg[of e] fl_neg[of "duration_hours e / 24"] by (simp add: e_def float_div_def)
  ultimately have "floored_days d = - m"
    by (simp add: floored_days_def floor_eq_iff)
  then show ?thesis by (simp add: m_def)
qed

text \<open>The day count of an expiry is the floor of the exact quotient, on both sides of the date:
  for every duration in whole milliseconds the rounding of the hours and of the division never
  moves it to another day, so a certificate that lapsed eleven hours ago has minus one day left.\<close>

theorem floored_days_exact:
  assumes "in_int64 d" "d mod 1000000 = 0"
  shows "floored_days d = d div (24 * hour)"
  using assms by (rule floored_days_whole)

theorem floored_days_exact_witness: "floored_days (- 11 * hour) = - 1"
  using floored_days_exact[of "- 11 * hour"]
  by (simp add: hour_def in_int64_def min_int64_def max_int64_def)

section \<open>The count-down of alerts\<close>

fun record_sightings ::
  "store \<Rightarrow> (observed \<times> cert_seen) list \<Rightarrow> store \<times> pending_alert list" where
  "record_sightings s [] = (s, [])"
| "record_sightings s ((ob, seen) # xs) =
     (let (s1, a) = record_certificate s ob seen; (s2, more) = record_sightings s1 xs
      in (s2, opt_list a @ more))"

text \<open>The days left at a time, for a certificate that ends at \<open>v\<close>; all times in milliseconds.\<close>

definition days_left :: "int \<Rightarrow> int \<Rightarrow> int" where
  "days_left v t = (v - t) div (24 * hour)"

definition sighting_of ::
  "ident \<Rightarrow> bytes \<Rightarrow> int \<Rightarrow> int \<Rightarrow> observed \<times> cert_seen \<Rightarrow> bool" where
  "sighting_of i fp v threshold x =
     (case x of (ob, seen) \<Rightarrow>
        m_id (ob_monitor ob) = i \<and> cs_fingerprint seen = fp \<and> cs_to_micros seen * 1000 = v \<and>
        cs_to_micros seen \<noteq> 0 \<and> cs_threshold seen = Some threshold \<and>
        hb_time (ob_beat ob) mod 1000000 = 0 \<and> in_int64 (v - hb_time (ob_beat ob)) \<and>
        \<not> under_maintenance (ob_beat ob))"

definition sighting_day :: "int \<Rightarrow> observed \<times> cert_seen \<Rightarrow> int" where
  "sighting_day v x = days_left v (hb_time (ob_beat (fst x)))"

lemma floored_days_ms:
  assumes "in_int64 (v - t)" "v mod 1000000 = 0" "t mod 1000000 = 0"
  shows "floored_days (time_sub v t) = days_left v t"
proof -
  have "(v - t) mod 1000000 = 0" using assms(2,3) by (simp add: mod_diff_eq flip: mod_diff_eq)
  moreover have "time_sub v t = v - t"
    using assms(1) by (simp add: time_sub_def in_int64_def)
  ultimately show ?thesis using floored_days_whole[OF assms(1)] by (simp add: days_left_def)
qed

lemma to_millis_same: "t mod 1000000 = 0 \<Longrightarrow> to_millis t = t"
  by (simp add: to_millis_def minus_mod_eq_div_mult[symmetric])

text \<open>One sighting: the row afterwards, and whether it raises.\<close>

lemma sighting_step:
  assumes x: "sighting_of i fp v threshold (ob, seen)" and v: "v mod 1000000 = 0"
    and nf: "Fault_read_cert i \<notin> s_faults s" "Fault_save_cert i \<notin> s_faults s"
    and row: "case s_certs s i of None \<Rightarrow> prior = None
              | Some c \<Rightarrow> prior = Some (days_left v (cert_observed_at c)) \<and> cert_fingerprint c = fp \<and>
                  cert_valid_to c = v \<and> cert_observed_at c mod 1000000 = 0 \<and>
                  in_int64 (v - cert_observed_at c)"
  shows "\<exists>s' a c. record_certificate s ob seen = (s', a) \<and> s_faults s' = s_faults s \<and>
      s_certs s' i = Some c \<and> cert_fingerprint c = fp \<and> cert_valid_to c = v \<and>
      cert_observed_at c = hb_time (ob_beat ob) \<and>
      map (\<lambda>p. days_left v (hb_time (pa_beat p))) (opt_list a) =
        (if sighting_day v (ob, seen) \<le> threshold \<and> prior \<noteq> Some (sighting_day v (ob, seen))
         then [sighting_day v (ob, seen)] else [])"
proof -
  let ?t = "hb_time (ob_beat ob)" and ?c = "certificate_of ob seen"
  have c: "cert_monitor ?c = i" "cert_fingerprint ?c = fp" "cert_valid_to ?c = v" "cert_observed_at ?c = ?t"
    using x by (simp_all add: certificate_of_def sighting_of_def from_micros_def)
  have t: "?t mod 1000000 = 0" "in_int64 (v - ?t)" using x by (simp_all add: sighting_of_def)
  have days: "cert_days_remaining ?c ?t = days_left v ?t"
    using floored_days_ms[OF t(2) v t(1)] c by (simp add: cert_days_remaining_def)
  have read: "get_certificate s i = (case s_certs s i of None \<Rightarrow> Inl ErrNotFound | Some c \<Rightarrow> Inr c)"
    using nf by (simp add: get_certificate_def expect_def)
  obtain s' where sv: "save_certificate s ?c = Inr s'" "s_faults s' = s_faults s"
    "\<exists>c. s_certs s' i = Some c \<and> cert_fingerprint c = fp \<and> cert_valid_to c = v \<and> cert_observed_at c = ?t"
    using nf c v t by (simp add: save_certificate_def to_millis_same)
  have worth: "certificate_worth_saying (s_certs s i) ?c (days_left v ?t) threshold \<longleftrightarrow>
      days_left v ?t \<le> threshold \<and> prior \<noteq> Some (days_left v ?t)"
  proof (cases "s_certs s i")
    case (Some p)
    with row have p: "prior = Some (days_left v (cert_observed_at p))" "cert_fingerprint p = fp"
      "cert_days_remaining p (cert_observed_at p) = days_left v (cert_observed_at p)"
      using floored_days_ms[OF _ v] by (auto simp: cert_days_remaining_def)
    with Some c show ?thesis by (auto simp: certificate_worth_saying_def)
  qed (use row in \<open>auto simp: certificate_worth_saying_def\<close>)
  from x have mon: "m_id (ob_monitor ob) = i" "cs_to_micros seen \<noteq> 0" "cs_threshold seen = Some threshold"
      "\<not> under_maintenance (ob_beat ob)"
    by (simp_all add: sighting_of_def)
  have time: "hb_time (pa_beat (expiry_alert ob ev d msg)) = ?t" for ev d msg
    by (simp add: expiry_alert_def)
  have rec: "\<exists>msg. record_certificate s ob seen =
      (s', if certificate_worth_saying (s_certs s i) ?c (days_left v ?t) threshold
           then Some (expiry_alert ob EventMonitorCertificateExpiring (days_left v ?t) msg) else None)"
    by (cases "s_certs s i") (simp_all add: record_certificate_def mon read sv(1) days Let_def, blast+)
  then obtain msg where rec: "record_certificate s ob seen =
      (s', if certificate_worth_saying (s_certs s i) ?c (days_left v ?t) threshold
           then Some (expiry_alert ob EventMonitorCertificateExpiring (days_left v ?t) msg) else None)" ..
  show ?thesis
    using sv(2,3) worth unfolding rec by (auto simp: sighting_day_def time opt_list_def)
qed

lemma days_left_anti: "t \<le> t' \<Longrightarrow> days_left v t' \<le> days_left v t"
  unfolding days_left_def by (rule zdiv_mono1) (simp_all add: hour_def)

lemma count_down_from:
  assumes "record_sightings s xs = (s', alerts)" "\<forall>x \<in> set xs. sighting_of i fp v threshold x"
    "v mod 1000000 = 0" "Fault_read_cert i \<notin> s_faults s" "Fault_save_cert i \<notin> s_faults s"
    "s_certs s i = Some c" "cert_fingerprint c = fp" "cert_valid_to c = v"
    "cert_observed_at c mod 1000000 = 0" "in_int64 (v - cert_observed_at c)"
    "sorted (cert_observed_at c # map (\<lambda>(ob, _). hb_time (ob_beat ob)) xs)"
  shows "filter (\<lambda>d. d \<le> threshold) [days_left v (cert_observed_at c)] @
      map (\<lambda>p. days_left v (hb_time (pa_beat p))) alerts =
    remdups_adj (filter (\<lambda>d. d \<le> threshold) (days_left v (cert_observed_at c) # map (sighting_day v) xs))"
  using assms
proof (induction xs arbitrary: s c alerts)
  case (Cons x xs)
  obtain ob seen where x: "x = (ob, seen)" by fastforce
  let ?p = "days_left v (cert_observed_at c)" and ?d = "sighting_day v x"
  obtain s1 a c1 where step: "record_certificate s ob seen = (s1, a)" "s_faults s1 = s_faults s"
      "s_certs s1 i = Some c1" "cert_fingerprint c1 = fp" "cert_valid_to c1 = v"
      "cert_observed_at c1 = hb_time (ob_beat ob)"
      "map (\<lambda>p. days_left v (hb_time (pa_beat p))) (opt_list a) =
        (if ?d \<le> threshold \<and> Some ?p \<noteq> Some ?d then [?d] else [])"
    using sighting_step[of i fp v threshold ob seen s "Some ?p"] Cons.prems x by force
  from Cons.prems(1) step(1) x obtain more
    where rest: "record_sightings s1 xs = (s', more)" and alerts: "alerts = opt_list a @ more"
    by (auto split: prod.splits)
  have t: "hb_time (ob_beat ob) mod 1000000 = 0" "in_int64 (v - hb_time (ob_beat ob))"
    using Cons.prems(2) x by (simp_all add: sighting_of_def)
  have d: "?d = days_left v (cert_observed_at c1)" using step(6) x by (simp add: sighting_day_def)
  have IH: "filter (\<lambda>d. d \<le> threshold) [?d] @ map (\<lambda>p. days_left v (hb_time (pa_beat p))) more =
    remdups_adj (filter (\<lambda>d. d \<le> threshold) (?d # map (sighting_day v) xs))"
    unfolding d
    by (rule Cons.IH[OF rest _ Cons.prems(3) _ _ step(3-5)])
      (use Cons.prems step(2,6) t x in auto)
  have "cert_observed_at c \<le> hb_time (ob_beat ob)" using Cons.prems(11) x by simp
  then have le: "?d \<le> ?p" using days_left_anti d step(6) by simp
  show ?case
    using IH step(7) le unfolding alerts
    by (auto simp: remdups_adj_Cons split: list.splits if_splits)
qed (simp add: remdups_adj_Cons)


end
