(* ===== verification/Push.thy ===== *)
theory Push
  imports IngestHandler ExpiryFacts
begin

text \<open>
  Push monitors (\<open>internal/controlplane/push.go\<close>): results the control plane writes itself, for a
  heartbeat that arrived and for one that did not, and the manual check, all fed through the
  ingest path of \<open>Ingest\<close>.

  Three things the file uses are parameters: the JSON decoder of a push configuration
  (\<open>decode\<close>, \<open>None\<close> for an error, with the text of that error), the source of fresh result ids
  (\<open>fresh\<close>), and the wall-clock phrase of \<open>time.Since\<close> (\<open>ago\<close>).
\<close>

record push_config =
  pc_expected_seconds :: "int option"
  pc_grace_seconds :: "int option"

definition default_expected_interval :: int where "default_expected_interval = 60 * second"
definition default_grace_period :: int where "default_grace_period = 30 * second"

definition new_result :: "bytes \<Rightarrow> monitor \<Rightarrow> outcome \<Rightarrow> string \<Rightarrow> int \<Rightarrow> result" where
  "new_result rid m oc message t =
     \<lparr> res_id = rid, res_monitor = m_id m, res_micros = micros t, res_outcome = oc, res_ms = 0,
       res_code = '''', res_message = message, res_attempt = 1, res_cert = None,
       res_domain = None \<rparr>"

text \<open>When silence becomes an outage; \<open>Inl\<close> is a configuration that cannot be read.\<close>

definition push_deadline ::
  "(string \<Rightarrow> string + push_config) \<Rightarrow> monitor \<Rightarrow> monitor_state \<Rightarrow> string + int" where
  "push_deadline decode m st =
     and_then
       (if m_config m = '''' then Inr \<lparr> pc_expected_seconds = None, pc_grace_seconds = None \<rparr>
        else case decode (m_config m) of Inl e \<Rightarrow> Inl (''push config: '' @ e) | Inr cfg \<Rightarrow> Inr cfg)
       (\<lambda>cfg.
          let expected = (case pc_expected_seconds cfg of
                            Some n \<Rightarrow> if 0 < n then wrap64 (n * second) else default_expected_interval
                          | None \<Rightarrow> default_expected_interval);
              grace = (case pc_grace_seconds cfg of
                         Some n \<Rightarrow> if 0 \<le> n then wrap64 (n * second) else default_grace_period
                       | None \<Rightarrow> default_grace_period);
              start = (case st_last_check st of Some t \<Rightarrow> t | None \<Rightarrow> m_created_at m)
          in Inr (start + wrap64 (expected + grace)))"

definition describe_since :: "(int \<Rightarrow> string) \<Rightarrow> int option \<Rightarrow> int \<Rightarrow> string" where
  "describe_since ago last_check created =
     (case last_check of
        None \<Rightarrow> ''creation, '' @ ago created @ '' ago''
      | Some t \<Rightarrow> rfc3339 t @ '', '' @ ago t @ '' ago'')"

text \<open>The enabled push monitors that have a state, in the order of the table.\<close>

definition list_push_monitors :: "store \<Rightarrow> (monitor \<times> monitor_state) list" where
  "list_push_monitors s =
     List.map_filter
       (\<lambda>(i, m). if m_enabled m \<and> m_type m = ''push''
                 then map_option (Pair m) (s_states s i) else None) (s_monitors s)"

definition overdue_result ::
  "(string \<Rightarrow> string + push_config) \<Rightarrow> (int \<Rightarrow> string) \<Rightarrow> int \<Rightarrow> bytes \<Rightarrow> monitor \<times> monitor_state \<Rightarrow> result option" where
  "overdue_result decode ago now rid ms =
     (case ms of (m, st) \<Rightarrow>
        (case push_deadline decode m st of
           Inl e \<Rightarrow> Some (new_result rid m OUTCOME_UNKNOWN e now)
         | Inr deadline \<Rightarrow>
             if now < deadline then None
             else Some (new_result rid m OUTCOME_DOWN
                    (''no push received since '' @
                     describe_since ago (st_last_check st) (m_created_at m)) now)))"

definition overdue_results ::
  "(string \<Rightarrow> string + push_config) \<Rightarrow> (int \<Rightarrow> string) \<Rightarrow> (nat \<Rightarrow> bytes) \<Rightarrow> int \<Rightarrow>
     (monitor \<times> monitor_state) list \<Rightarrow> result list" where
  "overdue_results decode ago fresh now ms =
     List.map_filter (\<lambda>(k, x). overdue_result decode ago now (fresh k) x) (enumerate 0 ms)"

definition sweep_push ::
  "(string \<Rightarrow> string + push_config) \<Rightarrow> (int \<Rightarrow> string) \<Rightarrow> (nat \<Rightarrow> bytes) \<Rightarrow> int \<Rightarrow> plane \<Rightarrow>
     (ingest_error + nat) \<times> plane" where
  "sweep_push decode ago fresh now p =
     (let overdue = overdue_results decode ago fresh now (list_push_monitors (pl_store p))
      in if overdue = [] then (Inr 0, p)
         else case ingest p overdue of
                (Inl e, p') \<Rightarrow> (Inl e, p') | (Inr _, p') \<Rightarrow> (Inr (length overdue), p'))"

text \<open>An inbound call to the push endpoint, and a check the API ran itself.\<close>

definition push_heartbeat ::
  "plane \<Rightarrow> bytes \<Rightarrow> monitor \<Rightarrow> bool \<Rightarrow> string \<Rightarrow> int option \<Rightarrow> int \<Rightarrow> (ingest_error + unit) \<times> plane" where
  "push_heartbeat p rid m up message response now =
     (let r = new_result rid m (if up then OUTCOME_UP else OUTCOME_DOWN) message now;
          r' = (case response of Some d \<Rightarrow> r \<lparr> res_ms := response_ms d \<rparr> | None \<Rightarrow> r)
      in case ingest p [r'] of (Inl e, p') \<Rightarrow> (Inl e, p') | (Inr _, p') \<Rightarrow> (Inr (), p'))"

fun outcome_for :: "status \<Rightarrow> outcome" where
  "outcome_for StatusUp = OUTCOME_UP"
| "outcome_for StatusDown = OUTCOME_DOWN"
| "outcome_for StatusSkipped = OUTCOME_SKIPPED"
| "outcome_for _ = OUTCOME_UNKNOWN"

record check_seen =
  ck_status :: status
  ck_message :: string
  ck_code :: string
  ck_response :: "int option"
  ck_cert :: "cert_seen option"
  ck_domain :: "domain_seen option"

datatype record_error = Record_ingest ingest_error | Not_recorded ident

definition record_check ::
  "plane \<Rightarrow> bytes \<Rightarrow> monitor \<Rightarrow> check_seen \<Rightarrow> int \<Rightarrow> (record_error + heartbeat) \<times> plane" where
  "record_check p rid m c now =
     (let r = (new_result rid m (outcome_for (ck_status c)) (ck_message c) now)
                \<lparr> res_code := ck_code c, res_cert := ck_cert c, res_domain := ck_domain c,
                  res_ms := (case ck_response c of Some d \<Rightarrow> response_ms d | None \<Rightarrow> 0) \<rparr>
      in case ingest_results p [r] of
           (Inl e, p') \<Rightarrow> (Inl (Record_ingest e), p')
         | (Inr (_, beats), p') \<Rightarrow>
             (case beats of [] \<Rightarrow> (Inl (Not_recorded (m_id m)), p') | b # _ \<Rightarrow> (Inr b, p')))"

section \<open>What the sweep does\<close>

lemma in_map_filter: "x \<in> set xs \<Longrightarrow> f x = Some y \<Longrightarrow> y \<in> set (List.map_filter f xs)"
  by (induction xs) (auto simp: List.map_filter_simps split: option.splits)

lemma overdue_results_member:
  "k < length ms \<Longrightarrow> overdue_result decode ago now (fresh k) (ms ! k) = Some r \<Longrightarrow>
     r \<in> set (overdue_results decode ago fresh now ms)"
  unfolding overdue_results_def
  by (rule in_map_filter[of "(k, ms ! k)"]) (simp_all add: in_set_enumerate_eq)

text \<open>
  The state a silence leaves: applying the overdue result and saving it moves the last check,
  and so the deadline, to the time of the sweep.
\<close>

lemma swept_deadline:
  assumes "apply_result m st (new_result rid m OUTCOME_DOWN msg now) probe supp = Inr (b, a, st')"
    "push_deadline decode m st = Inr dl"
  shows "push_deadline decode m (merge_state old st') =
    Inr (to_millis (from_micros (micros now)) + (dl - (case st_last_check st of Some t \<Rightarrow> t | None \<Rightarrow> m_created_at m)))"
proof -
  have "st_last_check st' = Some (from_micros (micros now))"
  proof (cases "supp = SuppressionMaintenance")
    case True
    with assms(1) show ?thesis
      by (auto simp: apply_result_maintenance[where oc = StatusDown] new_result_def touch_def)
  next
    case False
    obtain v f where vf: "next_verdict m StatusDown (st_status st) (st_failures st) = (v, f)" by fastforce
    from assms(1) apply_result_judged[OF False _ vf, of "new_result rid m OUTCOME_DOWN msg now" probe]
    show ?thesis by (auto simp: new_result_def touch_def simp del: not_None_eq)
  qed
  then have "st_last_check (merge_state old st') = Some (to_millis (from_micros (micros now)))"
    by (simp add: merge_state_def)
  with assms(2) show ?thesis
    by (auto simp: push_deadline_def and_then_Inr Let_def split: if_splits sum.splits)
qed

text \<open>Sweeping often does not write often: once a silent push monitor has been recorded as down,
  it is not overdue again at any time before the sweep's own time (in the milliseconds the state
  is kept in) plus the full allowance it was given before, whatever suppression it met and
  whatever state the save was merged into.\<close>

theorem sweep_waits_a_full_interval:
  assumes "push_deadline decode m st = Inr dl"
    "apply_result m st (new_result rid m OUTCOME_DOWN msg now) probe supp = Inr (b, a, st')"
    "later < to_millis (from_micros (micros now)) +
       (dl - (case st_last_check st of Some t \<Rightarrow> t | None \<Rightarrow> m_created_at m))"
  shows "overdue_result decode ago later rid' (m, merge_state old st') = None"
  using swept_deadline[OF assms(2,1)] assms(3) by (simp add: overdue_result_def)

text \<open>A push monitor whose configuration cannot be read is reported unknown on every sweep, whatever
  the time and however recent its last result: the deadline that is documented to pace these
  reports is never consulted.\<close>

theorem unreadable_config_reported_every_sweep:
  assumes "(m, st) \<in> set ms" "m_config m \<noteq> ''''" "decode (m_config m) = Inl e"
  shows "\<exists>r \<in> set (overdue_results decode ago fresh now ms).
    res_monitor r = m_id m \<and> res_outcome r = OUTCOME_UNKNOWN \<and> res_micros r = micros now"
proof -
  obtain k where k: "k < length ms" "ms ! k = (m, st)" using assms(1) by (auto simp: in_set_conv_nth)
  let ?r = "new_result (fresh k) m OUTCOME_UNKNOWN (''push config: '' @ e) now"
  have "overdue_result decode ago now (fresh k) (ms ! k) = Some ?r"
    using k assms(2,3) by (simp add: overdue_result_def push_deadline_def)
  with k(1) have "?r \<in> set (overdue_results decode ago fresh now ms)"
    by (rule overdue_results_member)
  then show ?thesis by (rule bexI[rotated]) (simp add: new_result_def)
qed

theorem unreadable_config_reported_every_sweep_witness:
  "\<exists>r \<in> set (overdue_results (\<lambda>_. Inl ''bad'') (\<lambda>_. '''') (\<lambda>_. []) 1000
        [(demo_monitor \<lparr> m_config := ''x'' \<rparr>, demo_state \<lparr> st_last_check := Some 999 \<rparr>)]).
     res_monitor r = demo_id \<and> res_outcome r = OUTCOME_UNKNOWN \<and> res_micros r = 1"
  using unreadable_config_reported_every_sweep
    [of "demo_monitor \<lparr> m_config := ''x'' \<rparr>" "demo_state \<lparr> st_last_check := Some 999 \<rparr>"
      "[(demo_monitor \<lparr> m_config := ''x'' \<rparr>, demo_state \<lparr> st_last_check := Some 999 \<rparr>)]"
      "\<lambda>_. Inl ''bad''" "''bad''" "\<lambda>_. ''''" "\<lambda>_. []" 1000]
  by (simp add: demo_monitor_def micros_def)

theorem sweep_waits_a_full_interval_witness:
  "\<exists>st'. overdue_result (\<lambda>_. Inl ''bad'') (\<lambda>_. '''') (100 * second + 89 * second) []
     (demo_monitor, merge_state demo_state st') = None"
proof -
  let ?r = "new_result [] demo_monitor OUTCOME_DOWN ''silent'' (100 * second)"
  have "\<exists>b a st'. apply_result demo_monitor demo_state ?r demo_id SuppressionNone = Inr (b, a, st')"
    by (simp add: new_result_def apply_result_def Let_def next_verdict_def demo_monitor_def demo_state_def)
  then obtain b a st' where run: "apply_result demo_monitor demo_state ?r demo_id SuppressionNone = Inr (b, a, st')"
    by blast
  have dl: "push_deadline (\<lambda>_. Inl ''bad'') demo_monitor demo_state = Inr (90 * second)"
    by (simp add: push_deadline_def demo_monitor_def demo_state_def default_expected_interval_def
        default_grace_period_def second_def in_int64_def min_int64_def max_int64_def)
  have "overdue_result (\<lambda>_. Inl ''bad'') (\<lambda>_. '''') (100 * second + 89 * second) []
      (demo_monitor, merge_state demo_state st') = None"
    by (rule sweep_waits_a_full_interval[OF dl run])
      (simp add: demo_state_def demo_monitor_def second_def to_millis_def from_micros_def micros_def)
  then show ?thesis ..
qed

text \<open>Two sightings, ten days before the end, of a certificate watched from thirty days on.\<close>

definition demo_sighting :: "observed \<times> cert_seen" where
  "demo_sighting =
     (\<lparr> ob_monitor = demo_monitor, ob_beat = demo_beat, ob_status = MonitorStatusUp,
        ob_result = demo_result OUTCOME_UP \<rparr>,
      \<lparr> cs_subject = '''', cs_issuer = '''', cs_serial = '''', cs_from_micros = 0,
        cs_to_micros = 864005000000, cs_fingerprint = [1], cs_sans = [], cs_chain_valid = None,
        cs_chain_error = '''', cs_threshold = Some 30 \<rparr>)"


end
