(* ===== verification/Rollup.thy ===== *)
theory Rollup
  imports HeartbeatStore
begin

text \<open>
  The heartbeat aggregates and retention (\<open>internal/rollup/rollup.go\<close>) over their SQLite
  queries (\<open>internal/store/sqlite/rollup.go\<close>): the chain of tiers, the window of buckets a pass
  computes, the aggregation of raw rows and of finer buckets, bounded deletion, the purge of
  deleted monitors, and the uptime cache.

  The SQL is modelled as what it computes: grouping by key, integer division that truncates,
  aggregates that ignore nulls and are null on no value, upserts by primary key. Sums of
  response times are exact; the database adds them with compensated floats. Where SQL leaves a
  choice open (which rows a bounded delete takes, which row's \<open>org_id\<close> represents a group) the
  first in table order is taken. Any database call may fail, as the field \<open>db_faults\<close> says.
\<close>

section \<open>Tiers\<close>

datatype tier = Tier (tier_name: string) (tier_interval: int) (tier_source: "tier option") (tier_reprocess: int)

definition tier1m :: tier where "tier1m = Tier ''1m'' minute None (10 * minute)"
definition tier5m :: tier where "tier5m = Tier ''5m'' (5 * minute) (Some tier1m) hour"
definition tier1h :: tier where "tier1h = Tier ''1h'' hour (Some tier5m) (12 * hour)"
definition tier1d :: tier where "tier1d = Tier ''1d'' (24 * hour) (Some tier1h) (72 * hour)"

definition tiers :: "tier list" where
  "tiers = [tier1m, tier5m, tier1h, tier1d]"

definition rollup_grace :: int where "rollup_grace = 30 * second"
definition max_buckets_per_run :: int where "max_buckets_per_run = 2000"

text \<open>The start of the bucket an instant belongs to, counted from the Unix epoch.\<close>

definition bucket :: "instant \<Rightarrow> int \<Rightarrow> instant" where
  "bucket t interval =
     (let step = go_div interval second;
          secs = unix_sec t;
          floored = go_div secs step * step
      in (if secs < 0 \<and> floored \<noteq> secs then floored - step else floored) * second)"

section \<open>Retention policy\<close>

record retention =
  raw_days :: int
  rollup_1m_days :: int
  rollup_5m_days :: int
  rollup_1h_days :: int
  rollup_1d_days :: int
  webhook_delivery_days :: int
  notification_delivery_days :: int

definition default_retention :: retention where
  "default_retention =
     \<lparr> raw_days = 7, rollup_1m_days = 30, rollup_5m_days = 90, rollup_1h_days = 365,
       rollup_1d_days = 0, webhook_delivery_days = 30, notification_delivery_days = 90 \<rparr>"

definition kept_longer :: "int \<Rightarrow> int \<Rightarrow> bool" where
  "kept_longer coarse fine = (coarse = 0 \<or> (fine \<noteq> 0 \<and> fine \<le> coarse))"

datatype retention_error = Hole string int string int | Raw_days_too_few

definition retention_pairs :: "retention \<Rightarrow> (string \<times> string \<times> int \<times> int) list" where
  "retention_pairs r =
     [(''rollup_1m_days'', ''raw_days'', rollup_1m_days r, raw_days r),
      (''rollup_5m_days'', ''rollup_1m_days'', rollup_5m_days r, rollup_1m_days r),
      (''rollup_1h_days'', ''rollup_5m_days'', rollup_1h_days r, rollup_5m_days r),
      (''rollup_1d_days'', ''rollup_1h_days'', rollup_1d_days r, rollup_1h_days r)]"

definition retention_validate :: "retention \<Rightarrow> retention_error option" where
  "retention_validate r =
     (case find (\<lambda>(_, _, coarse, fine). \<not> kept_longer coarse fine) (retention_pairs r) of
        Some (cn, fn, coarse, fine) \<Rightarrow> Some (Hole cn coarse fn fine)
      | None \<Rightarrow> if raw_days r < 1 then Some Raw_days_too_few else None)"

definition days_for_tier :: "retention \<Rightarrow> tier \<Rightarrow> int" where
  "days_for_tier r t =
     (if tier_name t = ''1m'' then rollup_1m_days r
      else if tier_name t = ''5m'' then rollup_5m_days r
      else if tier_name t = ''1h'' then rollup_1h_days r
      else rollup_1d_days r)"

section \<open>Tables\<close>

record bucket_row =
  b_start :: int
  b_monitor :: ident
  b_org :: ident
  b_up :: int
  b_down :: int
  b_pending :: int
  b_maintenance :: int
  b_unknown :: int
  b_skipped :: int
  b_rt_sum :: "rat option"
  b_rt_count :: int
  b_rt_min :: "rat option"
  b_rt_max :: "rat option"
  b_rt_p95 :: "rat option"

record delivery_row =
  d_id :: int
  d_created :: int

record cache_row =
  c_monitor :: ident
  c_window :: string
  c_ratio :: "rat option"
  c_total :: int
  c_down :: int
  c_downtime :: int
  c_computed :: int

datatype rollup_fault =
  Fault_bound string | Fault_earliest_raw | Fault_rollup string | Fault_delete string
| Fault_cache | Fault_purge

record db =
  db_raw :: "hb_row list"
  db_tiers :: "string \<Rightarrow> bucket_row list"
  db_deliveries :: "string \<Rightarrow> delivery_row list"
  db_purges :: "(int \<times> ident) list"
  db_monitors :: "(ident \<times> int) list"
  db_cache :: "cache_row list"
  db_faults :: "rollup_fault set"

type_synonym bucket_key = "ident \<times> int"

definition bucket_key :: "bucket_row \<Rightarrow> bucket_key" where
  "bucket_key b = (b_monitor b, b_start b)"

text \<open>\<open>ON CONFLICT (monitor_id, bucket_start) DO UPDATE\<close>: every column but the key and the org.\<close>

fun upsert :: "bucket_row list \<Rightarrow> bucket_row \<Rightarrow> bucket_row list" where
  "upsert [] b = [b]"
| "upsert (x # xs) b =
     (if bucket_key x = bucket_key b then b \<lparr> b_org := b_org x \<rparr> # xs else x # upsert xs b)"

definition upsert_all :: "bucket_row list \<Rightarrow> bucket_row list \<Rightarrow> bucket_row list" where
  "upsert_all table bs = foldl upsert table bs"

section \<open>Aggregation\<close>

definition measured_response :: "hb_row \<Rightarrow> rat option" where
  "measured_response r = (if r_status r = 1 then r_response_ms r else None)"

definition raw_bucket :: "hb_row \<Rightarrow> int" where
  "raw_bucket r = go_div (r_time r) 60000000 * 60000"

definition raw_key :: "hb_row \<Rightarrow> bucket_key" where
  "raw_key r = (r_monitor r, raw_bucket r)"

definition count_status :: "int \<Rightarrow> hb_row list \<Rightarrow> int" where
  "count_status s rows = int (length (filter (\<lambda>r. r_status r = s) rows))"

definition values_of :: "('a \<Rightarrow> rat option) \<Rightarrow> 'a list \<Rightarrow> rat list" where
  "values_of f xs = List.map_filter f xs"

definition sql_sum :: "rat list \<Rightarrow> rat option" where
  "sql_sum vs = (if vs = [] then None else Some (sum_list vs))"

definition sql_min :: "rat list \<Rightarrow> rat option" where
  "sql_min vs = (if vs = [] then None else Some (Min (set vs)))"

definition sql_max :: "rat list \<Rightarrow> rat option" where
  "sql_max vs = (if vs = [] then None else Some (Max (set vs)))"

text \<open>Nearest rank: the \<open>ceil(0.95 n)\<close>-th of the measurements in order.\<close>

definition p95_rank :: "nat \<Rightarrow> nat" where
  "p95_rank n = (n * 95 + 99) div 100"

definition nearest_rank_p95 :: "rat list \<Rightarrow> rat option" where
  "nearest_rank_p95 vs = (if vs = [] then None else Some (sort vs ! (p95_rank (length vs) - 1)))"

definition aggregate_raw :: "bucket_key \<Rightarrow> hb_row list \<Rightarrow> bucket_row" where
  "aggregate_raw k rows =
     (let vs = values_of measured_response rows in
      \<lparr> b_start = snd k, b_monitor = fst k, b_org = r_org (hd rows),
        b_up = count_status 1 rows, b_down = count_status 0 rows,
        b_pending = count_status 2 rows, b_maintenance = count_status 3 rows,
        b_unknown = count_status 4 rows, b_skipped = count_status 5 rows,
        b_rt_sum = sql_sum vs, b_rt_count = int (length vs), b_rt_min = sql_min vs,
        b_rt_max = sql_max vs, b_rt_p95 = nearest_rank_p95 vs \<rparr>)"

definition group_rows :: "('a \<Rightarrow> 'k) \<Rightarrow> 'a list \<Rightarrow> ('k \<times> 'a list) list" where
  "group_rows key rows = map (\<lambda>k. (k, filter (\<lambda>r. key r = k) rows)) (remdups (map key rows))"

definition millis :: "instant \<Rightarrow> int" where "millis t = t div 1000000"
definition from_millis :: "int \<Rightarrow> instant" where "from_millis ms = ms * 1000000"

definition raw_in_range :: "db \<Rightarrow> instant \<Rightarrow> instant \<Rightarrow> hb_row list" where
  "raw_in_range db start stop =
     filter (\<lambda>r. micros start \<le> r_time r \<and> r_time r < micros stop) (db_raw db)"

definition set_tier :: "db \<Rightarrow> string \<Rightarrow> bucket_row list \<Rightarrow> db" where
  "set_tier db name rows = db \<lparr> db_tiers := (db_tiers db)(name := rows) \<rparr>"

definition roll_up_raw :: "db \<Rightarrow> instant \<Rightarrow> instant \<Rightarrow> db \<times> int" where
  "roll_up_raw db start stop =
     (let groups = group_rows raw_key (raw_in_range db start stop);
          fresh = map (\<lambda>(k, rows). aggregate_raw k rows) groups
      in (set_tier db ''1m'' (upsert_all (db_tiers db ''1m'') fresh), int (length fresh)))"

definition tier_bucket :: "int \<Rightarrow> int \<Rightarrow> int" where
  "tier_bucket interval ms = go_div ms (interval div 1000000) * (interval div 1000000)"

definition tier_key :: "int \<Rightarrow> bucket_row \<Rightarrow> bucket_key" where
  "tier_key interval b = (b_monitor b, tier_bucket interval (b_start b))"

definition aggregate_buckets :: "bucket_key \<Rightarrow> bucket_row list \<Rightarrow> bucket_row" where
  "aggregate_buckets k bs =
     \<lparr> b_start = snd k, b_monitor = fst k, b_org = b_org (hd bs),
       b_up = sum_list (map b_up bs), b_down = sum_list (map b_down bs),
       b_pending = sum_list (map b_pending bs), b_maintenance = sum_list (map b_maintenance bs),
       b_unknown = sum_list (map b_unknown bs), b_skipped = sum_list (map b_skipped bs),
       b_rt_sum = sql_sum (values_of b_rt_sum bs), b_rt_count = sum_list (map b_rt_count bs),
       b_rt_min = sql_min (values_of b_rt_min bs), b_rt_max = sql_max (values_of b_rt_max bs),
       b_rt_p95 = sql_max (values_of b_rt_p95 bs) \<rparr>"

definition buckets_in_range :: "bucket_row list \<Rightarrow> instant \<Rightarrow> instant \<Rightarrow> bucket_row list" where
  "buckets_in_range table start stop =
     filter (\<lambda>b. millis start \<le> b_start b \<and> b_start b < millis stop) table"

definition roll_up_tier :: "db \<Rightarrow> tier \<Rightarrow> tier \<Rightarrow> instant \<Rightarrow> instant \<Rightarrow> db \<times> int" where
  "roll_up_tier db t src start stop =
     (let groups = group_rows (tier_key (tier_interval t))
                     (buckets_in_range (db_tiers db (tier_name src)) start stop);
          fresh = map (\<lambda>(k, bs). aggregate_buckets k bs) groups
      in (set_tier db (tier_name t) (upsert_all (db_tiers db (tier_name t)) fresh),
          int (length fresh)))"

section \<open>One pass: which buckets\<close>

datatype rollup_error = Rollup_db rollup_fault

text \<open>The zero time of the source is \<open>None\<close>.\<close>

definition bound_of :: "(int \<Rightarrow> int \<Rightarrow> int) \<Rightarrow> int list \<Rightarrow> int option" where
  "bound_of f xs = (case xs of [] \<Rightarrow> None | x # rest \<Rightarrow> Some (fold f rest x))"

definition latest_bucket :: "db \<Rightarrow> tier \<Rightarrow> rollup_error + instant option" where
  "latest_bucket db t =
     (if Fault_bound (tier_name t) \<in> db_faults db then Inl (Rollup_db (Fault_bound (tier_name t)))
      else Inr (map_option from_millis (bound_of max (map b_start (db_tiers db (tier_name t))))))"

definition earliest_bucket :: "db \<Rightarrow> tier \<Rightarrow> rollup_error + instant option" where
  "earliest_bucket db t =
     (if Fault_bound (tier_name t) \<in> db_faults db then Inl (Rollup_db (Fault_bound (tier_name t)))
      else Inr (map_option from_millis (bound_of min (map b_start (db_tiers db (tier_name t))))))"

definition earliest_raw :: "db \<Rightarrow> rollup_error + instant option" where
  "earliest_raw db =
     (if Fault_earliest_raw \<in> db_faults db then Inl (Rollup_db Fault_earliest_raw)
      else Inr (map_option from_micros (bound_of min (map r_time (db_raw db)))))"

definition catch_up :: "tier \<Rightarrow> instant \<Rightarrow> instant \<Rightarrow> instant \<times> instant" where
  "catch_up t start stop =
     (let from_b = bucket start (tier_interval t);
          limit = from_b + max_buckets_per_run * tier_interval t
      in (from_b, if limit < stop then limit else stop))"

definition rollup_window :: "db \<Rightarrow> tier \<Rightarrow> instant \<Rightarrow> rollup_error + instant \<times> instant" where
  "rollup_window db t now =
     (let stop = bucket (now - rollup_grace) (tier_interval t) in
      and_then (latest_bucket db t)
        (\<lambda>latest. case latest of
            Some l \<Rightarrow> Inr (catch_up t (l - tier_reprocess t) stop)
          | None \<Rightarrow>
              and_then (case tier_source t of None \<Rightarrow> earliest_raw db | Some src \<Rightarrow> earliest_bucket db src)
                (\<lambda>earliest. case earliest of
                    None \<Rightarrow> Inr (stop, stop)
                  | Some e \<Rightarrow> Inr (catch_up t e stop))))"

definition rollup_tier_step :: "instant \<Rightarrow> db \<Rightarrow> tier \<Rightarrow> rollup_error + db" where
  "rollup_tier_step now db t =
     and_then (rollup_window db t now)
       (\<lambda>(start, stop).
          if \<not> start < stop then Inr db
          else if Fault_rollup (tier_name t) \<in> db_faults db then Inl (Rollup_db (Fault_rollup (tier_name t)))
          else Inr (fst (case tier_source t of
                           None \<Rightarrow> roll_up_raw db start stop
                         | Some src \<Rightarrow> roll_up_tier db t src start stop)))"

text \<open>What an earlier tier wrote stays written when a later one fails.\<close>

fun rollup_chain :: "instant \<Rightarrow> db \<Rightarrow> tier list \<Rightarrow> rollup_error option \<times> db" where
  "rollup_chain now db [] = (None, db)"
| "rollup_chain now db (t # ts) =
     (case rollup_tier_step now db t of
        Inl e \<Rightarrow> (Some e, db) | Inr db' \<Rightarrow> rollup_chain now db' ts)"

definition rollup_run :: "db \<Rightarrow> instant \<Rightarrow> rollup_error option \<times> db" where
  "rollup_run db now = rollup_chain now db tiers"

section \<open>Retention\<close>

definition delete_batch :: nat where "delete_batch = 5000"
definition purge_batch :: nat where "purge_batch = 5000"
definition vacuum_pages :: int where "vacuum_pages = 1000"
definition cache_interval :: int where "cache_interval = 5 * minute"

text \<open>A bounded delete: the first \<open>limit\<close> rows that match, and how many went.\<close>

fun delete_some :: "('a \<Rightarrow> bool) \<Rightarrow> nat \<Rightarrow> 'a list \<Rightarrow> 'a list \<times> nat" where
  "delete_some p limit [] = ([], 0)"
| "delete_some p limit (x # xs) =
     (if p x \<and> 0 < limit
      then (case delete_some p (limit - 1) xs of (ys, n) \<Rightarrow> (ys, n + 1))
      else (case delete_some p limit xs of (ys, n) \<Rightarrow> (x # ys, n)))"

lemma delete_some_count: "snd (delete_some p limit xs) = min limit (length (filter p xs))"
  by (induction xs arbitrary: limit) (auto simp: split_beta)

lemma delete_some_length:
  "length (filter p (fst (delete_some p limit xs))) + snd (delete_some p limit xs) = length (filter p xs)"
  by (induction xs arbitrary: limit) (auto simp: split_beta)

lemma delete_some_keeps:
  "filter (\<lambda>x. \<not> p x) (fst (delete_some p limit xs)) = filter (\<lambda>x. \<not> p x) xs"
  by (induction xs arbitrary: limit) (auto simp: split_beta)

lemma delete_some_progress:
  "delete_some p limit xs = (ys, n) \<Longrightarrow> 0 < n \<Longrightarrow> length (filter p ys) < length (filter p xs)"
  using delete_some_length[of p limit xs] by simp

text \<open>
  \<open>deleteAll\<close>: batches until one comes back short or the context ends. \<open>live k\<close> says whether
  the context is still alive at the \<open>k\<close>-th look.
\<close>

function delete_all :: "(nat \<Rightarrow> bool) \<Rightarrow> nat \<Rightarrow> ('a \<Rightarrow> bool) \<Rightarrow> 'a list \<Rightarrow> 'a list \<times> nat" where
  "delete_all live k p xs =
     (if \<not> live k then (xs, 0)
      else case delete_some p delete_batch xs of
             (ys, n) \<Rightarrow>
               if n < delete_batch then (ys, n)
               else (case delete_all live (k + 1) p ys of (zs, rest) \<Rightarrow> (zs, n + rest)))"
  by pat_completeness auto

termination
  by (relation "measure (\<lambda>(live, k, p, xs). length (filter p xs))")
    (auto simp: delete_batch_def intro!: delete_some_progress[OF sym])

declare delete_all.simps [simp del]

definition retain_raw :: "(nat \<Rightarrow> bool) \<Rightarrow> instant \<Rightarrow> retention \<Rightarrow> db \<Rightarrow> rollup_error + db \<times> nat" where
  "retain_raw live now r db =
     (if raw_days r \<le> 0 then Inr (db, 0)
      else if live 0 \<and> Fault_delete ''heartbeats'' \<in> db_faults db
        then Inl (Rollup_db (Fault_delete ''heartbeats''))
      else case delete_all live 0 (\<lambda>h. r_time h < micros (add_date utc now 0 0 (- raw_days r))) (db_raw db) of
             (rows, n) \<Rightarrow> Inr (db \<lparr> db_raw := rows \<rparr>, n))"

definition retain_tier :: "(nat \<Rightarrow> bool) \<Rightarrow> instant \<Rightarrow> retention \<Rightarrow> tier \<Rightarrow> db \<Rightarrow> rollup_error + db \<times> nat" where
  "retain_tier live now r t db =
     (if days_for_tier r t = 0 then Inr (db, 0)
      else if live 0 \<and> Fault_delete (tier_name t) \<in> db_faults db
        then Inl (Rollup_db (Fault_delete (tier_name t)))
      else case delete_all live 0 (\<lambda>b. b_start b < millis (add_date utc now 0 0 (- days_for_tier r t)))
                  (db_tiers db (tier_name t)) of
             (rows, n) \<Rightarrow> Inr (set_tier db (tier_name t) rows, n))"

definition delivery_tables :: "string list" where
  "delivery_tables = [''webhook_deliveries'', ''notification_deliveries'']"

definition retain_log :: "(nat \<Rightarrow> bool) \<Rightarrow> instant \<Rightarrow> string \<times> int \<Rightarrow> db \<Rightarrow> rollup_error + db \<times> nat" where
  "retain_log live now entry db =
     (case entry of (table, days) \<Rightarrow>
        if days = 0 then Inr (db, 0)
        else if live 0 \<and> (table \<notin> set delivery_tables \<or> Fault_delete table \<in> db_faults db)
          then Inl (Rollup_db (Fault_delete table))
        else case delete_all live 0 (\<lambda>d. d_created d < millis (add_date utc now 0 0 (- days)))
                    (db_deliveries db table) of
               (rows, n) \<Rightarrow> Inr (db \<lparr> db_deliveries := (db_deliveries db)(table := rows) \<rparr>, n))"

text \<open>The stages of a retention pass in order; a failed stage ends it and keeps what was done.\<close>

fun retain_stages :: "(db \<Rightarrow> rollup_error + db \<times> nat) list \<Rightarrow> db \<Rightarrow> nat \<Rightarrow> rollup_error option \<times> db \<times> nat" where
  "retain_stages [] db freed = (None, db, freed)"
| "retain_stages (f # fs) db freed =
     (case f db of Inl e \<Rightarrow> (Some e, db, freed)
                 | Inr (db', n) \<Rightarrow> retain_stages fs db' (freed + n))"

definition retention_stages :: "(nat \<Rightarrow> bool) \<Rightarrow> instant \<Rightarrow> retention \<Rightarrow> (db \<Rightarrow> rollup_error + db \<times> nat) list" where
  "retention_stages live now r =
     retain_raw live now r # map (retain_tier live now r) tiers @
     map (retain_log live now)
       [(''webhook_deliveries'', webhook_delivery_days r),
        (''notification_deliveries'', notification_delivery_days r)]"

text \<open>
  Space is handed back only when rows went and the database can: the result says how many
  pages the incremental vacuum is asked for, or that the one-time warning is due.
\<close>

datatype reclaim = Reclaim_nothing | Reclaim_warn | Reclaim_silent | Reclaim_pages int | Reclaim_unknown

definition reclaim :: "nat option \<Rightarrow> bool \<Rightarrow> reclaim" where
  "reclaim auto_vacuum warned =
     (case auto_vacuum of
        None \<Rightarrow> Reclaim_unknown
      | Some mode \<Rightarrow> if mode \<noteq> 2 then (if warned then Reclaim_silent else Reclaim_warn)
                     else Reclaim_pages vacuum_pages)"

definition retain ::
  "(nat \<Rightarrow> bool) \<Rightarrow> nat option \<Rightarrow> bool \<Rightarrow> db \<Rightarrow> retention \<Rightarrow> instant \<Rightarrow>
     rollup_error option \<times> db \<times> reclaim" where
  "retain live auto_vacuum warned db r now =
     (case retain_stages (retention_stages live now r) db 0 of
        (Some e, db', _) \<Rightarrow> (Some e, db', Reclaim_nothing)
      | (None, db', freed) \<Rightarrow>
          (None, db', if 0 < freed then reclaim auto_vacuum warned else Reclaim_nothing))"

section \<open>Purging what deleted monitors left\<close>

text \<open>\<open>ORDER BY requested_at, entity_id LIMIT 1\<close>; the queue is kept in that order.\<close>

definition enqueue_purge :: "int \<Rightarrow> ident \<Rightarrow> db \<Rightarrow> db" where
  "enqueue_purge at_ms i db =
     (if i \<in> snd ` set (db_purges db) then db
      else db \<lparr> db_purges := db_purges db @ [(at_ms, i)] \<rparr>)"

text \<open>
  One batch from the first table that still has rows of the entity; the entry leaves the queue
  when every table comes back empty.
\<close>

fun purge_tiers :: "ident \<Rightarrow> nat \<Rightarrow> tier list \<Rightarrow> db \<Rightarrow> (db \<times> nat) option" where
  "purge_tiers i limit [] db = None"
| "purge_tiers i limit (t # ts) db =
     (case delete_some (\<lambda>b. b_monitor b = i) limit (db_tiers db (tier_name t)) of
        (rows, n) \<Rightarrow> if 0 < n then Some (set_tier db (tier_name t) rows, n)
                     else purge_tiers i limit ts db)"

definition purge_tables :: "ident \<Rightarrow> nat \<Rightarrow> db \<Rightarrow> (db \<times> nat) option" where
  "purge_tables i limit db =
     (case delete_some (\<lambda>h. r_monitor h = i) limit (db_raw db) of
        (rows, n) \<Rightarrow> if 0 < n then Some (db \<lparr> db_raw := rows \<rparr>, n)
                     else purge_tiers i limit tiers db)"

definition purge_next :: "nat \<Rightarrow> db \<Rightarrow> rollup_error + db \<times> nat \<times> bool" where
  "purge_next limit db =
     (if Fault_purge \<in> db_faults db then Inl (Rollup_db Fault_purge)
      else case db_purges db of
             [] \<Rightarrow> Inr (db, 0, True)
           | (_, i) # rest \<Rightarrow>
               (case purge_tables i limit db of
                  Some (db', n) \<Rightarrow> Inr (db', n, False)
                | None \<Rightarrow> Inr (db \<lparr> db_purges := rest \<rparr>, 0, False)))"

text \<open>What is left to do: every row of the database and every entry of the queue.\<close>

definition purge_work :: "db \<Rightarrow> nat" where
  "purge_work db =
     length (db_raw db) + sum_list (map (\<lambda>t. length (db_tiers db (tier_name t))) tiers) +
     length (db_purges db)"

lemma delete_some_size: "length (fst (delete_some p limit xs)) + snd (delete_some p limit xs) = length xs"
  by (induction xs arbitrary: limit) (auto simp: split_beta)

text \<open>The tables the purge and the tiers share have different names.\<close>

lemma tier_names [simp]:
  "tier_name tier1m = ''1m''" "tier_name tier5m = ''5m''" "tier_name tier1h = ''1h''" "tier_name tier1d = ''1d''"
  by (simp_all add: tier1m_def tier5m_def tier1h_def tier1d_def)

lemma purge_tables_work:
  assumes "purge_tables i limit db = Some (db', n)" shows "purge_work db' < purge_work db"
proof -
  have raw: "delete_some p limit xs = (ys, k) \<Longrightarrow> length ys + k = length xs"
    for p and xs ys :: "hb_row list" and k
    using delete_some_size[of p limit xs] by simp
  have bs: "delete_some p limit xs = (ys, k) \<Longrightarrow> length ys + k = length xs"
    for p and xs ys :: "bucket_row list" and k
    using delete_some_size[of p limit xs] by simp
  show ?thesis
    using assms
    by (auto simp: purge_tables_def purge_work_def tiers_def set_tier_def split: prod.splits if_splits
        dest!: raw bs)
qed

lemma purge_next_work:
  assumes "purge_next limit db = Inr (db', n, done)" "\<not> done" shows "purge_work db' < purge_work db"
  using assms purge_tables_work
  by (fastforce simp: purge_next_def purge_work_def split: if_splits list.splits option.splits)

function purge :: "(nat \<Rightarrow> bool) \<Rightarrow> nat \<Rightarrow> db \<Rightarrow> rollup_error option \<times> db" where
  "purge live k db =
     (case purge_next purge_batch db of
        Inl e \<Rightarrow> (Some e, db)
      | Inr (db', _, finished) \<Rightarrow>
          if finished \<or> \<not> live k then (None, db') else purge live (k + 1) db')"
  by pat_completeness auto

termination
  by (relation "measure (\<lambda>(live, k, db). purge_work db)") (auto intro: purge_next_work)

declare purge.simps [simp del]

section \<open>The uptime cache\<close>

definition uptime_windows :: "(string \<times> int \<times> string) list" where
  "uptime_windows =
     [(''24h'', 24 * hour, ''5m''), (''7d'', 7 * 24 * hour, ''1h''), (''30d'', 30 * 24 * hour, ''1d''),
      (''90d'', 90 * 24 * hour, ''1d''), (''365d'', 365 * 24 * hour, ''1d'')]"

definition cache_row_for :: "db \<Rightarrow> instant \<Rightarrow> string \<times> int \<times> string \<Rightarrow> ident \<times> int \<Rightarrow> cache_row" where
  "cache_row_for db now w m =
     (case (w, m) of ((name, width, tier), (i, interval_seconds)) \<Rightarrow>
        let bs = filter (\<lambda>b. b_monitor b = i \<and> millis (now - width) \<le> b_start b) (db_tiers db tier);
            up = sum_list (map b_up bs); down = sum_list (map b_down bs)
        in \<lparr> c_monitor = i, c_window = name,
             c_ratio = (if 0 < up + down then Some (float_div (float_of_int up) (float_of_int (up + down)))
                        else None),
             c_total = up + down, c_down = down, c_downtime = down * interval_seconds,
             c_computed = millis now \<rparr>)"

fun cache_upsert :: "cache_row list \<Rightarrow> cache_row \<Rightarrow> cache_row list" where
  "cache_upsert [] c = [c]"
| "cache_upsert (x # xs) c =
     (if c_monitor x = c_monitor c \<and> c_window x = c_window c then c # xs else x # cache_upsert xs c)"

definition refresh_uptime_cache :: "db \<Rightarrow> instant \<Rightarrow> rollup_error + db" where
  "refresh_uptime_cache db now =
     (if Fault_cache \<in> db_faults db then Inl (Rollup_db Fault_cache)
      else Inr (db \<lparr> db_cache :=
             foldl cache_upsert (db_cache db)
               (concat (map (\<lambda>w. map (cache_row_for db now w) (db_monitors db)) uptime_windows)) \<rparr>))"

section \<open>The whole pass\<close>

record runner =
  rn_retention :: retention
  rn_warned :: bool
  rn_last_cache :: instant

text \<open>
  Every stage runs whatever became of the one before; the errors are what is logged. The cache
  is refreshed on its own cadence, and only a refresh that worked moves its clock.
\<close>

definition run_pass ::
  "(nat \<Rightarrow> bool) \<Rightarrow> nat option \<Rightarrow> runner \<Rightarrow> db \<Rightarrow> instant \<Rightarrow> runner \<times> db \<times> rollup_error list \<times> reclaim" where
  "run_pass live auto_vacuum rn db now =
     (case rollup_run db now of (e1, db1) \<Rightarrow>
      case retain live auto_vacuum (rn_warned rn) db1 (rn_retention rn) now of (e2, db2, rc) \<Rightarrow>
      case purge live 0 db2 of (e3, db3) \<Rightarrow>
        let rn1 = (if rc = Reclaim_warn then rn \<lparr> rn_warned := True \<rparr> else rn);
            errs = List.map_filter id [e1, e2, e3]
        in if cache_interval \<le> time_sub now (rn_last_cache rn) then
             (case refresh_uptime_cache db3 now of
                Inl e \<Rightarrow> (rn1, db3, errs @ [e], rc)
              | Inr db4 \<Rightarrow> (rn1 \<lparr> rn_last_cache := now \<rparr>, db4, errs, rc))
           else (rn1, db3, errs, rc))"

section \<open>Tables written by upsert\<close>

text \<open>
  What an upsert promises about lookups by key, and what follows for a batch of them: the
  contract behind the recomputation of a trailing window, met by the bucket tables and by the
  uptime cache.
\<close>

locale upsert_table =
  fixes put :: "'s \<Rightarrow> 'r \<Rightarrow> 's"
    and get :: "'s \<Rightarrow> 'k \<Rightarrow> 'r option"
    and key :: "'r \<Rightarrow> 'k"
    and merge :: "'r option \<Rightarrow> 'r \<Rightarrow> 'r"
  assumes get_put: "get (put s r) k = (if k = key r then Some (merge (get s k) r) else get s k)"
    and merge_again: "merge (Some (merge old r)) r = merge old r"
begin

lemma put_all_other: "k \<notin> key ` set rs \<Longrightarrow> get (foldl put s rs) k = get s k"
  by (induction rs arbitrary: s) (auto simp: get_put)

lemma put_all_get:
  "distinct (map key rs) \<Longrightarrow> r \<in> set rs \<Longrightarrow>
     get (foldl put s rs) (key r) = Some (merge (get s (key r)) r)"
proof (induction rs arbitrary: s)
  case (Cons x rs)
  show ?case
  proof (cases "r = x")
    case True
    with Cons.prems(1) have "get (foldl put (put s x) rs) (key r) = get (put s x) (key r)"
      by (intro put_all_other) simp
    with True show ?thesis by (simp add: get_put)
  next
    case False
    with Cons.prems have "r \<in> set rs" "key r \<noteq> key x" by (auto simp: image_iff)
    with Cons.IH[of "put s x"] Cons.prems(1) show ?thesis by (simp add: get_put)
  qed
qed simp

lemma put_all_again:
  assumes "distinct (map key rs)"
  shows "get (foldl put (foldl put s rs) rs) k = get (foldl put s rs) k"
proof (cases "k \<in> key ` set rs")
  case True
  then obtain r where "r \<in> set rs" "k = key r" by auto
  with put_all_get[OF assms, of r] show ?thesis by (simp add: merge_again)
next
  case False
  then show ?thesis by (simp add: put_all_other)
qed

end

definition bucket_lookup :: "bucket_row list \<Rightarrow> bucket_key \<Rightarrow> bucket_row option" where
  "bucket_lookup table k = find (\<lambda>b. bucket_key b = k) table"

definition keep_org :: "bucket_row option \<Rightarrow> bucket_row \<Rightarrow> bucket_row" where
  "keep_org old b = (case old of Some x \<Rightarrow> b \<lparr> b_org := b_org x \<rparr> | None \<Rightarrow> b)"

lemma bucket_key_org [simp]: "bucket_key (b \<lparr> b_org := i \<rparr>) = bucket_key b"
  by (simp add: bucket_key_def)

lemma bucket_lookup_upsert:
  "bucket_lookup (upsert table b) k =
     (if k = bucket_key b then Some (keep_org (bucket_lookup table k) b) else bucket_lookup table k)"
  by (induction table) (auto simp: bucket_lookup_def keep_org_def)

interpretation buckets: upsert_table upsert bucket_lookup bucket_key keep_org
  by unfold_locales (auto simp: bucket_lookup_upsert keep_org_def split: option.splits)

definition cache_key :: "cache_row \<Rightarrow> ident \<times> string" where
  "cache_key c = (c_monitor c, c_window c)"

definition cache_lookup :: "cache_row list \<Rightarrow> ident \<times> string \<Rightarrow> cache_row option" where
  "cache_lookup table k = find (\<lambda>c. cache_key c = k) table"

lemma cache_lookup_upsert:
  "cache_lookup (cache_upsert table c) k = (if k = cache_key c then Some c else cache_lookup table k)"
  by (induction table) (auto simp: cache_lookup_def cache_key_def)

interpretation cache: upsert_table cache_upsert cache_lookup cache_key "\<lambda>_ c. c"
  by unfold_locales (auto simp: cache_lookup_upsert)

end
