(* ===== verification/RollupFacts.thy ===== *)
theory RollupFacts
  imports Rollup "HOL-Library.Multiset"
begin

text \<open>
  What the aggregates of a pass rest on: the buckets it computes are closed and aligned to the
  tier's width, and sums, extremes and percentiles of a partition follow from those of its parts.
\<close>

section \<open>Buckets\<close>

lemma go_div_floor:
  assumes "0 < n"
  shows "(if s < 0 \<and> go_div s n * n \<noteq> s then go_div s n * n - n else go_div s n * n) = s div n * (n::int)"
proof (cases "s < 0")
  case True
  have g: "go_div s n = - ((- s) div n)" using True assms by (simp add: go_div_def)
  show ?thesis
  proof (cases "n dvd s")
    case True
    then have "(- s) div n * n = - s" "s div n * n = s" by simp_all
    then show ?thesis by (simp add: g)
  next
    case False
    then have e: "(- s) div n = - (s div n) - 1"
      using assms by (subst zdiv_zminus1_eq_if) (simp_all add: mod_eq_0_iff_dvd)
    have "go_div s n * n \<noteq> s" using False by (metis dvd_triv_right)
    with \<open>s < 0\<close> have "(if s < 0 \<and> go_div s n * n \<noteq> s then go_div s n * n - n else go_div s n * n) =
      go_div s n * n - n" by simp
    also have "\<dots> = s div n * n" unfolding g e by (simp add: algebra_simps)
    finally show ?thesis .
  qed
next
  case False
  with assms show ?thesis by (simp add: go_div_nonneg)
qed

lemma bucket_floor:
  assumes "interval = n * second" "0 < n"
  shows "bucket t interval = t div interval * interval"
proof -
  have step: "go_div interval second = n"
    using assms by (simp add: second_def go_div_nonneg)
  have "bucket t interval = unix_sec t div n * n * second"
    using go_div_floor[OF assms(2), of "unix_sec t"] by (simp add: bucket_def step Let_def)
  also have "unix_sec t div n = t div interval"
    using assms by (simp add: unix_sec_def second_def mult.commute zdiv_zmult2_eq[symmetric])
  finally show ?thesis using assms(1) by (simp add: mult.assoc)
qed

lemma tier_intervals:
  assumes "t \<in> set tiers"
  obtains n where "tier_interval t = n * minute" "1 \<le> n" "n \<le> 1440"
  using assms by (auto simp: tiers_def tier1m_def tier5m_def tier1h_def tier1d_def minute_def hour_def)

lemma tier_bucket_floor:
  assumes "t \<in> set tiers" shows "bucket x (tier_interval t) = x div tier_interval t * tier_interval t"
proof -
  from assms obtain n where n: "tier_interval t = n * minute" "1 \<le> n" by (rule tier_intervals)
  show ?thesis
    by (rule bucket_floor[of _ "n * 60"]) (use n in \<open>simp_all add: minute_def second_def\<close>)
qed

text \<open>Whatever the tier holds, a pass computes only buckets that closed at least thirty seconds
  ago, from the start of a bucket to the start of a bucket, and never more than two thousand of
  them.\<close>

theorem window_is_closed_and_bounded:
  assumes "rollup_window db t now = Inr (start, stop)" "t \<in> set tiers"
  shows "start mod tier_interval t = 0 \<and> stop mod tier_interval t = 0 \<and> stop \<le> now - rollup_grace \<and>
    stop - start \<le> max_buckets_per_run * tier_interval t"
proof -
  have pos: "0 < tier_interval t"
    using assms(2) by (rule tier_intervals) (simp add: minute_def)
  have al: "bucket x (tier_interval t) mod tier_interval t = 0" for x
    by (simp add: tier_bucket_floor[OF assms(2)])
  have le: "bucket x (tier_interval t) \<le> x" for x
    using pos by (simp add: tier_bucket_floor[OF assms(2)])
      (metis le_add_same_cancel1 minus_mod_eq_div_mult mod_by_0 add.commute div_mult_mod_eq pos_mod_sign)
  have cu: "start mod tier_interval t = 0 \<and> stop mod tier_interval t = 0 \<and> stop \<le> now - rollup_grace \<and>
    stop - start \<le> max_buckets_per_run * tier_interval t"
    if "catch_up t e (bucket (now - rollup_grace) (tier_interval t)) = (start, stop)" for e
    using that al[of e] al[of "now - rollup_grace"] le[of "now - rollup_grace"]
    by (auto simp: catch_up_def Let_def mod_add_eq split: if_splits)
  from assms(1) show ?thesis
    using cu al le pos
    by (auto simp: rollup_window_def Let_def and_then_Inr max_buckets_per_run_def split: option.splits)
qed

section \<open>Aggregates of a partition\<close>

text \<open>Every aggregate is a function of the multiset of its input.\<close>

lemma count_status_mset: "mset xs = mset ys \<Longrightarrow> count_status s xs = count_status s ys"
  unfolding count_status_def by (metis mset_filter size_mset)

lemma values_of_mset: "mset xs = mset ys \<Longrightarrow> mset (values_of f xs) = mset (values_of f ys)"
  by (simp add: values_of_def List.map_filter_def mset_map mset_filter[symmetric]
      flip: mset_filter) (metis mset_filter mset_map)

lemma sql_sum_mset: "mset xs = mset ys \<Longrightarrow> sql_sum xs = sql_sum ys"
  by (auto simp: sql_sum_def sum_mset_sum_list[symmetric] dest: mset_eq_setD)

lemma sql_min_mset: "mset xs = mset ys \<Longrightarrow> sql_min xs = sql_min ys"
  by (auto simp: sql_min_def dest: mset_eq_setD)

lemma sql_max_mset: "mset xs = mset ys \<Longrightarrow> sql_max xs = sql_max ys"
  by (auto simp: sql_max_def dest: mset_eq_setD)

lemma nearest_rank_mset: "mset xs = mset ys \<Longrightarrow> nearest_rank_p95 xs = nearest_rank_p95 ys"
  unfolding nearest_rank_p95_def by (metis mset_zero_iff_right size_mset properties_for_sort mset_sort sorted_sort)

lemma values_of_concat: "values_of f (concat xss) = concat (map (values_of f) xss)"
  by (induction xss) (simp_all add: values_of_def List.map_filter_def)

lemma values_of_Some:
  "values_of f xs = map (\<lambda>x. the (f x)) (filter (\<lambda>x. f x \<noteq> None) xs)"
  by (simp add: values_of_def List.map_filter_def comp_def)

lemma count_status_concat:
  "count_status s (concat (map part bs)) = sum_list (map (\<lambda>b. count_status s (part b)) bs)"
  by (induction bs) (simp_all add: count_status_def)

text \<open>Sums, least and greatest values of the parts are those of the whole.\<close>

lemma values_of_parts_nil:
  "(\<And>b. b \<in> set bs \<Longrightarrow> f b = None \<longleftrightarrow> part b = []) \<Longrightarrow>
     values_of f bs = [] \<longleftrightarrow> concat (map part bs) = []"
  by (auto simp: values_of_Some filter_empty_conv)

lemma sql_sum_parts:
  assumes "\<And>b. b \<in> set bs \<Longrightarrow> f b = sql_sum (part b)"
  shows "sql_sum (values_of f bs) = sql_sum (concat (map part bs))"
proof -
  have "sum_list (values_of f bs) = sum_list (concat (map part bs))"
    using assms by (induction bs) (auto simp: values_of_Some sql_sum_def split: if_splits)
  moreover have "values_of f bs = [] \<longleftrightarrow> concat (map part bs) = []"
    by (rule values_of_parts_nil) (simp add: assms sql_sum_def)
  ultimately show ?thesis by (simp add: sql_sum_def)
qed

lemma sql_min_parts:
  assumes "\<And>b. b \<in> set bs \<Longrightarrow> f b = sql_min (part b)"
  shows "sql_min (values_of f bs) = sql_min (concat (map part bs))"
proof (cases "concat (map part bs) = []")
  case True
  moreover have "values_of f bs = [] \<longleftrightarrow> concat (map part bs) = []"
    by (rule values_of_parts_nil) (simp add: assms sql_min_def)
  ultimately show ?thesis by (simp only: sql_min_def refl if_True simp_thms)
next
  case False
  then have ne: "values_of f bs \<noteq> []"
    using assms by (auto simp: values_of_Some filter_empty_conv sql_min_def)
  have mem: "set (values_of f bs) = (\<lambda>b. Min (set (part b))) ` {b \<in> set bs. part b \<noteq> []}"
    unfolding values_of_Some set_map set_filter
    by (rule image_cong) (auto simp: assms sql_min_def)
  have "Min (set (values_of f bs)) = Min (set (concat (map part bs)))"
  proof (rule antisym)
    have "Min (set (concat (map part bs))) \<in> set (concat (map part bs))" using False by (intro Min_in) auto
    then obtain b where b: "b \<in> set bs" "Min (set (concat (map part bs))) \<in> set (part b)" by auto
    then have "part b \<noteq> []" by auto
    with b have "Min (set (part b)) \<in> set (values_of f bs)" unfolding mem by blast
    then have "Min (set (values_of f bs)) \<le> Min (set (part b))" by simp
    also have "\<dots> \<le> Min (set (concat (map part bs)))" using b by simp
    finally show "Min (set (values_of f bs)) \<le> Min (set (concat (map part bs)))" .
  next
    have "Min (set (values_of f bs)) \<in> set (values_of f bs)" using ne by (intro Min_in) auto
    then obtain b where b: "b \<in> set bs" "part b \<noteq> []" "Min (set (values_of f bs)) = Min (set (part b))"
      unfolding mem by blast
    then have "Min (set (part b)) \<in> set (part b)" by (intro Min_in) auto
    then have mc: "Min (set (part b)) \<in> set (concat (map part bs))" using b(1) by auto
    then show "Min (set (concat (map part bs))) \<le> Min (set (values_of f bs))"
      unfolding b(3) by (intro Min_le) auto
  qed
  with False ne show ?thesis by (simp only: sql_min_def if_False)
qed

lemma sql_max_parts:
  assumes "\<And>b. b \<in> set bs \<Longrightarrow> f b = sql_max (part b)"
  shows "sql_max (values_of f bs) = sql_max (concat (map part bs))"
proof (cases "concat (map part bs) = []")
  case True
  moreover have "values_of f bs = [] \<longleftrightarrow> concat (map part bs) = []"
    by (rule values_of_parts_nil) (simp add: assms sql_max_def)
  ultimately show ?thesis by (simp only: sql_max_def refl if_True simp_thms)
next
  case False
  then have ne: "values_of f bs \<noteq> []"
    using assms by (auto simp: values_of_Some filter_empty_conv sql_max_def)
  have mem: "set (values_of f bs) = (\<lambda>b. Max (set (part b))) ` {b \<in> set bs. part b \<noteq> []}"
    unfolding values_of_Some set_map set_filter
    by (rule image_cong) (auto simp: assms sql_max_def)
  have "Max (set (values_of f bs)) = Max (set (concat (map part bs)))"
  proof (rule antisym)
    have "Max (set (values_of f bs)) \<in> set (values_of f bs)" using ne by (intro Max_in) auto
    then obtain b where b: "b \<in> set bs" "part b \<noteq> []" "Max (set (values_of f bs)) = Max (set (part b))"
      unfolding mem by blast
    then have "Max (set (part b)) \<in> set (part b)" by (intro Max_in) auto
    then have mc: "Max (set (part b)) \<in> set (concat (map part bs))" using b(1) by auto
    then show "Max (set (values_of f bs)) \<le> Max (set (concat (map part bs)))"
      unfolding b(3) by (intro Max_ge) auto
  next
    have "Max (set (concat (map part bs))) \<in> set (concat (map part bs))" using False by (intro Max_in) auto
    then obtain b where b: "b \<in> set bs" "Max (set (concat (map part bs))) \<in> set (part b)" by auto
    then have "part b \<noteq> []" by auto
    with b have m: "Max (set (part b)) \<in> set (values_of f bs)" unfolding mem by blast
    have "Max (set (concat (map part bs))) \<le> Max (set (part b))" using b by simp
    also have "\<dots> \<le> Max (set (values_of f bs))" using m by simp
    finally show "Max (set (concat (map part bs))) \<le> Max (set (values_of f bs))" .
  qed
  with False ne show ?thesis by (simp only: sql_max_def if_False)
qed

text \<open>The nearest-rank percentile: at most \<open>q\<close> exactly when enough measurements are.\<close>

lemma sorted_nth_le_iff:
  "sorted s \<Longrightarrow> i < length s \<Longrightarrow> s ! i \<le> q \<longleftrightarrow> i < length (filter (\<lambda>v. v \<le> q) s)"
  for q :: rat
proof (induction s arbitrary: i)
  case (Cons x s)
  show ?case
  proof (cases "x \<le> q")
    case True
    with Cons show ?thesis by (cases i) auto
  next
    case False
    with Cons.prems(1) have "filter (\<lambda>v. v \<le> q) (x # s) = []" by (auto simp: filter_empty_conv)
    moreover have "\<not> (x # s) ! i \<le> q"
      using False Cons.prems sorted_nth_mono[OF Cons.prems(1), of 0 i] by simp
    ultimately show ?thesis by simp
  qed
qed simp

lemma p95_rank_bounds: "0 < n \<Longrightarrow> 1 \<le> p95_rank n \<and> p95_rank n \<le> n"
  by (auto simp: p95_rank_def)

lemma p95_rank_0 [simp]: "p95_rank 0 = 0"
  by (simp add: p95_rank_def)

lemma p95_rank_add: "p95_rank (a + b) \<le> p95_rank a + p95_rank b"
  by (simp add: p95_rank_def)

lemma nearest_rank_le_iff:
  assumes "nearest_rank_p95 vs = Some p"
  shows "p \<le> q \<longleftrightarrow> p95_rank (length vs) \<le> length (filter (\<lambda>v. v \<le> q) vs)"
proof -
  have ne: "vs \<noteq> []" and p: "p = sort vs ! (p95_rank (length vs) - 1)"
    using assms by (auto simp: nearest_rank_p95_def split: if_splits)
  have r: "1 \<le> p95_rank (length vs)" "p95_rank (length vs) \<le> length vs"
    using p95_rank_bounds[of "length vs"] ne by auto
  have "length (filter (\<lambda>v. v \<le> q) (sort vs)) = length (filter (\<lambda>v. v \<le> q) vs)"
    by (metis mset_filter mset_sort size_mset)
  with sorted_nth_le_iff[of "sort vs" "p95_rank (length vs) - 1" q] r show ?thesis
    unfolding p by auto
qed

text \<open>The largest of the parts' percentiles never understates the percentile of the whole.\<close>

lemma p95_parts:
  assumes part: "\<And>b. b \<in> set bs \<Longrightarrow> (f b = None \<longleftrightarrow> part b = []) \<and>
      (\<forall>q p. f b = Some q \<longrightarrow> nearest_rank_p95 (part b) = Some p \<longrightarrow> p \<le> q)"
    and m: "sql_max (values_of f bs) = Some hi"
    and p: "nearest_rank_p95 (concat (map part bs)) = Some p"
  shows "p \<le> hi"
proof -
  have "p95_rank (length (part b)) \<le> length (filter (\<lambda>v. v \<le> hi) (part b))" if b: "b \<in> set bs" for b
  proof (cases "part b = []")
    case False
    with part[OF b] obtain q where q: "f b = Some q" by blast
    from False obtain pb where pb: "nearest_rank_p95 (part b) = Some pb" by (simp add: nearest_rank_p95_def)
    have "q \<in> set (values_of f bs)" using b q by (force simp: values_of_Some)
    then have "q \<le> hi" using m by (auto simp: sql_max_def split: if_splits)
    moreover have "pb \<le> q" using part[OF b] q pb by blast
    ultimately have "pb \<le> hi" by simp
    then show ?thesis using nearest_rank_le_iff[OF pb] by simp
  qed simp
  then have "p95_rank (length (concat (map part bs))) \<le> length (filter (\<lambda>v. v \<le> hi) (concat (map part bs)))"
  proof (induction bs)
    case (Cons b bs)
    have "p95_rank (length (part b) + length (concat (map part bs))) \<le>
        p95_rank (length (part b)) + p95_rank (length (concat (map part bs)))"
      by (rule p95_rank_add)
    with Cons.IH Cons.prems[of b] Cons.prems show ?case by fastforce
  qed simp
  then show ?thesis using nearest_rank_le_iff[OF p] by simp
qed

text \<open>Rows split by a key are the rows again.\<close>

lemma mset_split_by_key:
  "distinct ks \<Longrightarrow>
     mset (concat (map (\<lambda>k. filter (\<lambda>r. key r = k) rows) ks)) = mset (filter (\<lambda>r. key r \<in> set ks) rows)"
proof (induction ks)
  case (Cons k ks)
  have "mset (filter (\<lambda>r. key r \<in> set (k # ks)) rows) =
      mset (filter (\<lambda>r. key r = k) rows) + mset (filter (\<lambda>r. key r \<in> set ks) rows)"
    using Cons.prems by (induction rows) auto
  with Cons show ?case by simp
qed simp

lemma group_rows_keys [simp]: "map fst (group_rows key rows) = remdups (map key rows)"
  by (simp add: group_rows_def comp_def)

lemma bucket_lookup_groups:
  assumes "\<And>k rs. bucket_key (f k rs) = k"
  shows "bucket_lookup (map (\<lambda>(k, rs). f k rs) (group_rows key rows)) k =
    (if k \<in> key ` set rows then Some (f k (filter (\<lambda>r. key r = k) rows)) else None)"
proof -
  have "find (\<lambda>b. bucket_key b = k) (map (\<lambda>k. f k (filter (\<lambda>r. key r = k) rows)) ks) =
    (if k \<in> set ks then Some (f k (filter (\<lambda>r. key r = k) rows)) else None)" for ks
    by (induction ks) (auto simp: assms)
  from this[of "remdups (map key rows)"] show ?thesis
    by (simp add: bucket_lookup_def group_rows_def comp_def)
qed

lemma distinct_groups:
  "(\<And>k rs. bucket_key (f k rs) = k) \<Longrightarrow>
     distinct (map bucket_key (map (\<lambda>(k, rs). f k rs) (group_rows key rows)))"
  by (simp add: group_rows_def comp_def)

lemma aggregate_keys [simp]:
  "bucket_key (aggregate_raw k rs) = k" "bucket_key (aggregate_buckets k bs) = k"
  by (simp_all add: bucket_key_def aggregate_raw_def aggregate_buckets_def Let_def)

end
