(* ===== verification/RollupExact.thy ===== *)
theory RollupExact
  imports RollupFacts
begin

text \<open>
  The chain of tiers against the raw rows: each tier, built from the one below it, says what an
  aggregation of the raw rows would have said, except that a coarser percentile may overstate.
  And recomputing a range that was computed changes nothing.
\<close>

section \<open>Bucket starts\<close>

lemma tier_bucket_nonneg:
  "0 \<le> ms \<Longrightarrow> 0 < i div 1000000 \<Longrightarrow> tier_bucket i ms = ms div (i div 1000000) * (i div 1000000)"
  by (simp add: tier_bucket_def go_div_nonneg)

lemma tier_bucket_twice:
  assumes "0 \<le> ms" "0 < i div 1000000" "i div 1000000 dvd j div 1000000" "0 < j div 1000000"
  shows "tier_bucket j (tier_bucket i ms) = tier_bucket j ms"
proof -
  let ?i = "i div 1000000" and ?j = "j div 1000000"
  obtain q where q: "?j = ?i * q" using assms(3) by (auto simp: dvd_def)
  have "0 \<le> ms div ?i * ?i" using assms by (simp add: pos_imp_zdiv_nonneg_iff)
  then have "tier_bucket j (tier_bucket i ms) = (ms div ?i * ?i) div ?j * ?j"
    using assms by (simp add: tier_bucket_nonneg)
  also have "(ms div ?i * ?i) div ?j = ms div ?j"
  proof -
    have "0 \<le> q" using assms(2,4) q by (simp add: zero_less_mult_iff)
    then show ?thesis using assms(2) by (simp add: q zdiv_zmult2_eq)
  qed
  finally show ?thesis using assms by (simp add: tier_bucket_nonneg)
qed

text \<open>The key of a raw row at a resolution.\<close>

definition raw_key_at :: "int \<Rightarrow> hb_row \<Rightarrow> bucket_key" where
  "raw_key_at i r = (r_monitor r, tier_bucket i (raw_bucket r))"

definition rows_at :: "int \<Rightarrow> hb_row list \<Rightarrow> bucket_key \<Rightarrow> hb_row list" where
  "rows_at i rows k = filter (\<lambda>r. raw_key_at i r = k) rows"

lemma raw_bucket_nonneg: "0 \<le> r_time r \<Longrightarrow> raw_bucket r = r_time r div 60000000 * 60000"
  by (simp add: raw_bucket_def go_div_nonneg)

lemma raw_key_at_minute: "0 \<le> r_time r \<Longrightarrow> raw_key_at minute r = raw_key r"
  by (simp add: raw_key_at_def raw_key_def raw_bucket_nonneg tier_bucket_nonneg minute_def)

section \<open>Exactness\<close>

text \<open>A stored bucket against the aggregate of the raw rows it stands for.\<close>

definition agrees :: "bucket_row \<Rightarrow> bucket_row \<Rightarrow> bool" where
  "agrees b d =
     (bucket_key b = bucket_key d \<and>
      (b_up b, b_down b, b_pending b, b_maintenance b, b_unknown b, b_skipped b) =
        (b_up d, b_down d, b_pending d, b_maintenance d, b_unknown d, b_skipped d) \<and>
      (b_rt_sum b, b_rt_count b, b_rt_min b, b_rt_max b) =
        (b_rt_sum d, b_rt_count d, b_rt_min d, b_rt_max d) \<and>
      (b_rt_p95 b = None \<longleftrightarrow> b_rt_p95 d = None) \<and>
      (\<forall>q p. b_rt_p95 b = Some q \<longrightarrow> b_rt_p95 d = Some p \<longrightarrow> p \<le> q))"

definition exact_tier :: "int \<Rightarrow> hb_row list \<Rightarrow> bucket_row list \<Rightarrow> bool" where
  "exact_tier i rows table =
     (distinct (map bucket_key table) \<and>
      (\<forall>b \<in> set table. rows_at i rows (bucket_key b) \<noteq> [] \<and>
         agrees b (aggregate_raw (bucket_key b) (rows_at i rows (bucket_key b)))) \<and>
      (\<forall>r \<in> set rows. raw_key_at i r \<in> bucket_key ` set table))"

lemma agrees_refl: "agrees b b"
  by (auto simp: agrees_def)

lemma group_member:
  "x \<in> set (map (\<lambda>(k, rs). f k rs) (group_rows key rows)) \<longleftrightarrow>
     (\<exists>k \<in> key ` set rows. x = f k (filter (\<lambda>r. key r = k) rows))"
  by (auto simp: group_rows_def)

lemma exact_raw:
  assumes "\<forall>r \<in> set rows. 0 \<le> r_time r"
  shows "exact_tier minute rows (map (\<lambda>(k, rs). aggregate_raw k rs) (group_rows raw_key rows))"
proof -
  have key: "raw_key_at minute r = raw_key r" if "r \<in> set rows" for r
    using assms that by (simp add: raw_key_at_minute)
  then have rows: "rows_at minute rows k = filter (\<lambda>r. raw_key r = k) rows" for k
    unfolding rows_at_def by (intro filter_cong) auto
  show ?thesis
    unfolding exact_tier_def
  proof (intro conjI ballI)
    show "distinct (map bucket_key (map (\<lambda>(k, rs). aggregate_raw k rs) (group_rows raw_key rows)))"
      by (rule distinct_groups) simp
  next
    fix b assume "b \<in> set (map (\<lambda>(k, rs). aggregate_raw k rs) (group_rows raw_key rows))"
    then obtain k where k: "k \<in> raw_key ` set rows"
      and b: "b = aggregate_raw k (filter (\<lambda>r. raw_key r = k) rows)"
      unfolding group_member by blast
    have bk: "bucket_key b = k" by (simp add: b)
    show "rows_at minute rows (bucket_key b) \<noteq> []"
      unfolding bk rows using k by (auto simp: filter_empty_conv)
    show "agrees b (aggregate_raw (bucket_key b) (rows_at minute rows (bucket_key b)))"
      unfolding bk rows by (simp add: b agrees_refl)
  next
    fix r assume r: "r \<in> set rows"
    then have "aggregate_raw (raw_key r) (filter (\<lambda>x. raw_key x = raw_key r) rows) \<in>
        set (map (\<lambda>(k, rs). aggregate_raw k rs) (group_rows raw_key rows))"
      unfolding group_member by blast
    then have "bucket_key (aggregate_raw (raw_key r) (filter (\<lambda>x. raw_key x = raw_key r) rows)) \<in>
        bucket_key ` set (map (\<lambda>(k, rs). aggregate_raw k rs) (group_rows raw_key rows))"
      by (rule imageI)
    then show "raw_key_at minute r \<in>
        bucket_key ` set (map (\<lambda>(k, rs). aggregate_raw k rs) (group_rows raw_key rows))"
      using key[OF r] by simp
  qed
qed

text \<open>The aggregate of a partition of the rows, up to the percentile.\<close>

lemma aggregate_parts:
  assumes part: "\<And>b. b \<in> set bs \<Longrightarrow> agrees b (aggregate_raw (bucket_key b) (part b))"
    and rows: "mset (concat (map part bs)) = mset rows"
  shows "agrees (aggregate_buckets k bs) (aggregate_raw k rows)"
proof -
  let ?R = "concat (map part bs)" and ?vs = "\<lambda>b. values_of measured_response (part b)"
  note cs = count_status_mset[OF rows]
  have vals: "mset (concat (map ?vs bs)) = mset (values_of measured_response rows)"
    using values_of_mset[OF rows, of measured_response] by (simp add: values_of_concat comp_def)
  have counts: "sum_list (map f bs) = count_status s rows"
    if "\<And>b. b \<in> set bs \<Longrightarrow> f b = count_status s (part b)" for f s
    unfolding cs[symmetric] count_status_concat using that by (induction bs) auto
  have parts: "b_up b = count_status 1 (part b)" "b_down b = count_status 0 (part b)"
    "b_pending b = count_status 2 (part b)" "b_maintenance b = count_status 3 (part b)"
    "b_unknown b = count_status 4 (part b)" "b_skipped b = count_status 5 (part b)"
    "b_rt_sum b = sql_sum (?vs b)" "b_rt_count b = int (length (?vs b))"
    "b_rt_min b = sql_min (?vs b)" "b_rt_max b = sql_max (?vs b)"
    "(b_rt_p95 b = None \<longleftrightarrow> ?vs b = []) \<and>
     (\<forall>q p. b_rt_p95 b = Some q \<longrightarrow> nearest_rank_p95 (?vs b) = Some p \<longrightarrow> p \<le> q)"
    if "b \<in> set bs" for b
    using part[OF that]
    by (auto simp: agrees_def aggregate_raw_def Let_def nearest_rank_p95_def)
  have len: "sum_list (map b_rt_count bs) = int (length (values_of measured_response rows))"
  proof -
    have "sum_list (map b_rt_count bs) = int (length (concat (map ?vs bs)))"
      using parts(8) by (induction bs) auto
    then show ?thesis using vals by (metis size_mset)
  qed
  have s: "sql_sum (values_of b_rt_sum bs) = sql_sum (values_of measured_response rows)"
    using sql_sum_parts[of bs b_rt_sum ?vs] parts(7) sql_sum_mset[OF vals] by simp
  have lo: "sql_min (values_of b_rt_min bs) = sql_min (values_of measured_response rows)"
    using sql_min_parts[of bs b_rt_min ?vs] parts(9) sql_min_mset[OF vals] by simp
  have hi: "sql_max (values_of b_rt_max bs) = sql_max (values_of measured_response rows)"
    using sql_max_parts[of bs b_rt_max ?vs] parts(10) sql_max_mset[OF vals] by simp
  have p: "nearest_rank_p95 (concat (map ?vs bs)) = nearest_rank_p95 (values_of measured_response rows)"
    by (rule nearest_rank_mset[OF vals])
  have none: "sql_max (values_of b_rt_p95 bs) = None \<longleftrightarrow>
      nearest_rank_p95 (values_of measured_response rows) = None"
    unfolding p[symmetric] using values_of_parts_nil[of bs b_rt_p95 ?vs] parts(11)
    by (simp add: sql_max_def nearest_rank_p95_def)
  have le: "pr \<le> q" if "sql_max (values_of b_rt_p95 bs) = Some q"
      "nearest_rank_p95 (values_of measured_response rows) = Some pr" for q pr
    using p95_parts[of bs b_rt_p95 ?vs q pr] parts(11) that p by simp
  show ?thesis
    using counts[of b_up 1] counts[of b_down 0] counts[of b_pending 2] counts[of b_maintenance 3]
      counts[of b_unknown 4] counts[of b_skipped 5] parts(1-6) len s lo hi none le
    by (simp add: agrees_def aggregate_buckets_def aggregate_raw_def bucket_key_def Let_def)
qed

section \<open>The chain\<close>

lemma exact_tier_key:
  assumes "exact_tier i rows table" "b \<in> set table" "\<forall>r \<in> set rows. 0 \<le> r_time r"
    "0 < i div 1000000" "i div 1000000 dvd j div 1000000" "0 < j div 1000000"
    "r \<in> set rows" "raw_key_at i r = bucket_key b"
  shows "tier_key j b = raw_key_at j r"
proof -
  have nn: "0 \<le> raw_bucket r"
    using assms(3,7) by (simp add: raw_bucket_nonneg pos_imp_zdiv_nonneg_iff)
  have "b_monitor b = r_monitor r" "b_start b = tier_bucket i (raw_bucket r)"
    using assms(8) by (simp_all add: raw_key_at_def bucket_key_def)
  then show ?thesis
    using tier_bucket_twice[OF nn assms(4-6)] by (simp add: tier_key_def raw_key_at_def)
qed

lemma exact_coarser:
  assumes ex: "exact_tier i rows table" and nn: "\<forall>r \<in> set rows. 0 \<le> r_time r"
    and ij: "0 < i div 1000000" "i div 1000000 dvd j div 1000000" "0 < j div 1000000"
  shows "exact_tier j rows (map (\<lambda>(k, bs). aggregate_buckets k bs) (group_rows (tier_key j) table))"
    (is "exact_tier j rows ?T")
proof -
  note key = exact_tier_key[OF ex _ nn ij]
  have cover: "\<exists>b \<in> set table. raw_key_at i r = bucket_key b \<and> tier_key j b = raw_key_at j r"
    if "r \<in> set rows" for r
    using ex that key by (fastforce simp: exact_tier_def)
  have one: "rows_at j rows k \<noteq> [] \<and>
      agrees (aggregate_buckets k (filter (\<lambda>b. tier_key j b = k) table)) (aggregate_raw k (rows_at j rows k))"
    if k: "k \<in> tier_key j ` set table" for k
  proof
    let ?bs = "filter (\<lambda>b. tier_key j b = k) table"
    from k obtain b where b: "b \<in> set table" "tier_key j b = k" by blast
    with ex have "rows_at i rows (bucket_key b) \<noteq> []" by (simp add: exact_tier_def)
    then obtain r where "r \<in> set rows" "raw_key_at i r = bucket_key b"
      by (auto simp: rows_at_def filter_empty_conv)
    with key[OF b(1)] b(2) show "rows_at j rows k \<noteq> []" by (auto simp: rows_at_def filter_empty_conv)
    have same: "raw_key_at i r \<in> set (map bucket_key ?bs) \<longleftrightarrow> raw_key_at j r = k" if "r \<in> set rows" for r
      using cover[OF that] key[OF _ that] by force
    have "mset (concat (map (\<lambda>b. rows_at i rows (bucket_key b)) ?bs)) =
        mset (filter (\<lambda>r. raw_key_at i r \<in> set (map bucket_key ?bs)) rows)"
    proof -
      have "distinct (map bucket_key ?bs)"
        using ex by (simp add: exact_tier_def distinct_map_filter)
      from mset_split_by_key[OF this, of "raw_key_at i" rows] show ?thesis
        by (simp add: rows_at_def comp_def)
    qed
    also have "filter (\<lambda>r. raw_key_at i r \<in> set (map bucket_key ?bs)) rows = rows_at j rows k"
      unfolding rows_at_def using same by (intro filter_cong) auto
    finally show "agrees (aggregate_buckets k ?bs) (aggregate_raw k (rows_at j rows k))"
      by (rule aggregate_parts[rotated]) (use ex in \<open>auto simp: exact_tier_def\<close>)
  qed
  show ?thesis
    unfolding exact_tier_def
  proof (intro conjI ballI)
    show "distinct (map bucket_key ?T)" by (rule distinct_groups) simp
  next
    fix b assume "b \<in> set ?T"
    then obtain k where "k \<in> tier_key j ` set table"
        "b = aggregate_buckets k (filter (\<lambda>b. tier_key j b = k) table)"
      unfolding group_member by blast
    with one[of k] show "rows_at j rows (bucket_key b) \<noteq> []"
        "agrees b (aggregate_raw (bucket_key b) (rows_at j rows (bucket_key b)))"
      by simp_all
  next
    fix r assume "r \<in> set rows"
    from cover[OF this] obtain b where "b \<in> set table" "tier_key j b = raw_key_at j r" by blast
    then have "aggregate_buckets (raw_key_at j r) (filter (\<lambda>b. tier_key j b = raw_key_at j r) table) \<in> set ?T"
      unfolding group_member by force
    then show "raw_key_at j r \<in> bucket_key ` set ?T" by (rule rev_image_eqI) simp
  qed
qed

text \<open>Into an empty tier the upserts just append.\<close>

lemma upsert_fresh: "bucket_key b \<notin> bucket_key ` set table \<Longrightarrow> upsert table b = table @ [b]"
  by (induction table) auto

lemma upsert_all_fresh:
  "distinct (map bucket_key (table @ bs)) \<Longrightarrow> upsert_all table bs = table @ bs"
proof (induction bs arbitrary: table)
  case (Cons b bs)
  then have "bucket_key b \<notin> bucket_key ` set table" by auto
  with Cons.IH[of "table @ [b]"] Cons.prems show ?case
    by (simp add: upsert_all_def upsert_fresh)
qed (simp add: upsert_all_def)

text \<open>Aligned bounds lose nothing: the bucket of a row in range is in range.\<close>

lemma tier_bucket_in_range:
  assumes "0 < m" "m dvd s" "s \<le> x" "x < e" shows "s \<le> x div m * m \<and> x div m * m < (e::int)"
proof
  have "s = s div m * m" using assms(2) by simp
  also have "\<dots> \<le> x div m * m"
    by (rule mult_right_mono[OF zdiv_mono1[OF assms(3,1)]]) (use assms(1) in simp)
  finally show "s \<le> x div m * m" .
  have "x div m * m \<le> x" using assms(1) pos_mod_sign[of m x] div_mult_mod_eq[of x m] by linarith
  then show "x div m * m < e" using assms(4) by simp
qed

definition in_days :: "instant \<Rightarrow> instant \<Rightarrow> hb_row list \<Rightarrow> bool" where
  "in_days start stop rows =
     (0 \<le> start \<and> start mod (24 * hour) = 0 \<and> stop mod (24 * hour) = 0 \<and>
      (\<forall>r \<in> set rows. micros start \<le> r_time r \<and> r_time r < micros stop))"

lemma in_days_bucket:
  assumes "in_days start stop rows" "r \<in> set rows" "0 < i div 1000000" "i div 1000000 dvd 86400000"
  shows "millis start \<le> tier_bucket i (raw_bucket r) \<and> tier_bucket i (raw_bucket r) < millis stop"
proof -
  obtain a z where start: "start = a * (24 * hour)" and stop: "stop = z * (24 * hour)"
    using assms(1) by (auto simp: in_days_def dvd_def mod_eq_0_iff_dvd mult.commute)
  have ms: "millis start = a * 86400000" "millis stop = z * 86400000"
    "micros start = a * 86400000000" "micros stop = z * 86400000000"
    by (simp_all add: start stop millis_def micros_def hour_def)
  have t: "a * 86400000000 \<le> r_time r" "r_time r < z * 86400000000" "0 \<le> a"
    using assms(1,2) ms by (auto simp: in_days_def start hour_def)
  then have nn: "0 \<le> r_time r" by linarith
  have "a * 86400000000 \<le> r_time r div 60000000 * 60000000 \<and> r_time r div 60000000 * 60000000 < z * 86400000000"
    by (rule tier_bucket_in_range) (use t in auto)
  then have rb: "a * 86400000 \<le> raw_bucket r" "raw_bucket r < z * 86400000" "0 \<le> raw_bucket r"
    using nn by (simp_all add: raw_bucket_nonneg pos_imp_zdiv_nonneg_iff)
  have "a * 86400000 \<le> raw_bucket r div (i div 1000000) * (i div 1000000) \<and>
      raw_bucket r div (i div 1000000) * (i div 1000000) < z * 86400000"
    by (rule tier_bucket_in_range) (use rb assms(3,4) in \<open>auto intro: dvd_mult\<close>)
  then show ?thesis using rb(3) assms(3) by (simp add: tier_bucket_nonneg ms)
qed

lemma exact_in_range:
  assumes "exact_tier i rows table" "in_days start stop rows" "0 < i div 1000000" "i div 1000000 dvd 86400000"
  shows "buckets_in_range table start stop = table"
  unfolding buckets_in_range_def
proof (rule filter_True, rule ballI)
  fix b assume "b \<in> set table"
  with assms(1) have "rows_at i rows (bucket_key b) \<noteq> []" by (simp add: exact_tier_def)
  then obtain r where "r \<in> set rows" "raw_key_at i r = bucket_key b"
    by (auto simp: rows_at_def filter_empty_conv)
  then show "millis start \<le> b_start b \<and> b_start b < millis stop"
    using in_days_bucket[OF assms(2) _ assms(3,4), of r] by (auto simp: raw_key_at_def bucket_key_def)
qed

lemma roll_up_tier_exact:
  assumes "exact_tier i rows (db_tiers db (tier_name src))" "in_days start stop rows"
    "0 < i div 1000000" "i div 1000000 dvd tier_interval t div 1000000"
    "0 < tier_interval t div 1000000" "i div 1000000 dvd 86400000" "db_tiers db (tier_name t) = []"
  shows "\<exists>table. fst (roll_up_tier db t src start stop) = set_tier db (tier_name t) table \<and>
    exact_tier (tier_interval t) rows table"
proof -
  let ?T = "map (\<lambda>(k, bs). aggregate_buckets k bs)
    (group_rows (tier_key (tier_interval t)) (db_tiers db (tier_name src)))"
  have nn: "\<forall>r \<in> set rows. 0 \<le> r_time r"
    using assms(2) by (force simp: in_days_def micros_def)
  have ex: "exact_tier (tier_interval t) rows ?T" by (rule exact_coarser[OF assms(1) nn assms(3-5)])
  then have "upsert_all [] ?T = ?T" by (simp add: upsert_all_fresh exact_tier_def)
  then have "fst (roll_up_tier db t src start stop) = set_tier db (tier_name t) ?T"
    using exact_in_range[OF assms(1,2,3,6)] assms(7) by (simp add: roll_up_tier_def Let_def)
  with ex show ?thesis by blast
qed

definition roll_up_all :: "db \<Rightarrow> instant \<Rightarrow> instant \<Rightarrow> db" where
  "roll_up_all db start stop =
     (let db1 = fst (roll_up_raw db start stop);
          db2 = fst (roll_up_tier db1 tier5m tier1m start stop);
          db3 = fst (roll_up_tier db2 tier1h tier5m start stop)
      in fst (roll_up_tier db3 tier1d tier1h start stop))"


text \<open>Recomputing is harmless: the same range of raw rows rolled up twice leaves in the finest tier,
  under every key, the bucket the first time left, whatever the tier held before.\<close>

theorem rollup_again_changes_nothing:
  "bucket_lookup (db_tiers (fst (roll_up_raw (fst (roll_up_raw db start stop)) start stop)) ''1m'') k =
   bucket_lookup (db_tiers (fst (roll_up_raw db start stop)) ''1m'') k"
proof -
  let ?bs = "map (\<lambda>(k, rows). aggregate_raw k rows) (group_rows raw_key (raw_in_range db start stop))"
  have "distinct (map bucket_key ?bs)" by (rule distinct_groups) simp
  from buckets.put_all_again[OF this, of "db_tiers db ''1m''" k] show ?thesis
    by (simp add: roll_up_raw_def set_tier_def raw_in_range_def upsert_all_def Let_def)
qed

end
