(* ===== verification/RollupRetention.thy ===== *)
theory RollupRetention
  imports RollupExact
begin

text \<open>
  Deletion: retention takes exactly what is past its horizon, an accepted policy leaves no hole
  between two resolutions, and the purge takes exactly the rows of the monitors in its queue. The
  last section shows the rollup that never moves again after a long gap in the data.
\<close>

section \<open>Bounded deletes run to the end\<close>

lemma delete_some_short:
  "snd (delete_some p limit xs) < limit \<Longrightarrow> fst (delete_some p limit xs) = filter (\<lambda>x. \<not> p x) xs"
  by (induction xs arbitrary: limit) (auto simp: split_beta split: if_splits)

lemma delete_all_exact:
  "delete_all (\<lambda>_. True) k p xs = (filter (\<lambda>x. \<not> p x) xs, length (filter p xs))"
proof (induction "\<lambda>_::nat. True" k p xs rule: delete_all.induct)
  case (1 k p xs)
  obtain ys n where d: "delete_some p delete_batch xs = (ys, n)" by fastforce
  note kept = delete_some_keeps[of p delete_batch xs, unfolded d, simplified]
    and total = delete_some_length[of p delete_batch xs, unfolded d, simplified]
  show ?case
  proof (cases "n < delete_batch")
    case True
    then have ys: "ys = filter (\<lambda>x. \<not> p x) xs" using delete_some_short[of p delete_batch xs] d by simp
    then have "filter p ys = []" by (simp add: filter_empty_conv)
    with total have "n = length (filter p xs)" by simp
    with True ys d show ?thesis by (subst delete_all.simps) simp
  next
    case False
    then have "delete_all (\<lambda>_. True) (k + 1) p ys = (filter (\<lambda>x. \<not> p x) ys, length (filter p ys))"
      using 1 d by simp
    with False d kept total show ?thesis by (subst delete_all.simps) simp
  qed
qed

lemma delete_all_keeps: "filter (\<lambda>x. \<not> p x) (fst (delete_all live k p xs)) = filter (\<lambda>x. \<not> p x) xs"
proof (induction live k p xs rule: delete_all.induct)
  case (1 live k p xs)
  obtain ys n where d: "delete_some p delete_batch xs = (ys, n)" by fastforce
  note kept = delete_some_keeps[of p delete_batch xs, unfolded d, simplified]
  show ?case
    using 1 d kept by (subst delete_all.simps) (auto split: prod.split)
qed

section \<open>Retention\<close>

definition no_delete_faults :: "db \<Rightarrow> bool" where
  "no_delete_faults db = (\<forall>table. Fault_delete table \<notin> db_faults db)"

definition cutoff :: "instant \<Rightarrow> int \<Rightarrow> instant" where
  "cutoff now days = now - days * 86400000000000"

lemma add_date_cutoff: "add_date utc now 0 0 (- days) = cutoff now days"
  by (simp add: add_date_utc_days cutoff_def)

definition kept_rows :: "instant \<Rightarrow> int \<Rightarrow> hb_row list \<Rightarrow> hb_row list" where
  "kept_rows now days rows = (if days \<le> 0 then rows else filter (\<lambda>h. micros (cutoff now days) \<le> r_time h) rows)"

definition kept_buckets :: "instant \<Rightarrow> int \<Rightarrow> bucket_row list \<Rightarrow> bucket_row list" where
  "kept_buckets now days bs = (if days = 0 then bs else filter (\<lambda>b. millis (cutoff now days) \<le> b_start b) bs)"

definition kept_deliveries :: "instant \<Rightarrow> int \<Rightarrow> delivery_row list \<Rightarrow> delivery_row list" where
  "kept_deliveries now days ds = (if days = 0 then ds else filter (\<lambda>d. millis (cutoff now days) \<le> d_created d) ds)"

text \<open>The three kinds of stage, when the database answers.\<close>

lemma retain_raw_exact:
  assumes "no_delete_faults db"
  shows "\<exists>n. retain_raw (\<lambda>_. True) now r db = Inr (db \<lparr> db_raw := kept_rows now (raw_days r) (db_raw db) \<rparr>, n)"
  using assms
  by (auto simp: retain_raw_def no_delete_faults_def kept_rows_def delete_all_exact add_date_cutoff not_less)

lemma retain_tier_exact:
  assumes "no_delete_faults db"
  shows "\<exists>n. retain_tier (\<lambda>_. True) now r t db =
    Inr (set_tier db (tier_name t) (kept_buckets now (days_for_tier r t) (db_tiers db (tier_name t))), n)"
  using assms
  by (auto simp: retain_tier_def no_delete_faults_def kept_buckets_def delete_all_exact add_date_cutoff
      not_less set_tier_def)

lemma retain_log_exact:
  assumes "no_delete_faults db" "table \<in> set delivery_tables"
  shows "\<exists>n. retain_log (\<lambda>_. True) now (table, days) db =
    Inr (db \<lparr> db_deliveries := (db_deliveries db)(table := kept_deliveries now days (db_deliveries db table)) \<rparr>, n)"
  using assms
  by (auto simp: retain_log_def no_delete_faults_def kept_deliveries_def delete_all_exact add_date_cutoff not_less)

lemma no_delete_faults_update [simp]:
  "no_delete_faults (db \<lparr> db_raw := rows \<rparr>) = no_delete_faults db"
  "no_delete_faults (db \<lparr> db_deliveries := ds \<rparr>) = no_delete_faults db"
  "no_delete_faults (set_tier db name bs) = no_delete_faults db"
  by (simp_all add: no_delete_faults_def set_tier_def)

text \<open>A stage that does what a function of the database says, and a list of them.\<close>

definition stage_does :: "(db \<Rightarrow> rollup_error + db \<times> nat) \<Rightarrow> (db \<Rightarrow> db) \<Rightarrow> bool" where
  "stage_does f g = (\<forall>db. no_delete_faults db \<longrightarrow> no_delete_faults (g db) \<and> (\<exists>n. f db = Inr (g db, n)))"

lemma retain_stages_do:
  "list_all2 stage_does fs gs \<Longrightarrow> no_delete_faults db \<Longrightarrow>
     \<exists>n. retain_stages fs db m = (None, foldl (\<lambda>d g. g d) db gs, n)"
proof (induction fs gs arbitrary: db m rule: list_all2_induct)
  case (Cons f fs g gs)
  then obtain n where "f db = Inr (g db, n)" "no_delete_faults (g db)" by (auto simp: stage_does_def)
  with Cons.IH[of "g db" "m + n"] show ?case by simp
qed simp

definition retained_db :: "instant \<Rightarrow> retention \<Rightarrow> db \<Rightarrow> db" where
  "retained_db now r db =
     db \<lparr> db_raw := kept_rows now (raw_days r) (db_raw db),
          db_tiers := \<lambda>name.
            (if name \<in> tier_name ` set tiers
             then kept_buckets now
               (if name = ''1m'' then rollup_1m_days r else if name = ''5m'' then rollup_5m_days r
                else if name = ''1h'' then rollup_1h_days r else rollup_1d_days r) (db_tiers db name)
             else db_tiers db name),
          db_deliveries := \<lambda>table.
            (if table \<in> set delivery_tables
             then kept_deliveries now
               (if table = ''webhook_deliveries'' then webhook_delivery_days r else notification_delivery_days r)
               (db_deliveries db table)
             else db_deliveries db table) \<rparr>"

lemma retain_stages_exact:
  assumes "no_delete_faults db"
  shows "\<exists>n. retain_stages (retention_stages (\<lambda>_. True) now r) db m = (None, retained_db now r db, n)"
proof -
  let ?raw = "\<lambda>d. d \<lparr> db_raw := kept_rows now (raw_days r) (db_raw d) \<rparr>"
  let ?tier = "\<lambda>t d. set_tier d (tier_name t) (kept_buckets now (days_for_tier r t) (db_tiers d (tier_name t)))"
  let ?log = "\<lambda>table days d. d \<lparr> db_deliveries := (db_deliveries d)(table := kept_deliveries now days (db_deliveries d table)) \<rparr>"
  let ?gs = "?raw # map ?tier tiers @
    [?log ''webhook_deliveries'' (webhook_delivery_days r), ?log ''notification_deliveries'' (notification_delivery_days r)]"
  have raw: "stage_does (retain_raw (\<lambda>_. True) now r) ?raw"
    by (simp add: stage_does_def retain_raw_exact)
  have tier: "stage_does (retain_tier (\<lambda>_. True) now r t) (?tier t)" for t
    by (simp add: stage_does_def retain_tier_exact)
  have logs: "table \<in> set delivery_tables \<Longrightarrow> stage_does (retain_log (\<lambda>_. True) now (table, days)) (?log table days)"
    for table days by (simp add: stage_does_def retain_log_exact)
  have "list_all2 stage_does (retention_stages (\<lambda>_. True) now r) ?gs"
    using tier[of tier1m] tier[of tier5m] tier[of tier1h] tier[of tier1d]
    by (simp add: retention_stages_def raw tiers_def logs delivery_tables_def)
  moreover have "foldl (\<lambda>d g. g d) db ?gs = retained_db now r db"
    by (simp add: retained_db_def set_tier_def days_for_tier_def tiers_def delivery_tables_def fun_eq_iff)
  ultimately show ?thesis using retain_stages_do[OF _ assms, of _ ?gs m] by simp
qed

lemma retain_exact:
  assumes "no_delete_faults db"
  shows "\<exists>rc. retain (\<lambda>_. True) auto_vacuum warned db r now = (None, retained_db now r db, rc)"
proof -
  obtain n where "retain_stages (retention_stages (\<lambda>_. True) now r) db 0 = (None, retained_db now r db, n)"
    using retain_stages_exact[OF assms] by blast
  then show ?thesis by (simp add: retain_def)
qed

text \<open>A small database, old and new rows in two resolutions, for the examples.\<close>

definition bucket_at :: "int \<Rightarrow> bucket_row" where
  "bucket_at ms =
     \<lparr> b_start = ms, b_monitor = [1], b_org = [2], b_up = 1, b_down = 0, b_pending = 0,
       b_maintenance = 0, b_unknown = 0, b_skipped = 0, b_rt_sum = None, b_rt_count = 0,
       b_rt_min = None, b_rt_max = None, b_rt_p95 = None \<rparr>"

definition small_db :: db where
  "small_db =
     \<lparr> db_raw = [], db_tiers = (\<lambda>_. [])(''1m'' := [bucket_at 0, bucket_at (10 ^ 12)], ''5m'' := [bucket_at 0]),
       db_deliveries = \<lambda>_. [\<lparr> d_id = 1, d_created = 0 \<rparr>, \<lparr> d_id = 2, d_created = 10 ^ 12 \<rparr>],
       db_purges = [], db_monitors = [], db_cache = [], db_faults = {Fault_cache} \<rparr>"

lemma small_db_answers: "no_delete_faults small_db"
  by (simp add: no_delete_faults_def small_db_def)

text \<open>C23: Retention deletes exactly what is past its horizon. When the database answers and the context
  lives, every table ends as the rows at or after its own cutoff, in the order they had; the
  batches of five thousand leave nothing behind, and a table kept indefinitely loses nothing.\<close>

theorem retention_deletes_exactly_the_expired:
  assumes "no_delete_faults db"
  shows "\<exists>rc. retain (\<lambda>_. True) auto_vacuum warned db r now = (None, retained_db now r db, rc)"
  using assms by (rule retain_exact)

theorem retention_deletes_exactly_the_expired_witness:
  "\<exists>rc. retain (\<lambda>_. True) (Some 2) False small_db default_retention (10 ^ 18) =
     (None, retained_db (10 ^ 18) default_retention small_db, rc)"
  by (rule retention_deletes_exactly_the_expired[OF small_db_answers])

text \<open>An accepted policy: days are kept at least as long as those of the resolution below.\<close>

lemma retention_validate_pairs:
  assumes "retention_validate r = None"
  shows "1 \<le> raw_days r" "kept_longer (rollup_1m_days r) (raw_days r)"
    "kept_longer (rollup_5m_days r) (rollup_1m_days r)" "kept_longer (rollup_1h_days r) (rollup_5m_days r)"
    "kept_longer (rollup_1d_days r) (rollup_1h_days r)"
  using assms by (auto simp: retention_validate_def retention_pairs_def split: option.splits if_splits)

lemma cutoff_mono: "m \<le> n \<Longrightarrow> cutoff now n \<le> cutoff now m"
  by (simp add: cutoff_def)

lemma expired_before_kept:
  assumes "kept_longer coarse fine" "b \<in> set bs" "b \<notin> set (kept_buckets now coarse bs)"
    "f \<in> set (kept_buckets now fine fs)"
  shows "b_start b < b_start f"
proof -
  have "coarse \<noteq> 0" using assms(2,3) by (auto simp: kept_buckets_def)
  with assms have "b_start b < millis (cutoff now coarse)" "fine \<noteq> 0" "fine \<le> coarse"
    by (auto simp: kept_buckets_def kept_longer_def)
  moreover have "millis (cutoff now coarse) \<le> millis (cutoff now fine)"
    using \<open>fine \<le> coarse\<close> unfolding millis_def by (intro zdiv_mono1 cutoff_mono) simp_all
  moreover have "millis (cutoff now fine) \<le> b_start f"
    using assms(4) \<open>fine \<noteq> 0\<close> by (simp add: kept_buckets_def)
  ultimately show ?thesis by linarith
qed

lemma expired_before_kept_raw:
  assumes "kept_longer coarse days" "1 \<le> days" "b \<in> set bs" "b \<notin> set (kept_buckets now coarse bs)"
    "h \<in> set (kept_rows now days rows)"
  shows "b_start b * 1000 < r_time h"
proof -
  have "coarse \<noteq> 0" using assms(3,4) by (auto simp: kept_buckets_def)
  with assms have "b_start b < millis (cutoff now coarse)" "days \<le> coarse"
    by (auto simp: kept_buckets_def kept_longer_def)
  moreover have "millis (cutoff now coarse) \<le> millis (cutoff now days)"
    using \<open>days \<le> coarse\<close> unfolding millis_def by (intro zdiv_mono1 cutoff_mono) simp_all
  moreover have "millis (cutoff now days) * 1000 \<le> micros (cutoff now days)"
    unfolding millis_def micros_def
    by (simp add: zdiv_zmult2_eq[of 1000 "cutoff now days" 1000, simplified] minus_mod_eq_div_mult[symmetric])
  moreover have "micros (cutoff now days) \<le> r_time h"
    using assms(2,5) by (simp add: kept_rows_def)
  ultimately show ?thesis by linarith
qed



section \<open>The purge\<close>

definition purge_ids :: "db \<Rightarrow> ident set" where
  "purge_ids db = snd ` set (db_purges db)"

definition same_but_purged :: "ident set \<Rightarrow> db \<Rightarrow> db \<Rightarrow> bool" where
  "same_but_purged ids db db' =
     (filter (\<lambda>h. r_monitor h \<notin> ids) (db_raw db') = filter (\<lambda>h. r_monitor h \<notin> ids) (db_raw db) \<and>
      (\<forall>name. filter (\<lambda>b. b_monitor b \<notin> ids) (db_tiers db' name) =
              filter (\<lambda>b. b_monitor b \<notin> ids) (db_tiers db name)) \<and>
      db_deliveries db' = db_deliveries db \<and> db_monitors db' = db_monitors db \<and>
      db_cache db' = db_cache db \<and> db_faults db' = db_faults db)"

lemma same_but_purged_refl [simp]: "same_but_purged ids db db"
  by (simp add: same_but_purged_def)

lemma same_but_purged_trans:
  "same_but_purged ids a b \<Longrightarrow> same_but_purged ids b c \<Longrightarrow> same_but_purged ids a c"
  by (simp add: same_but_purged_def)

lemma filter_weaken:
  assumes "filter (\<lambda>x. \<not> p x) xs = filter (\<lambda>x. \<not> p x) ys" "\<And>x. q x \<Longrightarrow> \<not> p x"
  shows "filter q xs = filter q ys"
proof -
  have "filter q zs = filter q (filter (\<lambda>x. \<not> p x) zs)" for zs
    using assms(2) by (induction zs) auto
  then show ?thesis using assms(1) by metis
qed

lemma same_but_purged_mono:
  assumes "same_but_purged ids a b" "ids \<subseteq> wide" shows "same_but_purged wide a b"
proof -
  have "filter (\<lambda>h. r_monitor h \<notin> wide) (db_raw b) = filter (\<lambda>h. r_monitor h \<notin> wide) (db_raw a)"
    by (rule filter_weaken[of "\<lambda>h. r_monitor h \<in> ids"]) (use assms in \<open>auto simp: same_but_purged_def\<close>)
  moreover have "filter (\<lambda>h. b_monitor h \<notin> wide) (db_tiers b name) = filter (\<lambda>h. b_monitor h \<notin> wide) (db_tiers a name)" for name
    by (rule filter_weaken[of "\<lambda>h. b_monitor h \<in> ids"]) (use assms in \<open>auto simp: same_but_purged_def\<close>)
  ultimately show ?thesis using assms(1) by (simp add: same_but_purged_def)
qed

lemma delete_some_none:
  "snd (delete_some p limit xs) = 0 \<Longrightarrow> 0 < limit \<Longrightarrow> filter p xs = []"
  using delete_some_count[of p limit xs] by (simp split: if_splits add: min_def)

lemma delete_some_same: "delete_some p limit xs = (ys, n) \<Longrightarrow> filter (\<lambda>x. \<not> p x) ys = filter (\<lambda>x. \<not> p x) xs"
  using delete_some_keeps[of p limit xs] by simp

text \<open>One step over the tables: rows of that monitor only, or the news that none is left.\<close>

lemma purge_tiers_same:
  "purge_tiers i limit ts db = Some (db', n) \<Longrightarrow> same_but_purged {i} db db' \<and> db_purges db' = db_purges db"
proof (induction ts)
  case (Cons t ts)
  obtain rows k where d: "delete_some (\<lambda>b. b_monitor b = i) limit (db_tiers db (tier_name t)) = (rows, k)"
    by fastforce
  show ?case
  proof (cases "0 < k")
    case True
    with Cons.prems d have "db' = set_tier db (tier_name t) rows" by simp
    with delete_some_same[OF d] show ?thesis by (simp add: same_but_purged_def set_tier_def)
  qed (use Cons d in simp)
qed simp

lemma purge_tiers_none:
  "purge_tiers i limit ts db = None \<Longrightarrow> 0 < limit \<Longrightarrow> t \<in> set ts \<Longrightarrow>
     filter (\<lambda>b. b_monitor b = i) (db_tiers db (tier_name t)) = []"
proof (induction ts)
  case (Cons x ts)
  obtain rows k where d: "delete_some (\<lambda>b. b_monitor b = i) limit (db_tiers db (tier_name x)) = (rows, k)"
    by fastforce
  with Cons.prems have "k = 0" by (cases "0 < k") simp_all
  with Cons d show ?case
    using delete_some_none[of "\<lambda>b. b_monitor b = i" limit "db_tiers db (tier_name x)"] by auto
qed simp

lemma purge_tables_same:
  assumes "purge_tables i limit db = Some (db', n)"
  shows "same_but_purged {i} db db' \<and> db_purges db' = db_purges db"
proof -
  obtain rows k where d: "delete_some (\<lambda>h. r_monitor h = i) limit (db_raw db) = (rows, k)" by fastforce
  show ?thesis
  proof (cases "0 < k")
    case True
    with assms d have "db' = db \<lparr> db_raw := rows \<rparr>" by (simp add: purge_tables_def)
    with delete_some_same[OF d] show ?thesis by (simp add: same_but_purged_def)
  next
    case False
    with assms d show ?thesis by (intro purge_tiers_same) (simp add: purge_tables_def)
  qed
qed

lemma purge_tables_none:
  assumes "purge_tables i limit db = None" "0 < limit"
  shows "filter (\<lambda>h. r_monitor h = i) (db_raw db) = []"
    "t \<in> set tiers \<Longrightarrow> filter (\<lambda>b. b_monitor b = i) (db_tiers db (tier_name t)) = []"
proof -
  obtain rows k where d: "delete_some (\<lambda>h. r_monitor h = i) limit (db_raw db) = (rows, k)" by fastforce
  with assms(1) have k: "k = 0" "purge_tiers i limit tiers db = None"
    by (cases "0 < k"; simp add: purge_tables_def)+
  show "filter (\<lambda>h. r_monitor h = i) (db_raw db) = []"
    using delete_some_none[of "\<lambda>h. r_monitor h = i" limit "db_raw db"] d k(1) assms(2) by simp
  show "t \<in> set tiers \<Longrightarrow> filter (\<lambda>b. b_monitor b = i) (db_tiers db (tier_name t)) = []"
    by (rule purge_tiers_none[OF k(2) assms(2)])
qed

text \<open>What is left when the monitors of a set are gone from every table.\<close>

definition purged :: "ident set \<Rightarrow> db \<Rightarrow> db \<Rightarrow> bool" where
  "purged ids db db' =
     (db_purges db' = [] \<and> db_raw db' = filter (\<lambda>h. r_monitor h \<notin> ids) (db_raw db) \<and>
      (\<forall>t \<in> set tiers. db_tiers db' (tier_name t) =
         filter (\<lambda>b. b_monitor b \<notin> ids) (db_tiers db (tier_name t))) \<and>
      db_deliveries db' = db_deliveries db \<and> db_monitors db' = db_monitors db \<and> db_cache db' = db_cache db)"

lemma purged_after_step:
  "same_but_purged ids db mid \<Longrightarrow> purged ids mid db' \<Longrightarrow> purged ids db db'"
  by (simp add: purged_def same_but_purged_def)

lemma purged_more:
  assumes "purged ids db db'" "filter (\<lambda>h. r_monitor h = i) (db_raw db) = []"
    "\<And>t. t \<in> set tiers \<Longrightarrow> filter (\<lambda>b. b_monitor b = i) (db_tiers db (tier_name t)) = []"
  shows "purged (insert i ids) db db'"
proof -
  have "filter (\<lambda>h. r_monitor h \<notin> insert i ids) (db_raw db) = filter (\<lambda>h. r_monitor h \<notin> ids) (db_raw db)"
    using assms(2) by (auto simp: filter_empty_conv intro: filter_cong)
  moreover have "filter (\<lambda>b. b_monitor b \<notin> insert i ids) (db_tiers db (tier_name t)) =
      filter (\<lambda>b. b_monitor b \<notin> ids) (db_tiers db (tier_name t))" if "t \<in> set tiers" for t
    using assms(3)[OF that] by (auto simp: filter_empty_conv intro: filter_cong)
  ultimately show ?thesis using assms(1) by (simp add: purged_def)
qed

lemma purge_runs_to_the_end:
  "Fault_purge \<notin> db_faults db \<Longrightarrow>
     \<exists>db'. purge (\<lambda>_. True) k db = (None, db') \<and> purged (purge_ids db) db db'"
proof (induction "\<lambda>_::nat. True" k db rule: purge.induct)
  case (1 k db)
  show ?case
  proof (cases "db_purges db")
    case Nil
    with 1 have "purge_next purge_batch db = Inr (db, 0, True)" by (simp add: purge_next_def)
    then have "purge (\<lambda>_. True) k db = (None, db)" by (subst purge.simps) simp
    with Nil show ?thesis by (simp add: purged_def purge_ids_def)
  next
    case (Cons e rest)
    obtain ms i where e: "e = (ms, i)" by fastforce
    show ?thesis
    proof (cases "purge_tables i purge_batch db")
      case None
      let ?db1 = "db \<lparr> db_purges := rest \<rparr>"
      from None have step: "purge_next purge_batch db = Inr (?db1, 0, False)"
        using 1 Cons e by (simp add: purge_next_def)
      then obtain db' where p: "purge (\<lambda>_. True) (k + 1) ?db1 = (None, db')" "purged (purge_ids ?db1) ?db1 db'"
        using 1 by fastforce
      have "purged (insert i (purge_ids ?db1)) ?db1 db'"
        by (rule purged_more[OF p(2)]) (use purge_tables_none[OF None] in \<open>simp_all add: purge_batch_def\<close>)
      moreover have "insert i (purge_ids ?db1) = purge_ids db" by (simp add: purge_ids_def Cons e)
      ultimately have "purged (purge_ids db) db db'" by (simp add: purged_def)
      with p(1) step show ?thesis by (subst purge.simps) simp
    next
      case (Some r)
      then obtain db1 n where t: "purge_tables i purge_batch db = Some (db1, n)" by (cases r) auto
      then have step: "purge_next purge_batch db = Inr (db1, n, False)"
        using 1 Cons e by (simp add: purge_next_def)
      have s: "same_but_purged {i} db db1" "db_purges db1 = db_purges db" using purge_tables_same[OF t] by simp_all
      then have ids: "purge_ids db1 = purge_ids db" by (simp add: purge_ids_def)
      have "Fault_purge \<notin> db_faults db1" using 1 s(1) by (simp add: same_but_purged_def)
      then obtain db' where p: "purge (\<lambda>_. True) (k + 1) db1 = (None, db')" "purged (purge_ids db) db1 db'"
        using 1 step ids by fastforce
      have "{i} \<subseteq> purge_ids db" by (simp add: purge_ids_def Cons e)
      from same_but_purged_mono[OF s(1) this] p(2) have "purged (purge_ids db) db db'" by (rule purged_after_step)
      with p(1) step show ?thesis by (subst purge.simps) simp
    qed
  qed
qed

text \<open>C24: The purge ends, and takes exactly what deleted monitors left. When the database answers, the
  queue is worked to the end whatever the number of rows; every table is left without the rows of
  the monitors that were queued and with every other row it had, and nothing else is touched.\<close>

theorem purge_takes_exactly_the_queued:
  assumes "Fault_purge \<notin> db_faults db"
  shows "\<exists>db'. purge (\<lambda>_. True) 0 db = (None, db') \<and> purged (purge_ids db) db db'"
  using assms by (rule purge_runs_to_the_end)

theorem purge_takes_exactly_the_queued_witness:
  "\<exists>db'. purge (\<lambda>_. True) 0 (small_db \<lparr> db_purges := [(5, [1])] \<rparr>) = (None, db') \<and>
     db_tiers db' ''1m'' = [] \<and> db_purges db' = []"
proof -
  let ?db = "small_db \<lparr> db_purges := [(5, [1])] \<rparr>"
  have "Fault_purge \<notin> db_faults ?db" by (simp add: small_db_def)
  from purge_takes_exactly_the_queued[OF this]
  obtain db' where p: "purge (\<lambda>_. True) 0 ?db = (None, db')" "purged (purge_ids ?db) ?db db'" by blast
  from p(2) have "db_tiers db' ''1m'' = filter (\<lambda>b. b_monitor b \<notin> {[1]}) (db_tiers small_db ''1m'')"
    by (simp add: purged_def purge_ids_def tiers_def)
  then have "db_tiers db' ''1m'' = []" by (simp add: small_db_def bucket_at_def)
  with p show ?thesis by (auto simp: purged_def)
qed

section \<open>The rollup that never moves again\<close>

lemma fold_max: "fold max xs (a::int) \<in> insert a (set xs) \<and> (\<forall>x \<in> insert a (set xs). x \<le> fold max xs a)"
proof (induction xs arbitrary: a)
  case (Cons x xs)
  from Cons.IH[of "max x a"] show ?case by (auto simp: max_def split: if_splits)
qed simp

lemma bound_of_max:
  "bound_of max xs = Some l \<longleftrightarrow> l \<in> set xs \<and> (\<forall>x \<in> set xs. x \<le> (l::int))"
proof (cases xs)
  case (Cons a rest)
  then have "bound_of max xs = Some (fold max rest a)" "set xs = insert a (set rest)"
    by (simp_all add: bound_of_def)
  with fold_max[of rest a] show ?thesis by (metis antisym option.inject)
qed (simp add: bound_of_def)

text \<open>The newest bucket is \<open>l\<close>, and of the raw rows within the two thousand buckets a pass looks at
  none is in a later one.\<close>

definition gap_start :: "int \<Rightarrow> instant" where
  "gap_start l = from_millis l - tier_reprocess tier1m"

definition gap_stop :: "int \<Rightarrow> instant" where
  "gap_stop l = bucket (gap_start l) minute + max_buckets_per_run * minute"

definition beyond_gap :: "int \<Rightarrow> hb_row \<Rightarrow> bool" where
  "beyond_gap l r = (raw_bucket r \<le> l \<or> micros (gap_stop l) \<le> r_time r)"

definition stuck :: "int \<Rightarrow> db \<Rightarrow> bool" where
  "stuck l db =
     (bound_of max (map b_start (db_tiers db ''1m'')) = Some l \<and> (\<forall>r \<in> set (db_raw db). beyond_gap l r))"

lemma upsert_starts: "b_start ` set (upsert table b) = insert (b_start b) (b_start ` set table)"
  by (induction table) (auto simp: bucket_key_def)

lemma upsert_all_starts:
  "b_start ` set (upsert_all table bs) = b_start ` set bs \<union> b_start ` set table"
  by (induction bs arbitrary: table) (auto simp: upsert_all_def upsert_starts)

lemma stuck_raw_step:
  assumes "stuck l db" "stop \<le> gap_stop l"
  shows "stuck l (fst (roll_up_raw db start stop))"
proof -
  let ?fresh = "map (\<lambda>(k, rows). aggregate_raw k rows) (group_rows raw_key (raw_in_range db start stop))"
  have m: "micros stop \<le> micros (gap_stop l)"
    unfolding micros_def by (rule zdiv_mono1[OF assms(2)]) simp
  have "b_start b \<le> l" if b: "b \<in> set ?fresh" for b
  proof -
    from b obtain r where r: "r \<in> set (raw_in_range db start stop)" "b_start b = raw_bucket r"
      by (auto simp: group_rows_def aggregate_raw_def Let_def raw_key_def)
    then have "r_time r < micros (gap_stop l)" "r \<in> set (db_raw db)"
      using m by (auto simp: raw_in_range_def)
    with assms(1) r(2) show ?thesis by (auto simp: stuck_def beyond_gap_def)
  qed
  then show ?thesis
    using assms(1) upsert_all_starts[of "db_tiers db ''1m''" ?fresh]
    by (auto simp: stuck_def roll_up_raw_def Let_def set_tier_def bound_of_max)
qed

lemma stuck_window:
  assumes "stuck l db" "rollup_window db tier1m now = Inr (start, stop)" shows "stop \<le> gap_stop l"
  using assms
  by (auto simp: rollup_window_def latest_bucket_def Let_def stuck_def and_then_Inr catch_up_def
      gap_stop_def gap_start_def tier1m_def split: if_splits)

lemma stuck_step:
  assumes "stuck l db" "rollup_tier_step now db t = Inr db'" "t \<in> set tiers" shows "stuck l db'"
proof (cases "t = tier1m")
  case True
  with assms(2) obtain start stop where w: "rollup_window db tier1m now = Inr (start, stop)"
    by (auto simp: rollup_tier_step_def and_then_Inr)
  from stuck_window[OF assms(1) w] have "stuck l (fst (roll_up_raw db start stop))"
    by (rule stuck_raw_step[OF assms(1)])
  with assms(1,2) w True show ?thesis
    by (auto simp: rollup_tier_step_def tier1m_def split: if_splits)
next
  case False
  with assms(3) have n: "tier_name t \<noteq> ''1m''" by (auto simp: tiers_def)
  have "stuck l (fst (roll_up_tier db t src start stop))" for src start stop
    using assms(1) n by (simp add: roll_up_tier_def Let_def stuck_def set_tier_def)
  moreover have "tier_source t \<noteq> None"
    using assms(3) False by (auto simp: tiers_def tier5m_def tier1h_def tier1d_def)
  ultimately show ?thesis
    using assms(1,2) by (auto simp: rollup_tier_step_def and_then_Inr split: if_splits)
qed

lemma stuck_chain: "stuck l db \<Longrightarrow> set ts \<subseteq> set tiers \<Longrightarrow> stuck l (snd (rollup_chain now db ts))"
  by (induction ts arbitrary: db) (auto simp: stuck_step split: sum.split)

text \<open>What can happen to the tables: a rollup pass, or a heartbeat.\<close>

datatype rollup_event = Pass instant | Beat hb_row

fun happens :: "db \<Rightarrow> rollup_event \<Rightarrow> db" where
  "happens db (Pass now) = snd (rollup_run db now)"
| "happens db (Beat r) = db \<lparr> db_raw := db_raw db @ [r] \<rparr>"

lemma stuck_happens:
  "stuck l db \<Longrightarrow> (\<And>r. e = Beat r \<Longrightarrow> beyond_gap l r) \<Longrightarrow> stuck l (happens db e)"
  by (cases e) (auto simp: rollup_run_def stuck_chain, auto simp: stuck_def)


text \<open>A day and a half without a heartbeat is enough: 36 hours after a bucket at minute ten.\<close>

definition gap_beat :: hb_row where
  "gap_beat =
     \<lparr> r_time = 130200 * 1000000, r_monitor = [1], r_org = [2], r_probe = [], r_status = 1,
       r_response_ms = None, r_code = None, r_message = None, r_attempt = 1, r_important = False,
       r_suppressed = False, r_reason = None \<rparr>"

lemma gap_beat_beyond: "beyond_gap 600000 gap_beat"
  by (simp add: beyond_gap_def gap_beat_def gap_stop_def gap_start_def from_millis_def tier1m_def
      bucket_def unix_sec_def minute_def second_def max_buckets_per_run_def micros_def go_div_def Let_def)


section \<open>Examples of the window and of the chain\<close>

theorem window_is_closed_and_bounded_witness:
  "rollup_window (small_db \<lparr> db_tiers := (\<lambda>_. [])(''1m'' := [bucket_at 600000]) \<rparr>) tier1m (130300 * second) =
     Inr (0, 2000 * minute) \<and> 2000 * minute \<le> 130300 * second - rollup_grace"
proof -
  have w: "rollup_window (small_db \<lparr> db_tiers := (\<lambda>_. [])(''1m'' := [bucket_at 600000]) \<rparr>) tier1m (130300 * second) =
     Inr (0, 2000 * minute)"
    by (simp add: rollup_window_def latest_bucket_def small_db_def bound_of_def bucket_at_def catch_up_def
        and_then_def from_millis_def tier1m_def bucket_def unix_sec_def minute_def second_def
        max_buckets_per_run_def rollup_grace_def go_div_def Let_def)
  have "tier1m \<in> set tiers" by (simp add: tiers_def)
  from window_is_closed_and_bounded[OF w this] w show ?thesis by simp
qed


end
