(* ===== verification/Cron.thy ===== *)
theory Cron
  imports GoTime GoStrings
begin

text \<open>
  \<open>internal/cron/cron.go\<close>: the five-field cron parser and the search for the next firing.
  A \<open>map[int]bool\<close> that only ever holds \<open>true\<close> is the list of its keys in insertion order,
  without repetitions. \<open>cron_walk\<close> is the loop over the days of \<open>Next\<close>, its first argument
  the number of iterations left of \<open>LookaheadDays\<close>.
\<close>

section \<open>Expressions and parsing\<close>

record expression =
  ex_minutes :: "int list"
  ex_hours :: "int list"
  ex_doms :: "int list"
  ex_months :: "int list"
  ex_dows :: "int list"
  ex_dom_restricted :: bool
  ex_dow_restricted :: bool

datatype cron_error =
    CronFieldCount nat string
  | CronAlias
  | CronEmptyField string
  | CronBadStep string string
  | CronNotANumber string string
  | CronBadRangeEnd string string
  | CronOutside string string int int
  | CronMatchesNothing string

text \<open>
  The loop \<open>for value := start; value <= end; value += step\<close>. The addition wraps at 64
  bits. The remaining conjuncts of the guard state what \<open>parseField\<close> has checked before
  the loop; they hold at every call and make the loop's termination provable.
\<close>

function expand :: "int \<Rightarrow> int \<Rightarrow> int \<Rightarrow> int list \<Rightarrow> int list" where
  "expand v stop step keys =
     (if v \<le> stop \<and> 1 \<le> step \<and> step \<le> max_int64 \<and> 0 \<le> stop \<and> stop \<le> 59 \<and> min_int64 \<le> v
      then expand (wrap64 (v + step)) stop step (List.insert v keys)
      else keys)"
  by pat_completeness auto

definition expand_measure :: "int \<Rightarrow> int \<Rightarrow> int \<Rightarrow> nat" where
  "expand_measure v stop step =
     (if stop < v then 0
      else if step \<le> 9223372036854775748 then nat (stop - v) + 1
      else if 0 \<le> v then nat (2 * v + 2)
      else if stop < v + step then 1
      else if 0 \<le> v + step then nat (2 * (v + step) + 3)
      else 2)"

lemma wrap64_add:
  assumes "- 9223372036854775808 \<le> v" "v \<le> 59" "1 \<le> step" "step \<le> 9223372036854775807"
  shows "wrap64 (v + step) =
    (if v + step \<le> 9223372036854775807 then v + step
     else v + step - 18446744073709551616)"
proof (cases "v + step \<le> 9223372036854775807")
  case True
  then have "in_int64 (v + step)"
    using assms by (simp add: in_int64_def min_int64_def max_int64_def)
  with True show ?thesis by simp
next
  case False
  have "(v + step + 9223372036854775808) mod 18446744073709551616
      = v + step + 9223372036854775808 - 18446744073709551616"
    by (rule int_mod_pos_eq [where q = 1]) (use assms False in simp_all)
  with False show ?thesis by (simp add: wrap64_def)
qed

termination expand
proof (relation "measure (\<lambda>(v, stop, step, keys). expand_measure v stop step)", simp)
  fix v stop step :: int and keys :: "int list"
  assume "v \<le> stop \<and> 1 \<le> step \<and> step \<le> max_int64 \<and> 0 \<le> stop \<and> stop \<le> 59 \<and> min_int64 \<le> v"
  then have g: "v \<le> stop" "1 \<le> step" "step \<le> 9223372036854775807" "0 \<le> stop" "stop \<le> 59"
    "- 9223372036854775808 \<le> v" by (simp_all add: max_int64_def min_int64_def)
  have w: "wrap64 (v + step) = (if v + step \<le> 9223372036854775807 then v + step
     else v + step - 18446744073709551616)" by (rule wrap64_add) (use g in simp_all)
  have "expand_measure (wrap64 (v + step)) stop step < expand_measure v stop step"
  proof (cases "v + step \<le> 9223372036854775807")
    case True
    then have e: "wrap64 (v + step) = v + step" by (simp add: w)
    show ?thesis unfolding e expand_measure_def using g True by simp
  next
    case False
    then have e: "wrap64 (v + step) = v + step - 18446744073709551616" by (simp add: w)
    have "1 \<le> v" using False g(3) by simp
    then have "2 < nat (2 * v + 2)" by simp
    then show ?thesis unfolding e expand_measure_def using g False by simp
  qed
  then show "((wrap64 (v + step), stop, step, List.insert v keys), v, stop, step, keys)
      \<in> measure (\<lambda>(v, stop, step, keys). expand_measure v stop step)" by simp
qed

declare expand.simps [simp del]

definition part_step :: "string \<Rightarrow> string \<Rightarrow> cron_error + (int \<times> string)" where
  "part_step name part =
     (case cut CHR ''/'' part of (base, step_text, found) \<Rightarrow>
        if found then
          (case atoi step_text of
             None \<Rightarrow> Inl (CronBadStep name step_text)
           | Some n \<Rightarrow> if n < 1 then Inl (CronBadStep name step_text) else Inr (n, base))
        else Inr (1, part))"

definition part_bounds ::
  "int \<Rightarrow> int \<Rightarrow> string \<Rightarrow> int \<Rightarrow> string \<Rightarrow> bool \<Rightarrow> cron_error + (int \<times> int \<times> bool)" where
  "part_bounds low high name step part restricted =
     (if part = ''*'' then Inr (low, high, restricted \<or> 1 < step)
      else (case cut CHR ''-'' part of (lower, upper, is_range) \<Rightarrow>
        and_then (expect (CronNotANumber name lower) (atoi (trim_space lower))) (\<lambda>start.
          if is_range then
            and_then (expect (CronBadRangeEnd name upper) (atoi (trim_space upper))) (\<lambda>stop.
              Inr (start, stop, True))
          else Inr (start, if 1 < step then high else start, True))))"

definition parse_part ::
  "int \<Rightarrow> int \<Rightarrow> string \<Rightarrow> string \<Rightarrow> int list \<Rightarrow> bool \<Rightarrow> cron_error + (int list \<times> bool)" where
  "parse_part low high name raw keys restricted =
     (if trim_space raw = [] then Inl (CronEmptyField name) else
      and_then (part_step name (trim_space raw)) (\<lambda>(step, part).
        and_then (part_bounds low high name step part restricted) (\<lambda>(start, stop, restricted').
          if start < low \<or> high < stop \<or> stop < start
          then Inl (CronOutside name part low high)
          else Inr (expand start stop step keys, restricted'))))"

fun parse_parts ::
  "int \<Rightarrow> int \<Rightarrow> string \<Rightarrow> string list \<Rightarrow> int list \<Rightarrow> bool \<Rightarrow> cron_error + (int list \<times> bool)" where
  "parse_parts low high name [] keys restricted = Inr (keys, restricted)"
| "parse_parts low high name (part # rest) keys restricted =
     and_then (parse_part low high name part keys restricted)
       (\<lambda>(keys', restricted'). parse_parts low high name rest keys' restricted')"

definition parse_field :: "string \<Rightarrow> int \<Rightarrow> int \<Rightarrow> string \<Rightarrow> cron_error + (int list \<times> bool)" where
  "parse_field field low high name =
     and_then (parse_parts low high name (split_on CHR '','' field) [] False)
       (\<lambda>(keys, restricted).
          if keys = [] then Inl (CronMatchesNothing name) else Inr (keys, restricted))"

definition cron_parse :: "string \<Rightarrow> cron_error + expression" where
  "cron_parse text =
     (let fields = go_fields text in
      if length fields \<noteq> 5 then Inl (CronFieldCount (length fields) text)
      else if prefix ''@'' (trim_space text) then Inl CronAlias
      else
        and_then (parse_field (fields ! 0) 0 59 ''minute'') (\<lambda>(minutes, _).
        and_then (parse_field (fields ! 1) 0 23 ''hour'') (\<lambda>(hours, _).
        and_then (parse_field (fields ! 2) 1 31 ''day of month'') (\<lambda>(doms, dom_r).
        and_then (parse_field (fields ! 3) 1 12 ''month'') (\<lambda>(months, _).
        and_then (parse_field (fields ! 4) 0 6 ''day of week'') (\<lambda>(dows, dow_r).
          Inr \<lparr>ex_minutes = minutes, ex_hours = hours, ex_doms = doms, ex_months = months,
               ex_dows = dows, ex_dom_restricted = dom_r, ex_dow_restricted = dow_r\<rparr>))))))"

section \<open>Matching and the next firing\<close>

definition cron_hours :: "expression \<Rightarrow> int list" where
  "cron_hours e = sort (ex_hours e)"

definition cron_minutes :: "expression \<Rightarrow> int list" where
  "cron_minutes e = sort (ex_minutes e)"

text \<open>The day rule over the calendar fields of a day: month, day of month, day of week.\<close>

definition day_rule :: "expression \<Rightarrow> int \<Rightarrow> int \<Rightarrow> int \<Rightarrow> bool" where
  "day_rule e m d w =
     (if m \<notin> set (ex_months e) then False
      else if ex_dom_restricted e \<and> ex_dow_restricted e then d \<in> set (ex_doms e) \<or> w \<in> set (ex_dows e)
      else if ex_dom_restricted e then d \<in> set (ex_doms e)
      else if ex_dow_restricted e then w \<in> set (ex_dows e)
      else True)"

definition matches_day :: "expression \<Rightarrow> location \<Rightarrow> instant \<Rightarrow> bool" where
  "matches_day e loc day =
     (case date_of loc day of (y, m, d) \<Rightarrow> day_rule e m d (weekday_of loc day))"

definition lookahead_days :: nat where
  "lookahead_days = 1500"

definition day_times :: "expression \<Rightarrow> location \<Rightarrow> int \<Rightarrow> int \<Rightarrow> int \<Rightarrow> instant list" where
  "day_times e loc y m d =
     concat (map (\<lambda>h. map (\<lambda>mi. go_date loc y m d h mi 0 0) (cron_minutes e)) (cron_hours e))"

fun cron_walk :: "nat \<Rightarrow> expression \<Rightarrow> location \<Rightarrow> instant \<Rightarrow> int \<Rightarrow> int \<Rightarrow> int \<Rightarrow> instant option" where
  "cron_walk 0 e loc after y m d = None"
| "cron_walk (Suc n) e loc after y m d =
     (let start = go_date loc y m d 0 0 0 0 in
      case (if matches_day e loc start then find (\<lambda>at. after < at) (day_times e loc y m d) else None) of
        Some at \<Rightarrow> Some at
      | None \<Rightarrow> (case date_of loc start of (y', m', d') \<Rightarrow> cron_walk n e loc after y' m' (d' + 1)))"

definition cron_next :: "expression \<Rightarrow> instant \<Rightarrow> location option \<Rightarrow> instant option" where
  "cron_next e after zone =
     (let loc = (case zone of None \<Rightarrow> utc | Some l \<Rightarrow> l)
      in case date_of loc after of (y, m, d) \<Rightarrow> cron_walk lookahead_days e loc after y m d)"

section \<open>What the parser produces\<close>

lemma expand_distinct: "distinct keys \<Longrightarrow> distinct (expand v stop step keys)"
  by (induction v stop step keys rule: expand.induct)
    (subst expand.simps, simp add: distinct_insert)

lemma expand_set:
  assumes "1 \<le> step" "step \<le> 9223372036854775748" "0 \<le> v" "0 \<le> stop" "stop \<le> 59"
  shows "set (expand v stop step keys) =
    set keys \<union> {x. v \<le> x \<and> x \<le> stop \<and> (\<exists>k::nat. x = v + int k * step)}"
  using assms
proof (induction v stop step keys rule: expand.induct)
  case (1 v stop step keys)
  let ?S = "\<lambda>v. {x. v \<le> x \<and> x \<le> stop \<and> (\<exists>k::nat. x = v + int k * step)}"
  show ?case
  proof (cases "v \<le> stop")
    case False
    then have "expand v stop step keys = keys" by (subst expand.simps) simp
    with False show ?thesis by auto
  next
    case True
    have g: "v \<le> stop \<and> 1 \<le> step \<and> step \<le> max_int64 \<and> 0 \<le> stop \<and> stop \<le> 59 \<and> min_int64 \<le> v"
      using True "1.prems" by (simp add: max_int64_def min_int64_def)
    have w: "wrap64 (v + step) = v + step"
      using True "1.prems" by (simp add: wrap64_add)
    have "expand v stop step keys = expand (v + step) stop step (List.insert v keys)"
      by (subst expand.simps) (simp add: g w)
    then have "set (expand v stop step keys) = insert v (set keys) \<union> ?S (v + step)"
      using "1.IH" [OF g] "1.prems" w by simp
    also have "\<dots> = set keys \<union> ?S v"
    proof -
      have "?S v = insert v (?S (v + step))"
      proof (intro set_eqI iffI)
        fix x assume "x \<in> ?S v"
        then obtain k :: nat where k: "x = v + int k * step" "v \<le> x" "x \<le> stop" by auto
        show "x \<in> insert v (?S (v + step))"
        proof (cases k)
          case 0
          with k show ?thesis by simp
        next
          case (Suc j)
          then have "x = (v + step) + int j * step" using k by (simp add: algebra_simps)
          moreover have "0 \<le> int j * step" using "1.prems" by simp
          ultimately show ?thesis using k(3) by auto
        qed
      next
        fix x assume "x \<in> insert v (?S (v + step))"
        then show "x \<in> ?S v"
        proof
          assume "x = v"
          then show ?thesis using True by (auto intro: exI [of _ 0])
        next
          assume "x \<in> ?S (v + step)"
          then obtain k :: nat where k: "x = v + step + int k * step" "v + step \<le> x" "x \<le> stop" by auto
          then have "x = v + int (Suc k) * step" by (simp add: algebra_simps)
          then have "\<exists>j::nat. x = v + int j * step" by blast
          then show ?thesis using k "1.prems" by simp
        qed
      qed
      then show ?thesis by auto
    qed
    finally show ?thesis .
  qed
qed

lemma expand_bounds:
  assumes "1 \<le> step" "step \<le> 9223372036854775748" "0 \<le> low" "low \<le> v" "stop \<le> high"
    "0 \<le> stop" "stop \<le> 59" "set keys \<subseteq> {low..high}"
  shows "set (expand v stop step keys) \<subseteq> {low..high}"
proof -
  have "0 \<le> int k * step" for k :: nat using assms(1) by simp
  then have "low \<le> v + int k * step" for k :: nat using assms(4) by (meson add_increasing2)
  then show ?thesis using assms by (subst expand_set) auto
qed

lemma part_step_bounds:
  assumes "part_step name (trim_space raw) = Inr (step, part)" "length raw \<le> 18"
  shows "1 \<le> step" "step \<le> 9223372036854775748"
proof -
  obtain base step_text found where c: "cut CHR ''/'' (trim_space raw) = (base, step_text, found)"
    by (rule prod_cases3)
  have "length step_text \<le> 18"
    using cut_lengths [OF c] trim_space_length [of raw] assms(2) by simp
  then have "(10::int) ^ length step_text \<le> 10 ^ 18" by (intro power_increasing) simp_all
  moreover have "step = 1 \<or> (1 \<le> step \<and> atoi step_text = Some step)"
    using assms(1) by (auto simp: part_step_def c split: if_splits option.splits)
  ultimately show "1 \<le> step" "step \<le> 9223372036854775748"
    using atoi_bound [of step_text step] by auto
qed

lemma parse_part_keys:
  assumes "parse_part low high name raw keys r = Inr (keys', r')"
    and "length raw \<le> 18" "0 \<le> low" "high \<le> 59" "set keys \<subseteq> {low..high}" "distinct keys"
  shows "set keys' \<subseteq> {low..high} \<and> distinct keys'"
proof -
  obtain step part where h: "part_step name (trim_space raw) = Inr (step, part)"
    using assms(1) by (auto simp: parse_part_def and_then_Inr split: if_splits)
  obtain start stop where b: "low \<le> start" "stop \<le> high" "start \<le> stop"
      "keys' = expand start stop step keys"
    using assms(1) by (fastforce simp: parse_part_def h and_then_Inr not_less split: if_splits)
  show ?thesis
    using expand_bounds [of step low start stop high keys] part_step_bounds [OF h assms(2)]
      b assms(3-6) expand_distinct [of keys]
    by simp
qed

lemma parse_parts_keys:
  assumes "parse_parts low high name parts keys r = Inr (keys', r')"
    and "\<forall>p \<in> set parts. length p \<le> 18" "0 \<le> low" "high \<le> 59"
    and "set keys \<subseteq> {low..high}" "distinct keys"
  shows "set keys' \<subseteq> {low..high} \<and> distinct keys'"
  using assms
proof (induction parts arbitrary: keys r)
  case Nil
  then show ?case by simp
next
  case (Cons p parts)
  from Cons.prems(1) obtain k2 r2 where p: "parse_part low high name p keys r = Inr (k2, r2)"
    and rest: "parse_parts low high name parts k2 r2 = Inr (keys', r')"
    by (auto simp: and_then_Inr)
  have "set k2 \<subseteq> {low..high} \<and> distinct k2"
    by (rule parse_part_keys [OF p]) (use Cons.prems in simp_all)
  then show ?case using Cons.IH [OF rest] Cons.prems by simp
qed

definition short_parts :: "string \<Rightarrow> bool" where
  "short_parts field = list_all (\<lambda>p. length p \<le> 18) (split_on CHR '','' field)"

lemma parse_field_keys:
  assumes "parse_field field low high name = Inr (keys, r)" "short_parts field" "0 \<le> low" "high \<le> 59"
  shows "set keys \<subseteq> {low..high}" "distinct keys" "keys \<noteq> []"
proof -
  from assms(1) have p: "parse_parts low high name (split_on CHR '','' field) [] False = Inr (keys, r)"
    and ne: "keys \<noteq> []"
    by (auto simp: parse_field_def and_then_Inr split: if_splits)
  from parse_parts_keys [OF p] assms(2-4)
  show "set keys \<subseteq> {low..high}" "distinct keys" by (simp_all add: short_parts_def list_all_iff)
  from ne show "keys \<noteq> []" .
qed

text \<open>Well-formed expressions: every field within its bounds, without repetitions.\<close>

definition wf_field :: "int \<Rightarrow> int \<Rightarrow> int list \<Rightarrow> bool" where
  "wf_field low high keys = (list_all (\<lambda>k. low \<le> k \<and> k \<le> high) keys \<and> distinct keys \<and> keys \<noteq> [])"

definition wf_expression :: "expression \<Rightarrow> bool" where
  "wf_expression e =
     (wf_field 0 59 (ex_minutes e) \<and> wf_field 0 23 (ex_hours e) \<and> wf_field 1 31 (ex_doms e) \<and>
      wf_field 1 12 (ex_months e) \<and> wf_field 0 6 (ex_dows e))"

lemma parse_field_wf:
  "parse_field field low high name = Inr (keys, r) \<Longrightarrow> short_parts field \<Longrightarrow> 0 \<le> low \<Longrightarrow> high \<le> 59
     \<Longrightarrow> wf_field low high keys"
  using parse_field_keys [of field low high name keys r] by (auto simp: wf_field_def list_all_iff)

section \<open>The walk in UTC is a search over day numbers\<close>

definition utc_times :: "expression \<Rightarrow> int \<Rightarrow> instant list" where
  "utc_times e n =
     concat (map (\<lambda>h. map (\<lambda>mi. (n * 86400 + h * 3600 + mi * 60) * 1000000000) (cron_minutes e))
       (cron_hours e))"

definition utc_rule :: "expression \<Rightarrow> int \<Rightarrow> bool" where
  "utc_rule e n = (case civil_of_day n of (y, m, d) \<Rightarrow> day_rule e m d ((n + 4) mod 7))"

definition utc_hit :: "expression \<Rightarrow> instant \<Rightarrow> int \<Rightarrow> instant option" where
  "utc_hit e after n = (if utc_rule e n then find (\<lambda>at. after < at) (utc_times e n) else None)"

lemma utc_midnight:
  "local_day utc (go_date utc y m d 0 0 0 0) = norm_day_number y m d"
  by (rule utc_local_day_go_date) simp_all

lemma utc_day_times: "day_times e utc y m d = utc_times e (norm_day_number y m d)"
  by (simp add: day_times_def utc_times_def go_date_utc)

lemma cron_walk_utc:
  "cron_walk k e utc after y m d =
     first_some (utc_hit e after) (map (\<lambda>i. norm_day_number y m d + int i) [0..<k])"
proof (induction k arbitrary: y m d)
  case 0
  show ?case by simp
next
  case (Suc k)
  define n where "n = norm_day_number y m d"
  obtain y' m' d' where c: "civil_of_day n = (y', m', d')" by (rule prod_cases3)
  note v = civil_of_day_valid [OF c]
  have "1 \<le> m'" "m' \<le> 12" using v(1) by (simp_all add: valid_date_def)
  then have next_n: "norm_day_number y' m' (d' + 1) = n + 1"
    using v(2) by (simp add: norm_day_number_valid day_number_def)
  have s: "date_of utc (go_date utc y m d 0 0 0 0) = (y', m', d')"
    by (simp add: date_of_def utc_midnight n_def [symmetric] c)
  have hit: "(if matches_day e utc (go_date utc y m d 0 0 0 0)
        then find (\<lambda>at. after < at) (day_times e utc y m d) else None) = utc_hit e after n"
    by (simp add: matches_day_def s utc_hit_def utc_rule_def c weekday_of_def utc_midnight
        n_def [symmetric] utc_day_times)
  have upt: "[0..<Suc k] = 0 # map Suc [0..<k]" by (metis map_Suc_upt upt_conv_Cons zero_less_Suc)
  show ?case
    by (simp only: cron_walk.simps Let_def hit s prod.case Suc.IH next_n upt)
      (simp add: n_def [symmetric] o_def algebra_simps split: option.split)
qed

lemma cron_next_utc:
  "cron_next e after None =
     first_some (utc_hit e after) (map (\<lambda>i. local_day utc after + int i) [0..<lookahead_days])"
proof -
  obtain y m d where c: "civil_of_day (local_day utc after) = (y, m, d)" by (rule prod_cases3)
  note v = civil_of_day_valid [OF c]
  have "1 \<le> m" "m \<le> 12" using v(1) by (simp_all add: valid_date_def)
  then have "norm_day_number y m d = local_day utc after"
    using v(2) by (simp add: norm_day_number_valid)
  then show ?thesis by (simp add: cron_next_def Let_def date_of_def c cron_walk_utc)
qed

text \<open>What a firing is: all five fields match, on the minute.\<close>

definition cron_fires :: "expression \<Rightarrow> location \<Rightarrow> instant \<Rightarrow> bool" where
  "cron_fires e loc t =
     (matches_day e loc t \<and> hour_of loc t \<in> set (ex_hours e) \<and> minute_of loc t \<in> set (ex_minutes e)
      \<and> second_of loc t = 0 \<and> nanosecond_of t = 0)"

lemma wf_field_bounds: "wf_field low high keys \<Longrightarrow> k \<in> set keys \<Longrightarrow> low \<le> k \<and> k \<le> high"
  by (auto simp: wf_field_def list_all_iff)

lemma utc_times_fire:
  assumes "wf_expression e" "at \<in> set (utc_times e n)"
  shows "local_day utc at = n" "hour_of utc at \<in> set (ex_hours e)"
    "minute_of utc at \<in> set (ex_minutes e)" "second_of utc at = 0" "nanosecond_of at = 0"
proof -
  obtain h mi where t: "at = (n * 86400 + h * 3600 + mi * 60) * 1000000000"
    and in_sets: "h \<in> set (ex_hours e)" "mi \<in> set (ex_minutes e)"
    using assms(2) by (auto simp: utc_times_def cron_hours_def cron_minutes_def)
  have b: "0 \<le> h" "h \<le> 23" "0 \<le> mi" "mi \<le> 59"
    using assms(1) in_sets by (auto simp: wf_expression_def dest: wf_field_bounds)
  have u: "unix_sec at = n * 86400 + h * 3600 + mi * 60" by (simp add: t unix_sec_def)
  show "local_day utc at = n" by (simp add: local_day_def u day_seconds [OF b])
  have "(h * 3600 + mi * 60) div 3600 = h"
    by (rule int_div_pos_eq [where r = "mi * 60"]) (use b in simp_all)
  then show "hour_of utc at \<in> set (ex_hours e)"
    using in_sets by (simp add: hour_of_def u day_seconds [OF b])
  have "(n * 86400 + h * 3600 + mi * 60) mod 3600 = mi * 60"
    by (rule int_mod_pos_eq [where q = "n * 24 + h"]) (use b in simp_all)
  then show "minute_of utc at \<in> set (ex_minutes e)" using in_sets by (simp add: minute_of_def u)
  have "(n * 86400 + h * 3600 + mi * 60) mod 60 = 0"
    by (rule int_mod_pos_eq [where q = "n * 1440 + h * 60 + mi"]) simp_all
  then show "second_of utc at = 0" by (simp add: second_of_def u)
  show "nanosecond_of at = 0" by (simp add: nanosecond_of_def t)
qed

lemma cron_fires_utc_times:
  "cron_fires e utc t \<longleftrightarrow> cron_fires e utc t \<and> t \<in> set (utc_times e (local_day utc t))"
proof -
  have "t \<in> set (utc_times e (local_day utc t))" if "cron_fires e utc t"
  proof -
    have "t = (local_day utc t * 86400 + hour_of utc t * 3600 + minute_of utc t * 60) * 1000000000"
      using utc_instant_split [of t] that by (simp add: cron_fires_def)
    then show ?thesis
      using that unfolding utc_times_def cron_fires_def cron_hours_def cron_minutes_def by auto
  qed
  then show ?thesis by blast
qed

lemma matches_day_utc: "matches_day e utc t = utc_rule e (local_day utc t)"
  by (simp add: matches_day_def date_of_def utc_rule_def weekday_of_def)

text \<open>
  What a caller of \<open>Hours\<close> and \<open>Minutes\<close> relies on: both lists strictly ascending and within
  a day. The firing instants of one day are then in order, which is what makes taking the
  first one after the cursor the same as taking the least one.
\<close>

locale clock_source =
  fixes good :: "'e \<Rightarrow> bool"
    and hours :: "'e \<Rightarrow> int list"
    and minutes :: "'e \<Rightarrow> int list"
  assumes hours_strict: "good e \<Longrightarrow> sorted_wrt (<) (hours e)"
    and minutes_strict: "good e \<Longrightarrow> sorted_wrt (<) (minutes e)"
    and hours_range: "good e \<Longrightarrow> h \<in> set (hours e) \<Longrightarrow> 0 \<le> h \<and> h \<le> 23"
    and minutes_range: "good e \<Longrightarrow> m \<in> set (minutes e) \<Longrightarrow> 0 \<le> m \<and> m \<le> 59"
begin

lemma clock_order:
  assumes "good e" "sorted_wrt (<) hs" "set hs \<subseteq> set (hours e)"
  shows "sorted_wrt (<) (concat (map (\<lambda>h. map (\<lambda>m. h * 60 + m) (minutes e)) hs))"
  using assms(2,3)
proof (induction hs)
  case Nil
  then show ?case by simp
next
  case (Cons h hs)
  have "sorted_wrt (<) (map (\<lambda>m. h * 60 + m) (minutes e))"
    using minutes_strict [OF assms(1)] by (simp add: sorted_wrt_map)
  moreover have "h * 60 + m < h' * 60 + m'"
    if "h' \<in> set hs" "m \<in> set (minutes e)" "m' \<in> set (minutes e)" for h' m m'
  proof -
    have "h + 1 \<le> h'" using Cons.prems(1) that(1) by auto
    moreover have "m \<le> 59" "0 \<le> m'" using minutes_range [OF assms(1)] that(2,3) by auto
    ultimately show ?thesis by simp
  qed
  ultimately show ?case using Cons by (auto simp: sorted_wrt_append)
qed

lemma day_clocks_strict:
  "good e \<Longrightarrow> sorted_wrt (<) (concat (map (\<lambda>h. map (\<lambda>m. h * 60 + m) (minutes e)) (hours e)))"
  using clock_order [of e "hours e"] hours_strict by simp

lemma day_times_sorted:
  assumes "good e"
  shows "sorted (concat (map (\<lambda>h. map (\<lambda>m. (n * 86400 + h * 3600 + m * 60) * 1000000000) (minutes e))
    (hours e)))"
proof -
  let ?f = "\<lambda>c. (n * 86400 + c * 60) * (1000000000::int)"
  have "concat (map (\<lambda>h. map (\<lambda>m. (n * 86400 + h * 3600 + m * 60) * 1000000000) (minutes e)) (hours e))
      = map ?f (concat (map (\<lambda>h. map (\<lambda>m. h * 60 + m) (minutes e)) (hours e)))"
    by (simp add: map_concat o_def algebra_simps)
  moreover have "sorted_wrt (<) (concat (map (\<lambda>h. map (\<lambda>m. h * 60 + m) (minutes e)) (hours e)))"
    by (rule day_clocks_strict [OF assms])
  ultimately show ?thesis
    by (simp add: sorted_wrt_map sorted_wrt_mono_rel [of _ "(<)" "\<lambda>x y. x \<le> y"])
qed

end

interpretation cron_clock: clock_source wf_expression cron_hours cron_minutes
  by unfold_locales
    (auto simp: cron_hours_def cron_minutes_def wf_expression_def wf_field_def list_all_iff
      strict_sorted_iff)

lemma utc_times_sorted: "wf_expression e \<Longrightarrow> sorted (utc_times e n)"
  unfolding utc_times_def by (rule cron_clock.day_times_sorted)

lemma find_sorted_least:
  fixes xs :: "'a::linorder list"
  shows "sorted xs \<Longrightarrow> find p xs = Some x \<Longrightarrow> z \<in> set xs \<Longrightarrow> p z \<Longrightarrow> x \<le> z"
  by (induction xs) (auto split: if_splits)

lemma local_day_mono: "s \<le> t \<Longrightarrow> local_day utc s \<le> local_day utc t"
  by (simp add: local_day_def unix_sec_def zdiv_mono1)

lemma utc_hit_Some:
  assumes "wf_expression e" "utc_hit e after n = Some at"
  shows "after < at" "local_day utc at = n" "cron_fires e utc at"
    "\<forall>t. cron_fires e utc t \<and> after < t \<and> local_day utc t = n \<longrightarrow> at \<le> t"
proof -
  from assms(2) have r: "utc_rule e n" and f: "find (\<lambda>at. after < at) (utc_times e n) = Some at"
    by (auto simp: utc_hit_def split: if_splits)
  from find_SomeD [OF f] have at: "at \<in> set (utc_times e n)" "after < at" by simp_all
  show "after < at" by (rule at(2))
  show d: "local_day utc at = n" by (rule utc_times_fire(1) [OF assms(1) at(1)])
  show "cron_fires e utc at"
    unfolding cron_fires_def matches_day_utc using utc_times_fire [OF assms(1) at(1)] r by simp
  show "\<forall>t. cron_fires e utc t \<and> after < t \<and> local_day utc t = n \<longrightarrow> at \<le> t"
    using find_sorted_least [OF utc_times_sorted [OF assms(1)] f] cron_fires_utc_times by blast
qed

lemma utc_hit_None:
  assumes "utc_hit e after n = None" "cron_fires e utc t" "local_day utc t = n"
  shows "t \<le> after"
proof -
  have "utc_rule e n" using assms(2,3) by (simp add: cron_fires_def matches_day_utc)
  with assms(1) have "find (\<lambda>at. after < at) (utc_times e n) = None" by (simp add: utc_hit_def)
  moreover have "t \<in> set (utc_times e n)" using cron_fires_utc_times assms(2,3) by blast
  ultimately show ?thesis by (auto simp: find_None_iff)
qed

lemma cron_next_utc_Some:
  assumes "wf_expression e" "cron_next e after None = Some at"
  shows "after < at" "cron_fires e utc at"
    "\<forall>t. cron_fires e utc t \<and> after < t \<longrightarrow> at \<le> t"
proof -
  define days where "days = map (\<lambda>i. local_day utc after + int i) [0..<lookahead_days]"
  have "first_some (utc_hit e after) days = Some at"
    using assms(2) by (simp add: cron_next_utc days_def)
  from first_some_split [OF this] obtain us n vs
    where split: "days = us @ n # vs" and hit: "utc_hit e after n = Some at"
    and before: "\<forall>u \<in> set us. utc_hit e after u = None" by blast
  note h = utc_hit_Some [OF assms(1) hit]
  show "after < at" "cron_fires e utc at" by (rule h)+
  have us: "u \<in> set us" if "local_day utc after \<le> u" "u < n" for u
  proof -
    have len: "length us < lookahead_days"
      using arg_cong [OF split, of length] by (simp add: days_def)
    have n: "n = local_day utc after + int (length us)"
      using arg_cong [OF split, of "\<lambda>xs. xs ! length us"] len by (simp add: days_def)
    have "us = take (length us) days" by (simp add: split)
    also have "\<dots> = map (\<lambda>i. local_day utc after + int i) [0..<length us]"
      using len by (simp add: days_def take_map)
    finally have "set us = (\<lambda>i. local_day utc after + int i) ` {0..<length us}"
      by (metis list.set_map set_upt)
    moreover have "u = local_day utc after + int (nat (u - local_day utc after))"
      "nat (u - local_day utc after) < length us"
      using that n by simp_all
    ultimately show ?thesis by (metis atLeastLessThan_iff imageI le0)
  qed
  show "\<forall>t. cron_fires e utc t \<and> after < t \<longrightarrow> at \<le> t"
  proof (intro allI impI)
    fix t assume t: "cron_fires e utc t \<and> after < t"
    then have lo: "local_day utc after \<le> local_day utc t" by (simp add: local_day_mono)
    show "at \<le> t"
    proof (rule ccontr)
      assume "\<not> at \<le> t"
      then have "local_day utc t \<le> n" using h(2) local_day_mono [of t at] by simp
      moreover have "local_day utc t \<noteq> n" using h(4) t \<open>\<not> at \<le> t\<close> by blast
      ultimately have "local_day utc t \<in> set us" using us lo by simp
      then have "t \<le> after" using utc_hit_None before t by blast
      with t show False by simp
    qed
  qed
qed

lemma cron_next_utc_None:
  assumes "cron_next e after None = None" "cron_fires e utc t" "after < t"
  shows "local_day utc after + int lookahead_days \<le> local_day utc t"
proof (rule ccontr)
  assume far: "\<not> local_day utc after + int lookahead_days \<le> local_day utc t"
  have lo: "local_day utc after \<le> local_day utc t" using assms(3) by (simp add: local_day_mono)
  define i where "i = nat (local_day utc t - local_day utc after)"
  have i: "local_day utc t = local_day utc after + int i" "i < lookahead_days"
    using lo far by (simp_all add: i_def)
  have "\<forall>n \<in> set (map (\<lambda>i. local_day utc after + int i) [0..<lookahead_days]). utc_hit e after n = None"
    using assms(1) by (simp add: cron_next_utc first_some_None)
  then have "utc_hit e after (local_day utc t) = None" using i by simp
  from utc_hit_None [OF this assms(2) refl] assms(3) show False by simp
qed

section \<open>In any zone\<close>

lemma cron_walk_sound:
  "cron_walk k e loc after y m d = Some at \<Longrightarrow>
     after < at \<and> (\<exists>y m d. matches_day e loc (go_date loc y m d 0 0 0 0) \<and>
       (\<exists>h \<in> set (ex_hours e). \<exists>mi \<in> set (ex_minutes e). at = go_date loc y m d h mi 0 0))"
proof (induction k arbitrary: y m d)
  case 0
  then show ?case by simp
next
  case (Suc k)
  define start where "start = go_date loc y m d 0 0 0 0"
  show ?case
  proof (cases "if matches_day e loc start then find (\<lambda>at. after < at) (day_times e loc y m d) else None")
    case None
    then show ?thesis
      using Suc by (auto simp: start_def [symmetric] Let_def split: prod.splits)
  next
    case (Some at')
    then have "at' = at" using Suc.prems by (simp add: start_def [symmetric] Let_def)
    with Some have m: "matches_day e loc start"
      and f: "find (\<lambda>at. after < at) (day_times e loc y m d) = Some at"
      by (auto split: if_splits)
    from find_SomeD [OF f] have "after < at" "at \<in> set (day_times e loc y m d)" by simp_all
    moreover from \<open>at \<in> set (day_times e loc y m d)\<close>
    have "\<exists>h \<in> set (ex_hours e). \<exists>mi \<in> set (ex_minutes e). at = go_date loc y m d h mi 0 0"
      by (auto simp: day_times_def cron_hours_def cron_minutes_def)
    ultimately show ?thesis using m unfolding start_def by blast
  qed
qed

text \<open>
  A day whose midnight resolves into the day before it stops the walk: the next day it
  tries is the same one again.
\<close>

lemma cron_walk_stuck:
  assumes "date_of loc (go_date loc y m d 0 0 0 0) = (y, m, d - 1)"
    and "\<not> matches_day e loc (go_date loc y m d 0 0 0 0)"
  shows "cron_walk k e loc after y m d = None"
proof (induction k)
  case (Suc k)
  then show ?case using assms by (simp add: Let_def)
qed simp

lemma cron_parse_fields:
  assumes "cron_parse text = Inr e" and "list_all short_parts (go_fields text)"
  shows "wf_expression e"
proof -
  have len: "length (go_fields text) = 5"
    using assms(1) by (auto simp: cron_parse_def Let_def split: if_splits)
  have short: "short_parts (go_fields text ! i)" if "i < 5" for i
    using assms(2) that len by (simp add: list_all_length)
  show ?thesis
    using assms(1) len short
    by (auto simp: cron_parse_def Let_def and_then_Inr wf_expression_def split: if_splits
        elim!: parse_field_wf)
qed

section \<open>Properties\<close>



text \<open>C15: in UTC the search returns the least instant after the cursor at which the
  expression fires, and returns nothing only if it fires on none of the days looked at.\<close>

theorem cron_next_least:
  assumes "wf_expression e"
  shows "case cron_next e after None of
      Some at \<Rightarrow> after < at \<and> cron_fires e utc at
        \<and> (\<forall>t. cron_fires e utc t \<and> after < t \<longrightarrow> at \<le> t)
    | None \<Rightarrow> (\<forall>t. cron_fires e utc t \<and> after < t
        \<longrightarrow> local_day utc after + int lookahead_days \<le> local_day utc t)"
  using cron_next_utc_Some [OF assms] cron_next_utc_None
  by (cases "cron_next e after None") simp_all

theorem cron_next_least_witness:
  "let e = \<lparr>ex_minutes = [30], ex_hours = [9], ex_doms = [1], ex_months = [1],
        ex_dows = [0], ex_dom_restricted = True, ex_dow_restricted = False\<rparr>
   in case cron_next e 0 None of
      Some at \<Rightarrow> 0 < at \<and> cron_fires e utc at
        \<and> (\<forall>t. cron_fires e utc t \<and> 0 < t \<longrightarrow> at \<le> t)
    | None \<Rightarrow> (\<forall>t. cron_fires e utc t \<and> 0 < t
        \<longrightarrow> local_day utc 0 + int lookahead_days \<le> local_day utc t)"
  unfolding Let_def by (rule cron_next_least) code_simp

text \<open>In every zone the result is after the cursor and is one of the expression's times
  of day on a day whose midnight matches.\<close>

theorem cron_next_in_zone:
  assumes "cron_next e after (Some loc) = Some at"
  shows "after < at \<and> (\<exists>y m d. matches_day e loc (go_date loc y m d 0 0 0 0) \<and>
    (\<exists>h \<in> set (ex_hours e). \<exists>mi \<in> set (ex_minutes e). at = go_date loc y m d h mi 0 0))"
  using assms cron_walk_sound by (auto simp: cron_next_def Let_def split: prod.splits)

text \<open>Two zone tables, as the host's database has them around 2026.\<close>

definition santiago :: location where
  "santiago = \<lparr>loc_name = ''America/Santiago'', loc_base = - 10800,
     loc_trans = [(1775358000, - 14400), (1788667200, - 10800), (1806807600, - 14400)]\<rparr>"

definition new_york :: location where
  "new_york = \<lparr>loc_name = ''America/New_York'', loc_base = - 18000,
     loc_trans = [(1772953200, - 14400), (1793512800, - 18000)]\<rparr>"

definition first_at_nine :: expression where
  "first_at_nine = \<lparr>ex_minutes = [0], ex_hours = [9], ex_doms = [1],
     ex_months = [12, 11, 10, 9, 8, 7, 6, 5, 4, 3, 2, 1], ex_dows = [6, 5, 4, 3, 2, 1, 0],
     ex_dom_restricted = True, ex_dow_restricted = False\<rparr>"

lemma lookahead_Suc: "lookahead_days = Suc 1499"
  by (simp add: lookahead_days_def)

lemma santiago_days:
  "date_of santiago 1788609600000000000 = (2026, 9, 5)"
  "date_of santiago (go_date santiago 2026 9 5 0 0 0 0) = (2026, 9, 5)"
  "date_of santiago (go_date santiago 2026 9 6 0 0 0 0) = (2026, 9, 5)"
  "date_of santiago (go_date santiago 2026 10 1 9 0 0 0) = (2026, 10, 1)"
  by (rule date_ofI; simp add: date_eval santiago_def go_date_eval)+

lemma santiago_stuck: "cron_walk n first_at_nine santiago after 2026 9 6 = None"
  by (rule cron_walk_stuck)
    (simp_all add: santiago_days matches_day_def day_rule_def first_at_nine_def)

lemma santiago_none: "cron_walk (Suc n) first_at_nine santiago after 2026 9 5 = None"
  by (simp add: Let_def santiago_days santiago_stuck matches_day_def)
    (simp add: day_rule_def first_at_nine_def)


definition daily_half_past_two :: expression where
  "daily_half_past_two = \<lparr>ex_minutes = [30], ex_hours = [2],
     ex_doms = [31, 30, 29, 28, 27, 26, 25, 24, 23, 22, 21, 20, 19, 18, 17, 16, 15, 14, 13, 12,
       11, 10, 9, 8, 7, 6, 5, 4, 3, 2, 1],
     ex_months = [12, 11, 10, 9, 8, 7, 6, 5, 4, 3, 2, 1], ex_dows = [6, 5, 4, 3, 2, 1, 0],
     ex_dom_restricted = False, ex_dow_restricted = False\<rparr>"

lemma new_york_days:
  "date_of new_york 1772947800000000000 = (2026, 3, 8)"
  "date_of new_york (go_date new_york 2026 3 8 0 0 0 0) = (2026, 3, 8)"
  by (rule date_ofI; simp add: date_eval new_york_def go_date_eval)+

lemma new_york_walk:
  "cron_walk (Suc n) daily_half_past_two new_york 1772947800000000000 2026 3 8
     = Some 1772951400000000000"
proof -
  have "day_times daily_half_past_two new_york 2026 3 8 = [1772951400000000000]"
    by (simp add: day_times_def cron_hours_def cron_minutes_def daily_half_past_two_def
        go_date_eval new_york_def)
  moreover have "matches_day daily_half_past_two new_york (go_date new_york 2026 3 8 0 0 0 0)"
    by (simp add: matches_day_def new_york_days day_rule_def daily_half_past_two_def)
  ultimately show ?thesis by (simp add: Let_def)
qed

text \<open>A firing inside the gap of a spring transition does not always move forward: a job
  at 02:30 daily runs at 01:30 local time in New York on 8 March 2026.\<close>

theorem cron_gap_moves_back_west:
  "cron_parse ''30 2 * * *'' = Inr daily_half_past_two
   \<and> (\<exists>at. cron_next daily_half_past_two 1772947800000000000 (Some new_york) = Some at
        \<and> hour_of new_york at = 1 \<and> minute_of new_york at = 30)"
proof (intro conjI exI)
  show "cron_parse ''30 2 * * *'' = Inr daily_half_past_two" by code_simp
  show "cron_next daily_half_past_two 1772947800000000000 (Some new_york)
      = Some 1772951400000000000"
    by (simp only: cron_next_def Let_def option.case new_york_days prod.case lookahead_Suc new_york_walk)
qed (simp_all add: date_eval new_york_def)

definition leap_day_at_two :: expression where
  "leap_day_at_two = \<lparr>ex_minutes = [0], ex_hours = [2], ex_doms = [29], ex_months = [2],
     ex_dows = [6, 5, 4, 3, 2, 1, 0], ex_dom_restricted = True, ex_dow_restricted = False\<rparr>"

lemma no_leap_day_after_2096:
  assumes "46081 \<le> n" "n < 47581"
  shows "\<not> utc_rule leap_day_at_two n"
proof
  obtain y m d where c: "civil_of_day n = (y, m, d)" by (rule prod_cases3)
  note v = civil_of_day_valid [OF c]
  assume "utc_rule leap_day_at_two n"
  then have md: "m = 2" "d = 29"
    by (simp_all add: utc_rule_def c day_rule_def leap_day_at_two_def split: if_splits)
  then have leap: "is_leap y" using v(1) by (simp add: valid_date_def month_len_def split: if_splits)
  have n: "n = days_before_year y + 31 + 29 - 1 - 719162"
    using v(2) by (simp add: day_number_def md days_before_month_def)
  have "2097 \<le> y"
  proof (rule ccontr)
    assume "\<not> 2097 \<le> y"
    then have "days_before_year y \<le> days_before_year 2096" by (intro days_before_year_mono) simp
    then show False using n assms(1) by (simp add: days_before_year_def)
  qed
  moreover have "y \<le> 2100"
  proof (rule ccontr)
    assume "\<not> y \<le> 2100"
    then have "days_before_year 2101 \<le> days_before_year y" by (intro days_before_year_mono) simp
    then show False using n assms(2) by (simp add: days_before_year_def)
  qed
  ultimately have "y \<in> {2097, 2098, 2099, 2100}" by auto
  then show False using leap by (auto simp: is_leap_def)
qed

text \<open>The four years and change of the search are too short at the end of a century: from
  1 March 2096 the schedule "02:00 on 29 February" has no next firing, although it fires on
  29 February 2104.\<close>

theorem cron_next_misses_century_leap_day:
  "cron_parse ''0 2 29 2 *'' = Inr leap_day_at_two
   \<and> cron_next leap_day_at_two (go_date utc 2096 3 1 0 0 0 0) None = None
   \<and> cron_fires leap_day_at_two utc (go_date utc 2104 2 29 2 0 0 0)"
proof (intro conjI)
  show "cron_parse ''0 2 29 2 *'' = Inr leap_day_at_two" by code_simp
  show "cron_next leap_day_at_two (go_date utc 2096 3 1 0 0 0 0) None = None"
    by (simp add: cron_next_utc first_some_None utc_hit_def utc_midnight lookahead_days_def)
      (simp add: norm_day_number_def day_number_def days_before_year_def days_before_month_def
        is_leap_def no_leap_day_after_2096)
  have "date_of utc (go_date utc 2104 2 29 2 0 0 0) = (2104, 2, 29)"
    by (rule utc_fields_go_date) (simp_all add: date_eval)
  then show "cron_fires leap_day_at_two utc (go_date utc 2104 2 29 2 0 0 0)"
    by (simp add: cron_fires_def matches_day_def day_rule_def leap_day_at_two_def)
      (simp add: date_eval go_date_eval utc_def)
qed

text \<open>The loop variable of a field's expansion overflows for steps close to the 64-bit
  maximum: "from 5, every 9223372036854775807 minutes" is accepted and also matches minutes
  1 and 3.\<close>

theorem cron_step_overflow:
  "parse_field ''5/9223372036854775807'' 0 59 ''minute'' =
     Inr ([- 1, - 9223372036854775808, 1, - 9223372036854775806, 3, - 9223372036854775804, 5], True)"
  by (simp add: parse_field_def parse_part_def part_step_def part_bounds_def trim_space_def
      trim_right_def is_space_def code_of_def atoi_def is_digit_def check_int64_def in_int64_def
      min_int64_def max_int64_def expand.simps wrap64_def)

end
