(* ===== verification/Maintenance.thy ===== *)
theory Maintenance
  imports Cron
begin

text \<open>
  Maintenance schedules (\<open>internal/maintenance/schedule.go\<close>): what a window is, the occurrence
  that has not finished by an instant, and the state the API derives from it. Loading a zone by
  name is a parameter, \<open>zones\<close>; a cron expression is parsed by \<open>Cron\<close>.
\<close>

section \<open>Windows\<close>

definition StrategySingle :: string where "StrategySingle = ''single''"
definition StrategyRecurringDaily :: string where "StrategyRecurringDaily = ''recurring_daily''"
definition StrategyRecurringWeekly :: string where "StrategyRecurringWeekly = ''recurring_weekly''"
definition StrategyRecurringMonthly :: string where "StrategyRecurringMonthly = ''recurring_monthly''"
definition StrategyCron :: string where "StrategyCron = ''cron''"

lemmas strategy_defs = StrategySingle_def StrategyRecurringDaily_def StrategyRecurringWeekly_def
  StrategyRecurringMonthly_def StrategyCron_def

record recurrence =
  rc_weekdays :: "int list"
  rc_days_of_month :: "int list"
  rc_cron :: string
  rc_until :: "instant option"

text \<open>The fields of a window its schedule is made of.\<close>

record schedule =
  w_strategy :: string
  w_timezone :: string
  w_starts_at :: instant
  w_ends_at :: "instant option"
  w_duration :: duration
  w_recurrence :: recurrence
  w_cancelled_at :: "instant option"

record occurrence =
  o_start :: instant
  o_end :: instant

definition covers :: "occurrence \<Rightarrow> instant \<Rightarrow> bool" where
  "covers oc t = (o_start oc \<le> t \<and> t < o_end oc)"

datatype schedule_error =
  Unknown_timezone string | Needs_duration string | Needs_weekday | Weekday_outside int
| Needs_day_of_month | Day_of_month_outside int | Bad_cron cron_error | Unknown_strategy string

section \<open>The parts of a schedule\<close>

definition zone :: "(string \<Rightarrow> location option) \<Rightarrow> string \<Rightarrow> schedule_error + location" where
  "zone zones name =
     (if name = '''' \<or> name = ''UTC'' then Inr utc
      else expect (Unknown_timezone name) (zones name))"

definition parse_cron :: "string \<Rightarrow> schedule_error + expression" where
  "parse_cron s = (case cron_parse s of Inl e \<Rightarrow> Inl (Bad_cron e) | Inr ex \<Rightarrow> Inr ex)"

definition single_end :: "schedule \<Rightarrow> instant" where
  "single_end w =
     (case w_ends_at w of
        Some t \<Rightarrow> t
      | None \<Rightarrow> if 0 < w_duration w then w_starts_at w + w_duration w else w_starts_at w)"

text \<open>The times of day an occurrence begins at, on a day it happens.\<close>

definition start_times :: "(string \<Rightarrow> location option) \<Rightarrow> schedule \<Rightarrow> schedule_error + (int \<times> int) list" where
  "start_times zones w =
     (if w_strategy w \<noteq> StrategyCron then
        and_then (zone zones (w_timezone w))
          (\<lambda>loc. Inr [(hour_of loc (w_starts_at w), minute_of loc (w_starts_at w))])
      else
        and_then (parse_cron (rc_cron (w_recurrence w)))
          (\<lambda>ex. Inr (concat (map (\<lambda>h. map (\<lambda>m. (h, m)) (cron_minutes ex)) (cron_hours ex)))))"

text \<open>Whether an occurrence begins on the day of an instant, which is a local midnight.\<close>

definition day_matcher :: "schedule \<Rightarrow> schedule_error + (location \<Rightarrow> instant \<Rightarrow> bool)" where
  "day_matcher w =
     (let r = w_recurrence w in
      if w_strategy w = StrategyRecurringDaily then Inr (\<lambda>_ _. True)
      else if w_strategy w = StrategyRecurringWeekly then
        (if rc_weekdays r = [] then Inl Needs_weekday
         else case find (\<lambda>d. d < 0 \<or> 6 < d) (rc_weekdays r) of
                Some d \<Rightarrow> Inl (Weekday_outside d)
              | None \<Rightarrow> Inr (\<lambda>loc t. weekday_of loc t \<in> set (rc_weekdays r)))
      else if w_strategy w = StrategyRecurringMonthly then
        (if rc_days_of_month r = [] then Inl Needs_day_of_month
         else case find (\<lambda>d. d < 1 \<or> 31 < d) (rc_days_of_month r) of
                Some d \<Rightarrow> Inl (Day_of_month_outside d)
              | None \<Rightarrow> Inr (\<lambda>loc t. case date_of loc t of (_, _, d) \<Rightarrow> d \<in> set (rc_days_of_month r)))
      else if w_strategy w = StrategyCron then
        and_then (parse_cron (rc_cron r)) (\<lambda>ex. Inr (matches_day ex))
      else Inl (Unknown_strategy (w_strategy w)))"

section \<open>The search\<close>

text \<open>How a step of the search ends: with an occurrence, past the end of the recurrence, or not yet.\<close>

datatype search = Found occurrence | Past_until | Not_yet

definition schedule_lookahead_days :: nat where "schedule_lookahead_days = 1500"

fun try_clocks :: "schedule \<Rightarrow> location \<Rightarrow> instant \<Rightarrow> int \<times> int \<times> int \<Rightarrow> (int \<times> int) list \<Rightarrow> search" where
  "try_clocks w loc after ymd [] = Not_yet"
| "try_clocks w loc after ymd ((h, mi) # clocks) =
     (case ymd of (y, m, d) \<Rightarrow>
        let start = go_date loc y m d h mi 0 0;
            oc = \<lparr> o_start = start, o_end = start + w_duration w \<rparr>
        in if start < w_starts_at w then try_clocks w loc after ymd clocks
           else if (case rc_until (w_recurrence w) of None \<Rightarrow> False | Some u \<Rightarrow> u < start) then Past_until
           else if after < o_end oc then Found oc
           else try_clocks w loc after ymd clocks)"

definition try_day ::
  "schedule \<Rightarrow> location \<Rightarrow> (location \<Rightarrow> instant \<Rightarrow> bool) \<Rightarrow> (int \<times> int) list \<Rightarrow> instant \<Rightarrow> instant \<Rightarrow> search" where
  "try_day w loc matches clocks after day =
     (if matches loc day then try_clocks w loc after (date_of loc day) clocks else Not_yet)"

fun search_days :: "(instant \<Rightarrow> search) \<Rightarrow> instant list \<Rightarrow> search" where
  "search_days f [] = Not_yet"
| "search_days f (d # ds) = (case f d of Not_yet \<Rightarrow> search_days f ds | r \<Rightarrow> r)"

text \<open>The first midnight looked at: of the day before the later of the anchor and the cursor.\<close>

definition first_midnight :: "location \<Rightarrow> instant \<Rightarrow> instant" where
  "first_midnight loc start =
     (case date_of loc (add_date loc start 0 0 (-1)) of (y, m, d) \<Rightarrow> go_date loc y m d 0 0 0 0)"

definition candidate_days :: "location \<Rightarrow> instant \<Rightarrow> instant list" where
  "candidate_days loc start =
     map (\<lambda>i. add_date loc (first_midnight loc start) 0 0 (int i)) [0..<schedule_lookahead_days]"

definition next_occurrence ::
  "(string \<Rightarrow> location option) \<Rightarrow> schedule \<Rightarrow> instant \<Rightarrow> schedule_error + occurrence option" where
  "next_occurrence zones w after =
     (if w_cancelled_at w \<noteq> None then Inr None
      else and_then (zone zones (w_timezone w)) (\<lambda>loc.
        if w_strategy w = StrategySingle then
          (let oc = \<lparr> o_start = w_starts_at w, o_end = single_end w \<rparr>
           in Inr (if after < o_end oc then Some oc else None))
        else if w_duration w \<le> 0 then Inl (Needs_duration (w_strategy w))
        else and_then (day_matcher w) (\<lambda>matches. and_then (start_times zones w) (\<lambda>clocks.
          Inr (case search_days (try_day w loc matches clocks after)
                      (candidate_days loc (max (w_starts_at w) after)) of
                 Found oc \<Rightarrow> Some oc | _ \<Rightarrow> None)))))"

definition active_at :: "(string \<Rightarrow> location option) \<Rightarrow> schedule \<Rightarrow> instant \<Rightarrow> schedule_error + bool" where
  "active_at zones w t =
     and_then (next_occurrence zones w t)
       (\<lambda>oc. Inr (case oc of None \<Rightarrow> False | Some oc \<Rightarrow> covers oc t))"

datatype maintenance_state = MaintenanceScheduled | MaintenanceActive | MaintenanceEnded | MaintenanceCancelled

definition window_state :: "(string \<Rightarrow> location option) \<Rightarrow> schedule \<Rightarrow> instant \<Rightarrow> maintenance_state" where
  "window_state zones w t =
     (if w_cancelled_at w \<noteq> None then MaintenanceCancelled
      else case next_occurrence zones w t of
             Inl _ \<Rightarrow> MaintenanceEnded
           | Inr None \<Rightarrow> MaintenanceEnded
           | Inr (Some oc) \<Rightarrow> if covers oc t then MaintenanceActive else MaintenanceScheduled)"

end
