(* ===== verification/MaintenanceStore.thy ===== *)
theory MaintenanceStore
  imports Maintenance ControlStore "HOL-Library.List_Lexorder"
begin

text \<open>
  Maintenance windows in the database (\<open>internal/store/sqlite/maintenance.go\<close>), the sweep that
  keeps monitor state in step with them (\<open>internal/maintenance/sweep.go\<close>), and pausing
  (\<open>SetMonitorEnabled\<close> of \<open>monitors.go\<close>), which meets the sweep in the same row.

  The recurrence column holds the value its JSON encodes. Any database call may fail, as the
  field \<open>mt_faults\<close> says; a transaction that fails leaves nothing behind.
\<close>

section \<open>Tables\<close>

datatype target_type = TargetMonitor | TargetGroup | TargetTag

record targets =
  tg_monitors :: "ident list"
  tg_groups :: "ident list"
  tg_tags :: "ident list"

definition targets_empty :: "targets \<Rightarrow> bool" where
  "targets_empty t = (length (tg_monitors t) + length (tg_groups t) + length (tg_tags t) = 0)"

record maintenance_window =
  mw_id :: ident
  mw_org :: ident
  mw_title :: string
  mw_description :: string
  mw_schedule :: schedule
  mw_suppress :: bool
  mw_show :: bool
  mw_next :: "instant option"
  mw_targets :: targets
  mw_created :: instant
  mw_updated :: instant

record window_row =
  wr_id :: ident
  wr_org :: ident
  wr_title :: string
  wr_description :: "string option"
  wr_strategy :: string
  wr_timezone :: string
  wr_starts_at :: int
  wr_ends_at :: "int option"
  wr_minutes :: "int option"
  wr_recurrence :: recurrence
  wr_suppress :: bool
  wr_show :: bool
  wr_cancelled_at :: "int option"
  wr_next :: "int option"
  wr_created :: int
  wr_updated :: int

record target_row =
  tr_window :: ident
  tr_type :: target_type
  tr_target :: ident

datatype maint_fault =
  Fault_due | Fault_next ident | Fault_under | Fault_apply | Fault_windows | Fault_enabled

datatype maint_error = Window_not_found | Maint_database | No_such_table string

record maint_db =
  mt_store :: store
  mt_windows :: "window_row list"
  mt_targets :: "target_row list"
  mt_pages :: "(ident \<times> ident) list"
  mt_groups :: "ident \<rightharpoonup> ident"
  mt_tags :: "(ident \<times> ident) list"
  mt_faults :: "maint_fault set"

definition ms_of :: "instant \<Rightarrow> int" where "ms_of t = t div 1000000"
definition of_ms :: "int \<Rightarrow> instant" where "of_ms ms = ms * 1000000"

text \<open>\<open>int64(d.Minutes())\<close>: the float of the whole minutes and of the rest, truncated.\<close>

definition duration_minutes :: "duration \<Rightarrow> rat" where
  "duration_minutes d =
     float_add (float_of_int (go_div d minute)) (float_div (float_of_int (go_mod d minute)) (float_of_int minute))"

definition null_minutes :: "duration \<Rightarrow> int option" where
  "null_minutes d = (if d \<le> 0 then None else Some \<lfloor>duration_minutes d\<rfloor>)"

section \<open>Writing and reading a window\<close>

definition row_of_window :: "maintenance_window \<Rightarrow> window_row" where
  "row_of_window w =
     (let s = mw_schedule w in
      \<lparr> wr_id = mw_id w, wr_org = mw_org w, wr_title = mw_title w,
        wr_description = null_string (mw_description w), wr_strategy = w_strategy s,
        wr_timezone = w_timezone s, wr_starts_at = ms_of (w_starts_at s),
        wr_ends_at = map_option ms_of (w_ends_at s), wr_minutes = null_minutes (w_duration s),
        wr_recurrence = w_recurrence s, wr_suppress = mw_suppress w, wr_show = mw_show w,
        wr_cancelled_at = map_option ms_of (w_cancelled_at s), wr_next = map_option ms_of (mw_next w),
        wr_created = ms_of (mw_created w), wr_updated = ms_of (mw_updated w) \<rparr>)"

definition target_rows :: "maintenance_window \<Rightarrow> target_row list" where
  "target_rows w =
     (let rows = (\<lambda>ty. map (\<lambda>i. \<lparr> tr_window = mw_id w, tr_type = ty, tr_target = i \<rparr>))
      in rows TargetMonitor (tg_monitors (mw_targets w)) @ rows TargetGroup (tg_groups (mw_targets w)) @
         rows TargetTag (tg_tags (mw_targets w)))"

text \<open>The unique index over the targets refuses a second row, and with it the transaction.\<close>

definition write_targets :: "maintenance_window \<Rightarrow> target_row list \<Rightarrow> maint_error + target_row list" where
  "write_targets w table =
     (if distinct (table @ target_rows w) then Inr (table @ target_rows w) else Inl Maint_database)"

definition write_pages :: "ident \<Rightarrow> ident list \<Rightarrow> (ident \<times> ident) list \<Rightarrow> maint_error + (ident \<times> ident) list" where
  "write_pages i pages table =
     (if distinct (table @ map (Pair i) pages) then Inr (table @ map (Pair i) pages) else Inl Maint_database)"

text \<open>The table's own check on the strategy. Foreign keys are taken to hold.\<close>

definition known_strategies :: "string list" where
  "known_strategies =
     [StrategySingle, StrategyRecurringDaily, StrategyRecurringWeekly, StrategyRecurringMonthly, StrategyCron]"

definition create_window :: "maint_db \<Rightarrow> maintenance_window \<Rightarrow> ident list \<Rightarrow> maint_error + maint_db" where
  "create_window db w pages =
     (if Fault_windows \<in> mt_faults db \<or> mw_id w \<in> wr_id ` set (mt_windows db) \<or>
         w_strategy (mw_schedule w) \<notin> set known_strategies then Inl Maint_database
      else and_then (write_targets w (mt_targets db)) (\<lambda>ts. and_then (write_pages (mw_id w) pages (mt_pages db)) (\<lambda>ps.
        Inr (db \<lparr> mt_windows := mt_windows db @ [row_of_window w], mt_targets := ts, mt_pages := ps \<rparr>))))"

text \<open>An update writes every column but the ids, the time of creation and the cancellation it leaves to.\<close>

definition update_window :: "maint_db \<Rightarrow> maintenance_window \<Rightarrow> ident list \<Rightarrow> maint_error + maint_db" where
  "update_window db w pages =
     (if Fault_windows \<in> mt_faults db then Inl Maint_database
      else if mw_id w \<notin> wr_id ` set (mt_windows db) then Inl Window_not_found
      else if w_strategy (mw_schedule w) \<notin> set known_strategies then Inl Maint_database
      else and_then (write_targets w (filter (\<lambda>t. tr_window t \<noteq> mw_id w) (mt_targets db))) (\<lambda>ts.
        and_then (write_pages (mw_id w) pages (filter (\<lambda>p. fst p \<noteq> mw_id w) (mt_pages db))) (\<lambda>ps.
        Inr (db \<lparr> mt_windows := map (\<lambda>r. if wr_id r = mw_id w
                                          then row_of_window w \<lparr> wr_org := wr_org r, wr_created := wr_created r \<rparr>
                                          else r) (mt_windows db),
                  mt_targets := ts, mt_pages := ps \<rparr>))))"

definition load_targets :: "target_row list \<Rightarrow> ident \<Rightarrow> targets" where
  "load_targets table i =
     (let of_type = (\<lambda>ty. sort (map tr_target (filter (\<lambda>t. tr_window t = i \<and> tr_type t = ty) table)))
      in \<lparr> tg_monitors = of_type TargetMonitor, tg_groups = of_type TargetGroup, tg_tags = of_type TargetTag \<rparr>)"

definition scan_window :: "target_row list \<Rightarrow> window_row \<Rightarrow> maintenance_window" where
  "scan_window table r =
     \<lparr> mw_id = wr_id r, mw_org = wr_org r, mw_title = wr_title r,
       mw_description = (case wr_description r of None \<Rightarrow> '''' | Some s \<Rightarrow> s),
       mw_schedule =
         \<lparr> w_strategy = wr_strategy r, w_timezone = wr_timezone r, w_starts_at = of_ms (wr_starts_at r),
           w_ends_at = map_option of_ms (wr_ends_at r),
           w_duration = (case wr_minutes r of None \<Rightarrow> 0 | Some m \<Rightarrow> wrap64 (m * minute)),
           w_recurrence = wr_recurrence r, w_cancelled_at = map_option of_ms (wr_cancelled_at r) \<rparr>,
       mw_suppress = wr_suppress r, mw_show = wr_show r, mw_next = map_option of_ms (wr_next r),
       mw_targets = load_targets table (wr_id r),
       mw_created = of_ms (wr_created r), mw_updated = of_ms (wr_updated r) \<rparr>"

definition get_window :: "maint_db \<Rightarrow> ident \<Rightarrow> maint_error + maintenance_window" where
  "get_window db i =
     (if Fault_windows \<in> mt_faults db then Inl Maint_database
      else case find (\<lambda>r. wr_id r = i) (mt_windows db) of
             None \<Rightarrow> Inl Window_not_found
           | Some r \<Rightarrow> Inr (scan_window (mt_targets db) r))"

text \<open>The rows that refer to a window go with it.\<close>

definition delete_window :: "maint_db \<Rightarrow> ident \<Rightarrow> maint_error + maint_db" where
  "delete_window db i =
     (if Fault_windows \<in> mt_faults db then Inl Maint_database
      else if i \<notin> wr_id ` set (mt_windows db) then Inl Window_not_found
      else Inr (db \<lparr> mt_windows := filter (\<lambda>r. wr_id r \<noteq> i) (mt_windows db),
                     mt_targets := filter (\<lambda>t. tr_window t \<noteq> i) (mt_targets db),
                     mt_pages := filter (\<lambda>p. fst p \<noteq> i) (mt_pages db) \<rparr>))"

section \<open>Ids that must exist\<close>

definition allowed_id_tables :: "string list" where
  "allowed_id_tables = [''monitors'', ''groups'', ''tags'', ''status_pages'']"

text \<open>\<open>tables\<close> gives the ids and organisations of a table; \<open>broken\<close> whether the query fails.\<close>

definition missing_ids ::
  "(string \<Rightarrow> (ident \<times> ident) list) \<Rightarrow> bool \<Rightarrow> string \<Rightarrow> ident \<Rightarrow> ident list \<Rightarrow> maint_error + ident list" where
  "missing_ids tables broken name org ids =
     (if ids = [] then Inr []
      else if name \<notin> set allowed_id_tables then Inl (No_such_table name)
      else if broken then Inl Maint_database
      else let found = map fst (filter (\<lambda>(i, o'). o' = org \<and> i \<in> set ids) (tables name))
           in Inr (filter (\<lambda>i. i \<notin> set found) ids))"

section \<open>The queries of the sweep\<close>

definition window_due :: "instant \<Rightarrow> window_row \<Rightarrow> bool" where
  "window_due now r =
     (wr_org r = sentinel_org \<and> wr_cancelled_at r = None \<and>
      (case wr_next r of None \<Rightarrow> True | Some ms \<Rightarrow> ms \<le> ms_of now))"

definition due_windows :: "maint_db \<Rightarrow> instant \<Rightarrow> maint_error + maintenance_window list" where
  "due_windows db now =
     (if Fault_due \<in> mt_faults db then Inl Maint_database
      else Inr (map (scan_window (mt_targets db)) (sort_key wr_id (filter (window_due now) (mt_windows db)))))"

definition set_next_occurrence :: "maint_db \<Rightarrow> ident \<Rightarrow> instant option \<Rightarrow> maint_error + maint_db" where
  "set_next_occurrence db i next =
     (if Fault_next i \<in> mt_faults db then Inl Maint_database
      else Inr (db \<lparr> mt_windows := map (\<lambda>r. if wr_id r = i then r \<lparr> wr_next := map_option ms_of next \<rparr> else r)
                                     (mt_windows db) \<rparr>))"

definition targeted :: "maint_db \<Rightarrow> ident list \<Rightarrow> target_type \<Rightarrow> ident \<Rightarrow> bool" where
  "targeted db ws ty i =
     (\<exists>t \<in> set (mt_targets db). tr_type t = ty \<and> tr_target t = i \<and> tr_window t \<in> set ws)"

definition covered :: "maint_db \<Rightarrow> ident list \<Rightarrow> ident \<Rightarrow> bool" where
  "covered db ws i =
     (targeted db ws TargetMonitor i \<or>
      (case mt_groups db i of None \<Rightarrow> False | Some g \<Rightarrow> targeted db ws TargetGroup g) \<or>
      (\<exists>(m, tag) \<in> set (mt_tags db). m = i \<and> targeted db ws TargetTag tag))"

definition monitors_under_windows :: "maint_db \<Rightarrow> ident list \<Rightarrow> maint_error + ident list" where
  "monitors_under_windows db ws =
     (if ws = [] then Inr []
      else if Fault_under \<in> mt_faults db then Inl Maint_database
      else Inr (sort (map fst (filter (\<lambda>(i, m). m_org m = sentinel_org \<and> m_enabled m \<and> covered db ws i)
                             (s_monitors (mt_store db))))))"

section \<open>Moving monitors in and out\<close>

definition enters :: "ident list \<Rightarrow> ident \<Rightarrow> monitor_state \<Rightarrow> bool" where
  "enters inside i st =
     (i \<in> set inside \<and> st_status st \<noteq> MonitorStatusPaused \<and> st_suppressed_by st \<noteq> SuppressedByMaintenance)"

definition leaves :: "ident list \<Rightarrow> ident \<Rightarrow> monitor_state \<Rightarrow> bool" where
  "leaves inside i st = (st_suppressed_by st = SuppressedByMaintenance \<and> i \<notin> set inside)"

definition maintain_row :: "ident list \<Rightarrow> ident \<Rightarrow> monitor_state \<Rightarrow> monitor_state" where
  "maintain_row inside i st =
     (if enters inside i st then
        st \<lparr> st_status := MonitorStatusMaintenance, st_suppressed_by := SuppressedByMaintenance,
             st_version := st_version st + 1 \<rparr>
      else if leaves inside i st then
        st \<lparr> st_status := MonitorStatusPending, st_suppressed_by := Unsuppressed,
             st_version := st_version st + 1 \<rparr>
      else st)"

text \<open>The rows of the state table are those of the monitors; the counts are of rows.\<close>

definition count_rows :: "store \<Rightarrow> (ident \<Rightarrow> monitor_state \<Rightarrow> bool) \<Rightarrow> nat" where
  "count_rows s p =
     length (filter (\<lambda>i. case s_states s i of None \<Rightarrow> False | Some st \<Rightarrow> p i st)
       (remdups (map fst (s_monitors s))))"

definition apply_maintenance :: "maint_db \<Rightarrow> ident list \<Rightarrow> maint_error + maint_db \<times> nat \<times> nat" where
  "apply_maintenance db inside =
     (if Fault_apply \<in> mt_faults db then Inl Maint_database
      else let s = mt_store db in
        Inr (db \<lparr> mt_store := s \<lparr> s_states := \<lambda>i. map_option (maintain_row inside i) (s_states s i) \<rparr> \<rparr>,
             count_rows s (enters inside), count_rows s (leaves inside)))"

section \<open>The sweep\<close>

record sweep_result =
  sw_active :: nat
  sw_entered :: nat
  sw_exited :: nat
  sw_rejected :: nat

definition no_sweep :: sweep_result where
  "no_sweep = \<lparr> sw_active = 0, sw_entered = 0, sw_exited = 0, sw_rejected = 0 \<rparr>"

text \<open>
  The loop over the due windows: the ids that suppress, in order. A window that cannot be
  evaluated is counted and left due; an error of the database ends the sweep and keeps what the
  windows before it wrote.
\<close>

fun sweep_windows ::
  "(string \<Rightarrow> location option) \<Rightarrow> instant \<Rightarrow> maintenance_window list \<Rightarrow> maint_db \<Rightarrow> sweep_result \<Rightarrow> ident list \<Rightarrow>
     maint_error option \<times> maint_db \<times> sweep_result \<times> ident list" where
  "sweep_windows zones now [] db res active = (None, db, res, active)"
| "sweep_windows zones now (w # ws) db res active =
     (case next_occurrence zones (mw_schedule w) now of
        Inl _ \<Rightarrow> sweep_windows zones now ws db (res \<lparr> sw_rejected := sw_rejected res + 1 \<rparr>) active
      | Inr oc \<Rightarrow>
          (case set_next_occurrence db (mw_id w) (map_option o_start oc) of
             Inl e \<Rightarrow> (Some e, db, res, active)
           | Inr db' \<Rightarrow>
               if (case oc of None \<Rightarrow> False | Some c \<Rightarrow> covers c now) then
                 sweep_windows zones now ws db' (res \<lparr> sw_active := sw_active res + 1 \<rparr>)
                   (if mw_suppress w then active @ [mw_id w] else active)
               else sweep_windows zones now ws db' res active))"

definition sweep :: "(string \<Rightarrow> location option) \<Rightarrow> maint_db \<Rightarrow> instant \<Rightarrow> maint_error option \<times> maint_db \<times> sweep_result" where
  "sweep zones db now =
     (case due_windows db now of
        Inl e \<Rightarrow> (Some e, db, no_sweep)
      | Inr ws \<Rightarrow>
          (case sweep_windows zones now ws db no_sweep [] of
             (Some e, db', res, _) \<Rightarrow> (Some e, db', res)
           | (None, db', res, active) \<Rightarrow>
               (case monitors_under_windows db' active of
                  Inl e \<Rightarrow> (Some e, db', res)
                | Inr inside \<Rightarrow>
                    (case apply_maintenance db' inside of
                       Inl e \<Rightarrow> (Some e, db', res)
                     | Inr (db'', entered, exited) \<Rightarrow>
                         (None, db'', res \<lparr> sw_entered := entered, sw_exited := exited \<rparr>)))))"

section \<open>Pausing and resuming\<close>

definition set_monitor_enabled :: "maint_db \<Rightarrow> ident \<Rightarrow> bool \<Rightarrow> instant \<Rightarrow> maint_error + maint_db" where
  "set_monitor_enabled db i enabled t =
     (let s = mt_store db in
      if Fault_enabled \<in> mt_faults db then Inl Maint_database
      else if i \<notin> fst ` set (s_monitors s) then Inl Window_not_found
      else Inr (db \<lparr> mt_store := s
             \<lparr> s_monitors := map (\<lambda>(j, m). (j, if j = i then m \<lparr> m_enabled := enabled \<rparr> else m)) (s_monitors s),
               s_states := (s_states s)(i := map_option (\<lambda>st. st
                 \<lparr> st_status := (if st_suppressed_by st = SuppressedByMaintenance then MonitorStatusMaintenance
                                else if enabled then MonitorStatusPending else MonitorStatusPaused),
                   st_next_check := None, st_failures := 0, st_last_change := Some (of_ms (ms_of t)),
                   st_version := st_version st + 1 \<rparr>) (s_states s i)) \<rparr> \<rparr>))"

end
