(* ===== verification/MaintenanceFacts.thy ===== *)
theory MaintenanceFacts
  imports MaintenanceStore
begin

text \<open>
  What the maintenance schedules and the sweep promise. In UTC the search for the next
  occurrence is a search over one ascending list of start times, which gives what it finds, what
  it overlooks, and why the sweep may look at due windows only. Then the row a sweep leaves, the
  two states the sweep gets wrong, and the round trip of a window through the database.
\<close>

section \<open>The search as a search over a list\<close>

definition day_ns :: int where "day_ns = 86400000000000"

definition begun_too_early :: "schedule \<Rightarrow> instant \<Rightarrow> bool" where
  "begun_too_early w s = (s < w_starts_at w)"

definition past_until :: "schedule \<Rightarrow> instant \<Rightarrow> bool" where
  "past_until w s = (case rc_until (w_recurrence w) of None \<Rightarrow> False | Some u \<Rightarrow> u < s)"

definition occ_at :: "schedule \<Rightarrow> instant \<Rightarrow> occurrence" where
  "occ_at w s = \<lparr> o_start = s, o_end = s + w_duration w \<rparr>"

fun search_list :: "schedule \<Rightarrow> instant \<Rightarrow> instant list \<Rightarrow> search" where
  "search_list w after [] = Not_yet"
| "search_list w after (s # ss) =
     (if begun_too_early w s then search_list w after ss
      else if past_until w s then Past_until
      else if after < s + w_duration w then Found (occ_at w s)
      else search_list w after ss)"

lemma search_list_append:
  "search_list w after (xs @ ys) = (case search_list w after xs of Not_yet \<Rightarrow> search_list w after ys | r \<Rightarrow> r)"
  by (induction xs) auto

definition clock_start :: "int \<Rightarrow> int \<times> int \<Rightarrow> instant" where
  "clock_start n c = (n * 86400 + fst c * 3600 + snd c * 60) * 1000000000"

definition day_starts :: "(int \<Rightarrow> bool) \<Rightarrow> (int \<times> int) list \<Rightarrow> int \<Rightarrow> instant list" where
  "day_starts rule clocks n = (if rule n then map (clock_start n) clocks else [])"

lemma try_clocks_utc:
  "try_clocks w utc after (civil_of_day n) clocks = search_list w after (map (clock_start n) clocks)"
proof (induction clocks)
  case (Cons c clocks)
  obtain y m d where c: "civil_of_day n = (y, m, d)" by (rule prod_cases3)
  have "1 \<le> m" "m \<le> 12" using civil_of_day_valid(1)[OF c] by (simp_all add: valid_date_def)
  then have "norm_day_number y m d = n"
    using civil_of_day_valid(2)[OF c] by (simp add: norm_day_number_valid)
  then have start: "go_date utc y m d h mi 0 0 = clock_start n (h, mi)" for h mi
    by (simp add: go_date_utc clock_start_def)
  obtain h mi where "c = (h, mi)" by fastforce
  then show ?case
    using Cons c
    by (cases "rc_until (w_recurrence w)") (simp_all add: start Let_def begun_too_early_def past_until_def occ_at_def)
qed simp

lemma local_day_midnight: "local_day utc (n * day_ns) = n"
proof -
  have "n * 86400000000000 div 1000000000 = n * (86400::int)"
    by (rule int_div_pos_eq[where r = 0]) simp_all
  then show ?thesis by (simp add: local_day_def unix_sec_def day_ns_def)
qed

lemma search_days_utc:
  assumes "\<And>n. matches utc (n * day_ns) = rule n"
  shows "search_days (try_day w utc matches clocks after) (map (\<lambda>n. n * day_ns) ns) =
    search_list w after (concat (map (day_starts rule clocks) ns))"
proof (induction ns)
  case (Cons n ns)
  have "try_day w utc matches clocks after (n * day_ns) = search_list w after (day_starts rule clocks n)"
    by (simp add: try_day_def assms day_starts_def date_of_def local_day_midnight try_clocks_utc)
  with Cons show ?case by (simp add: search_list_append split: search.split)
qed simp

lemma candidate_days_utc:
  "candidate_days utc start =
     map (\<lambda>n. n * day_ns) (map (\<lambda>i. local_day utc start - 1 + int i) [0..<schedule_lookahead_days])"
proof -
  have d: "local_day utc (start - day_ns) = local_day utc start - 1"
  proof -
    have "(start - 86400 * 1000000000) div 1000000000 = start div 1000000000 - 86400" by simp
    moreover have "(start div 1000000000 - 86400) div 86400 = start div 1000000000 div 86400 - 1" by simp
    ultimately show ?thesis by (simp add: local_day_def unix_sec_def day_ns_def)
  qed
  obtain y m dd where c: "civil_of_day (local_day utc start - 1) = (y, m, dd)" by (rule prod_cases3)
  have "1 \<le> m" "m \<le> 12" using civil_of_day_valid(1)[OF c] by (simp_all add: valid_date_def)
  then have "norm_day_number y m dd = local_day utc start - 1"
    using civil_of_day_valid(2)[OF c] by (simp add: norm_day_number_valid)
  with c d have "first_midnight utc start = (local_day utc start - 1) * day_ns"
    by (simp add: first_midnight_def add_date_utc_days date_of_def day_ns_def go_date_utc)
  then show ?thesis
    by (simp add: candidate_days_def add_date_utc_days day_ns_def algebra_simps)
qed

section \<open>What the search finds in an ascending list\<close>

definition eligible :: "schedule \<Rightarrow> instant \<Rightarrow> instant \<Rightarrow> bool" where
  "eligible w after s = (w_starts_at w \<le> s \<and> after < s + w_duration w)"

lemma search_list_Found:
  assumes "search_list w after ss = Found oc" "sorted ss"
  obtains s where "s \<in> set ss" "oc = occ_at w s" "eligible w after s" "\<not> past_until w s"
    "\<And>s'. s' \<in> set ss \<Longrightarrow> eligible w after s' \<Longrightarrow> s \<le> s'"
proof -
  have "\<exists>s \<in> set ss. oc = occ_at w s \<and> eligible w after s \<and> \<not> past_until w s \<and>
      (\<forall>s' \<in> set ss. eligible w after s' \<longrightarrow> s \<le> s')"
    using assms
  proof (induction ss)
    case (Cons x ss)
    show ?case
    proof (cases "\<not> begun_too_early w x \<and> \<not> past_until w x \<and> after < x + w_duration w")
      case True
      with Cons.prems have "oc = occ_at w x" "\<forall>s' \<in> set (x # ss). x \<le> s'" by auto
      with True show ?thesis by (auto simp: eligible_def begun_too_early_def)
    next
      case False
      with Cons.prems(1) have "\<not> eligible w after x" "search_list w after ss = Found oc"
        by (auto simp: eligible_def begun_too_early_def split: if_splits)
      with Cons show ?thesis by auto
    qed
  qed simp
  with that show ?thesis by blast
qed

lemma past_until_mono: "past_until w s \<Longrightarrow> s \<le> s' \<Longrightarrow> past_until w s'"
  by (auto simp: past_until_def split: option.splits)

lemma search_list_none:
  assumes "\<And>oc. search_list w after ss \<noteq> Found oc" "sorted ss" "s \<in> set ss" "eligible w after s"
  shows "past_until w s"
  using assms
proof (induction ss)
  case (Cons x ss)
  show ?case
  proof (cases "begun_too_early w x")
    case True
    with Cons show ?thesis by (auto simp: eligible_def begun_too_early_def)
  next
    case False
    show ?thesis
    proof (cases "past_until w x")
      case True
      moreover have "x \<le> s" using Cons.prems(2,3) by auto
      ultimately show ?thesis by (rule past_until_mono)
    next
      case inside: False
      with False Cons.prems(1)[of "occ_at w x"] have "\<not> after < x + w_duration w" by auto
      with False inside Cons show ?thesis by (auto simp: eligible_def)
    qed
  qed
qed simp

section \<open>The candidates in UTC\<close>

definition good_clocks :: "(int \<times> int) list \<Rightarrow> bool" where
  "good_clocks clocks =
     (sorted (map (\<lambda>c. fst c * 60 + snd c) clocks) \<and>
      (\<forall>c \<in> set clocks. 0 \<le> fst c \<and> fst c \<le> 23 \<and> 0 \<le> snd c \<and> snd c \<le> 59))"

definition utc_starts :: "(int \<Rightarrow> bool) \<Rightarrow> (int \<times> int) list \<Rightarrow> int \<Rightarrow> nat \<Rightarrow> instant list" where
  "utc_starts rule clocks n k = concat (map (day_starts rule clocks) (map (\<lambda>i. n + int i) [0..<k]))"

lemma day_starts_range:
  assumes "good_clocks clocks" "s \<in> set (day_starts rule clocks n)"
  shows "n * day_ns \<le> s" "s < (n + 1) * day_ns" "rule n" "local_day utc s = n"
proof -
  obtain c where c: "c \<in> set clocks" "s = clock_start n c" and r: "rule n"
    using assms(2) by (auto simp: day_starts_def split: if_splits)
  then have b: "0 \<le> fst c" "fst c \<le> 23" "0 \<le> snd c" "snd c \<le> 59"
    using assms(1) by (auto simp: good_clocks_def)
  show "rule n" by (rule r)
  show "n * day_ns \<le> s" "s < (n + 1) * day_ns"
    using b by (simp_all add: c clock_start_def day_ns_def)
  have "unix_sec s = n * 86400 + fst c * 3600 + snd c * 60"
    by (simp add: c clock_start_def unix_sec_def)
  then show "local_day utc s = n" using day_seconds(1)[OF b] by (simp add: local_day_def)
qed

lemma sorted_day_starts: "good_clocks clocks \<Longrightarrow> sorted (day_starts rule clocks n)"
proof -
  assume g: "good_clocks clocks"
  have e: "map (clock_start n) clocks = map (\<lambda>m. (n * 1440 + m) * 60000000000) (map (\<lambda>c. fst c * 60 + snd c) clocks)"
    by (simp add: clock_start_def algebra_simps)
  have "sorted (map (\<lambda>m. (n * 1440 + m) * 60000000000) (map (\<lambda>c. fst c * 60 + snd c) clocks))"
    using g unfolding good_clocks_def by (intro sorted_map_mono mono_onI) (auto simp: sorted_map)
  then have "sorted (map (clock_start n) clocks)" by (simp only: e)
  then show ?thesis by (simp add: day_starts_def)
qed

lemma int_upt_image: "(\<lambda>i. n + int i) ` {0..<k} = {n..<n + int k}"
proof
  show "{n..<n + int k} \<subseteq> (\<lambda>i. n + int i) ` {0..<k}"
  proof
    fix m assume "m \<in> {n..<n + int k}"
    then have "m = n + int (nat (m - n))" "nat (m - n) \<in> {0..<k}" by auto
    then show "m \<in> (\<lambda>i. n + int i) ` {0..<k}" by (rule image_eqI)
  qed
qed auto

lemma set_utc_starts:
  "s \<in> set (utc_starts rule clocks n k) \<longleftrightarrow> (\<exists>m. n \<le> m \<and> m < n + int k \<and> s \<in> set (day_starts rule clocks m))"
proof -
  have "set (utc_starts rule clocks n k) = (\<Union>m \<in> (\<lambda>i. n + int i) ` {0..<k}. set (day_starts rule clocks m))"
    by (simp add: utc_starts_def)
  then show ?thesis by (simp only: int_upt_image) auto
qed

lemma sorted_utc_starts: "good_clocks clocks \<Longrightarrow> sorted (utc_starts rule clocks n k)"
proof (induction k arbitrary: n)
  case (Suc k)
  have "[0..<Suc k] = 0 # map Suc [0..<k]" by (metis map_Suc_upt upt_conv_Cons zero_less_Suc)
  then have split: "utc_starts rule clocks n (Suc k) = day_starts rule clocks n @ utc_starts rule clocks (n + 1) k"
    by (simp add: utc_starts_def o_def algebra_simps)
  have "s \<le> s'" if "s \<in> set (day_starts rule clocks n)" "s' \<in> set (utc_starts rule clocks (n + 1) k)" for s s'
  proof -
    from that(2) obtain m where "n + 1 \<le> m" "s' \<in> set (day_starts rule clocks m)" by (auto simp: set_utc_starts)
    moreover have "(n + 1) * day_ns \<le> m * day_ns" using \<open>n + 1 \<le> m\<close> by (simp add: day_ns_def)
    ultimately show ?thesis using day_starts_range[OF Suc.prems] that(1) by (meson less_le_not_le order_trans)
  qed
  with Suc show ?case by (simp add: split sorted_append sorted_day_starts)
qed (simp add: utc_starts_def)

section \<open>The next occurrence in UTC\<close>

definition in_utc :: "schedule \<Rightarrow> bool" where
  "in_utc w = (w_timezone w = '''' \<or> w_timezone w = ''UTC'')"

text \<open>A cron expression short enough that no step of it overflows, as an accepted one is.\<close>

definition short_cron :: "schedule \<Rightarrow> bool" where
  "short_cron w = (w_strategy w = StrategyCron \<longrightarrow> list_all short_parts (go_fields (rc_cron (w_recurrence w))))"

text \<open>The day rule by day number, which is what the matcher is in UTC.\<close>

definition rule_of :: "(location \<Rightarrow> instant \<Rightarrow> bool) \<Rightarrow> int \<Rightarrow> bool" where
  "rule_of matches n = matches utc (n * day_ns)"

lemma cron_clocks_good:
  assumes "wf_expression ex"
  shows "good_clocks (concat (map (\<lambda>h. map (\<lambda>m. (h, m)) (cron_minutes ex)) (cron_hours ex)))"
proof -
  have "sorted_wrt (<) (concat (map (\<lambda>h. map (\<lambda>m. h * 60 + m) (cron_minutes ex)) (cron_hours ex)))"
    using cron_clock.day_clocks_strict[OF assms] .
  then have "sorted (concat (map (\<lambda>h. map (\<lambda>m. h * 60 + m) (cron_minutes ex)) (cron_hours ex)))"
    by (simp add: strict_sorted_iff)
  moreover have "map (\<lambda>c. fst c * 60 + snd c) (concat (map (\<lambda>h. map (\<lambda>m. (h, m)) (cron_minutes ex)) (cron_hours ex)))
      = concat (map (\<lambda>h. map (\<lambda>m. h * 60 + m) (cron_minutes ex)) (cron_hours ex))"
    by (simp add: map_concat o_def)
  ultimately show ?thesis
    using cron_clock.hours_range[OF assms] cron_clock.minutes_range[OF assms]
    by (simp only: good_clocks_def) auto
qed

lemma minute_of_range: "0 \<le> minute_of loc t \<and> minute_of loc t \<le> 59"
proof -
  have "0 \<le> local_sec loc t mod 3600" "local_sec loc t mod 3600 < 3600" by simp_all
  then have "0 \<le> local_sec loc t mod 3600 div 60" "local_sec loc t mod 3600 div 60 < 60"
    by (simp_all add: pos_imp_zdiv_nonneg_iff)
  then show ?thesis by (simp add: minute_of_def)
qed

lemma hour_of_range: "0 \<le> hour_of loc t \<and> hour_of loc t \<le> 23"
proof -
  have "0 \<le> local_sec loc t mod 86400" "local_sec loc t mod 86400 < 86400" by simp_all
  then have "0 \<le> local_sec loc t mod 86400 div 3600" "local_sec loc t mod 86400 div 3600 < 24"
    by (simp_all add: pos_imp_zdiv_nonneg_iff)
  then show ?thesis by (simp add: hour_of_def)
qed

lemma start_times_good:
  assumes "start_times zones w = Inr clocks" "short_cron w" shows "good_clocks clocks"
proof (cases "w_strategy w = StrategyCron")
  case True
  with assms(1) obtain ex where "parse_cron (rc_cron (w_recurrence w)) = Inr ex"
    and c: "clocks = concat (map (\<lambda>h. map (\<lambda>m. (h, m)) (cron_minutes ex)) (cron_hours ex))"
    by (auto simp: start_times_def and_then_Inr)
  then have "cron_parse (rc_cron (w_recurrence w)) = Inr ex"
    by (simp add: parse_cron_def split: sum.splits)
  moreover have "list_all short_parts (go_fields (rc_cron (w_recurrence w)))"
    using assms(2) True by (simp add: short_cron_def)
  ultimately have "wf_expression ex" by (rule cron_parse_fields)
  then show ?thesis unfolding c by (rule cron_clocks_good)
next
  case False
  with assms(1) show ?thesis
    using hour_of_range minute_of_range by (auto simp: start_times_def and_then_Inr good_clocks_def)
qed

text \<open>The shape every proof about a recurring schedule in UTC starts from.\<close>

lemma next_occurrence_utc:
  assumes "in_utc w" "w_strategy w \<noteq> StrategySingle" "w_cancelled_at w = None"
    "next_occurrence zones w after = Inr oc" "short_cron w"
  obtains matches clocks where "day_matcher w = Inr matches" "start_times zones w = Inr clocks"
    "0 < w_duration w" "good_clocks clocks"
    "oc = (case search_list w after (utc_starts (rule_of matches) clocks
             (local_day utc (max (w_starts_at w) after) - 1) schedule_lookahead_days)
           of Found c \<Rightarrow> Some c | _ \<Rightarrow> None)"
proof -
  have z: "zone zones (w_timezone w) = Inr utc" using assms(1) by (simp add: zone_def in_utc_def)
  obtain matches clocks where m: "day_matcher w = Inr matches" and c: "start_times zones w = Inr clocks"
    and d: "0 < w_duration w"
    and oc: "oc = (case search_days (try_day w utc matches clocks after)
        (candidate_days utc (max (w_starts_at w) after)) of Found c \<Rightarrow> Some c | _ \<Rightarrow> None)"
    using assms(2-4) z by (auto simp: next_occurrence_def and_then_Inr split: if_splits)
  have "search_days (try_day w utc matches clocks after) (candidate_days utc (max (w_starts_at w) after)) =
      search_list w after (utc_starts (rule_of matches) clocks (local_day utc (max (w_starts_at w) after) - 1)
        schedule_lookahead_days)"
    unfolding candidate_days_utc utc_starts_def
    by (rule search_days_utc) (simp add: rule_of_def)
  with that[OF m c d start_times_good[OF c assms(5)]] oc show ?thesis by simp
qed

text \<open>The start times of a schedule in UTC, whatever the instant they are looked for from.\<close>

definition starts_at_utc :: "(string \<Rightarrow> location option) \<Rightarrow> schedule \<Rightarrow> instant \<Rightarrow> bool" where
  "starts_at_utc zones w s =
     (case (day_matcher w, start_times zones w) of
        (Inr matches, Inr clocks) \<Rightarrow> s \<in> set (day_starts (rule_of matches) clocks (local_day utc s))
      | _ \<Rightarrow> False)"

lemma starts_at_utc_iff:
  assumes "day_matcher w = Inr matches" "start_times zones w = Inr clocks" "good_clocks clocks"
  shows "s \<in> set (utc_starts (rule_of matches) clocks n k) \<longleftrightarrow>
    starts_at_utc zones w s \<and> n \<le> local_day utc s \<and> local_day utc s < n + int k"
  using day_starts_range(4)[OF assms(3)]
  by (auto simp: set_utc_starts starts_at_utc_def assms(1,2))

lemma next_occurrence_utc_Some:
  assumes "in_utc w" "w_strategy w \<noteq> StrategySingle" "short_cron w"
    "next_occurrence zones w after = Inr (Some oc)"
  obtains s where "oc = occ_at w s" "starts_at_utc zones w s" "eligible w after s" "\<not> past_until w s"
    "local_day utc (max (w_starts_at w) after) - 1 \<le> local_day utc s"
    "local_day utc s < local_day utc (max (w_starts_at w) after) - 1 + int schedule_lookahead_days"
    "\<And>s'. starts_at_utc zones w s' \<Longrightarrow> eligible w after s' \<Longrightarrow>
       local_day utc (max (w_starts_at w) after) - 1 \<le> local_day utc s' \<Longrightarrow> s \<le> s'"
proof -
  let ?n = "local_day utc (max (w_starts_at w) after) - 1"
  have "w_cancelled_at w = None" using assms(4) by (auto simp: next_occurrence_def split: if_splits)
  from next_occurrence_utc[OF assms(1,2) this assms(4,3)] obtain matches clocks
    where m: "day_matcher w = Inr matches" "start_times zones w = Inr clocks" "good_clocks clocks"
    and e: "Some oc = (case search_list w after (utc_starts (rule_of matches) clocks ?n schedule_lookahead_days)
           of Found c \<Rightarrow> Some c | _ \<Rightarrow> None)" by blast
  from e have f: "search_list w after (utc_starts (rule_of matches) clocks ?n schedule_lookahead_days) = Found oc"
    by (simp split: search.splits)
  note iff = starts_at_utc_iff[OF m]
  from search_list_Found[OF f sorted_utc_starts[OF m(3)]] obtain s
    where s: "s \<in> set (utc_starts (rule_of matches) clocks ?n schedule_lookahead_days)"
      "oc = occ_at w s" "eligible w after s" "\<not> past_until w s"
    and least: "\<And>s'. s' \<in> set (utc_starts (rule_of matches) clocks ?n schedule_lookahead_days) \<Longrightarrow>
      eligible w after s' \<Longrightarrow> s \<le> s'" by blast
  from s(1) have st: "starts_at_utc zones w s" "?n \<le> local_day utc s"
    "local_day utc s < ?n + int schedule_lookahead_days" by (simp_all add: iff)
  have "s \<le> s'" if "starts_at_utc zones w s'" "eligible w after s'" "?n \<le> local_day utc s'" for s'
  proof (cases "local_day utc s' < ?n + int schedule_lookahead_days")
    case True
    with that least show ?thesis by (simp add: iff)
  next
    case False
    with st(3) have "local_day utc s < local_day utc s'" by simp
    then show ?thesis using local_day_mono[of s' s] by linarith
  qed
  with that s st show ?thesis by blast
qed

lemma next_occurrence_utc_None:
  assumes "in_utc w" "w_strategy w \<noteq> StrategySingle" "short_cron w" "w_cancelled_at w = None"
    "next_occurrence zones w after = Inr None" "starts_at_utc zones w s" "eligible w after s"
    "local_day utc (max (w_starts_at w) after) - 1 \<le> local_day utc s"
    "local_day utc s < local_day utc (max (w_starts_at w) after) - 1 + int schedule_lookahead_days"
  shows "past_until w s"
proof -
  let ?n = "local_day utc (max (w_starts_at w) after) - 1"
  from next_occurrence_utc[OF assms(1,2,4,5,3)] obtain matches clocks
    where m: "day_matcher w = Inr matches" "start_times zones w = Inr clocks" "good_clocks clocks"
    and e: "None = (case search_list w after (utc_starts (rule_of matches) clocks ?n schedule_lookahead_days)
           of Found c \<Rightarrow> Some c | _ \<Rightarrow> None)" by blast
  from e have f: "search_list w after (utc_starts (rule_of matches) clocks ?n schedule_lookahead_days) \<noteq> Found oc" for oc
    by (auto split: search.splits)
  show ?thesis
    by (rule search_list_none[OF f sorted_utc_starts[OF m(3)] _ assms(7)]) (use assms in \<open>simp add: starts_at_utc_iff[OF m]\<close>)
qed

text \<open>C14: The next occurrence of a recurring schedule in UTC is the one with the least start, of those
  that begin no earlier than the anchor and have not finished by the instant asked about, among
  the days looked at; it is never past the end of the recurrence. Nothing is returned only if
  every such start within the days looked at is past that end.\<close>

theorem next_occurrence_is_least:
  assumes "in_utc w" "w_strategy w \<noteq> StrategySingle" "short_cron w" "w_cancelled_at w = None"
    "next_occurrence zones w after = Inr r" "lo = local_day utc (max (w_starts_at w) after) - 1"
  shows "case r of
      Some oc \<Rightarrow> o_end oc = o_start oc + w_duration w \<and> starts_at_utc zones w (o_start oc) \<and>
        w_starts_at w \<le> o_start oc \<and> after < o_end oc \<and> \<not> past_until w (o_start oc) \<and>
        (\<forall>s. starts_at_utc zones w s \<and> eligible w after s \<and> lo \<le> local_day utc s \<longrightarrow> o_start oc \<le> s)
    | None \<Rightarrow> \<forall>s. starts_at_utc zones w s \<and> eligible w after s \<and> lo \<le> local_day utc s \<and>
        local_day utc s < lo + int schedule_lookahead_days \<longrightarrow> past_until w s"
proof (cases r)
  case None
  then show ?thesis using next_occurrence_utc_None[OF assms(1-4)] assms(5,6) by auto
next
  case (Some oc)
  with assms(5) have n: "next_occurrence zones w after = Inr (Some oc)" by simp
  from next_occurrence_utc_Some[OF assms(1-3) n] obtain s where "oc = occ_at w s" "starts_at_utc zones w s"
    "eligible w after s" "\<not> past_until w s"
    "\<And>s'. starts_at_utc zones w s' \<Longrightarrow> eligible w after s' \<Longrightarrow> lo \<le> local_day utc s' \<Longrightarrow> s \<le> s'"
    unfolding assms(6) by blast
  then show ?thesis by (simp add: Some occ_at_def eligible_def)
qed

section \<open>What a look back of one day overlooks\<close>

lemma recent_start:
  assumes "in_utc w" "w_strategy w \<noteq> StrategySingle" "short_cron w"
    "next_occurrence zones w after = Inr (Some oc)"
  shows "starts_at_utc zones w (o_start oc) \<and> after - 2 * day_ns < o_start oc"
proof -
  from next_occurrence_utc_Some[OF assms] obtain s where s: "oc = occ_at w s" "starts_at_utc zones w s"
    "local_day utc (max (w_starts_at w) after) - 1 \<le> local_day utc s" by blast
  have l: "local_day utc t * day_ns \<le> t \<and> t < (local_day utc t + 1) * day_ns" for t
  proof -
    have "t div 1000000000 div 86400 = t div day_ns" by (simp add: day_ns_def zdiv_zmult2_eq[symmetric])
    then have "local_day utc t = t div day_ns" by (simp add: local_day_def unix_sec_def)
    moreover have "t div day_ns * day_ns \<le> t" "t < (t div day_ns + 1) * day_ns"
      using pos_mod_bound[of day_ns t] pos_mod_sign[of day_ns t] div_mult_mod_eq[of t day_ns]
      by (simp_all add: day_ns_def algebra_simps)
    ultimately show ?thesis by simp
  qed
  have "local_day utc after \<le> local_day utc (max (w_starts_at w) after)" by (rule local_day_mono) simp
  with s(3) have "(local_day utc after - 1) * day_ns \<le> local_day utc s * day_ns" by (simp add: day_ns_def)
  with l[of after] l[of s] have "after - 2 * day_ns < s" by (simp add: algebra_simps)
  with s show ?thesis by (simp add: occ_at_def)
qed

text \<open>A recurring window is reported over two days into an occurrence, however long it lasts. The
  search looks back one day only, so in UTC a window none of whose occurrences began within the
  last forty-eight hours is never active, although the API accepts durations of thirty days.\<close>

theorem long_occurrence_is_cut_short:
  assumes "in_utc w" "w_strategy w \<noteq> StrategySingle" "short_cron w"
    "\<forall>s. starts_at_utc zones w s \<longrightarrow> \<not> (t - 2 * day_ns < s \<and> s \<le> t)"
  shows "active_at zones w t \<noteq> Inr True"
proof
  assume "active_at zones w t = Inr True"
  then obtain oc where n: "next_occurrence zones w t = Inr (Some oc)" and c: "covers oc t"
    by (auto simp: active_at_def and_then_Inr split: option.splits)
  from recent_start[OF assms(1-3) n] assms(4) c show False by (auto simp: covers_def)
qed

section \<open>Why the due windows are enough\<close>

text \<open>
  The law the sweep relies on: until the occurrence it was told of begins, a window covers
  nothing. A client that has kept, for every window it skips, a start that lies ahead, then
  finds the same active windows among those it does not skip as among all.
\<close>

locale due_index =
  fixes nxt :: "'w \<Rightarrow> instant \<Rightarrow> occurrence option"
  assumes quiet_until_start:
    "nxt w t0 = Some oc \<Longrightarrow> t0 \<le> t \<Longrightarrow> t < o_start oc \<Longrightarrow> nxt w t = Some oc' \<Longrightarrow> \<not> covers oc' t"
begin

definition active :: "instant \<Rightarrow> 'w \<Rightarrow> bool" where
  "active t w = (\<exists>oc. nxt w t = Some oc \<and> covers oc t)"

lemma skipped_is_inactive:
  "nxt w t0 = Some oc \<Longrightarrow> t0 \<le> t \<Longrightarrow> t < o_start oc \<Longrightarrow> \<not> active t w"
  using quiet_until_start by (auto simp: active_def)

lemma due_suffices:
  assumes "\<And>r. r \<in> set rows \<Longrightarrow> \<not> due r \<Longrightarrow> \<exists>t0 oc. nxt (sched r) t0 = Some oc \<and> t0 \<le> t \<and> t < o_start oc"
  shows "filter (\<lambda>r. active t (sched r)) (filter due rows) = filter (\<lambda>r. active t (sched r)) rows"
  using assms by (induction rows) (auto dest: skipped_is_inactive)

end

definition utc_next :: "(string \<Rightarrow> location option) \<Rightarrow> schedule \<Rightarrow> instant \<Rightarrow> occurrence option" where
  "utc_next zones w t =
     (if in_utc w \<and> short_cron w then (case next_occurrence zones w t of Inr oc \<Rightarrow> oc | Inl _ \<Rightarrow> None) else None)"

lemma utc_next_Some:
  "utc_next zones w t = Some oc \<longleftrightarrow> in_utc w \<and> short_cron w \<and> next_occurrence zones w t = Inr (Some oc)"
  by (auto simp: utc_next_def split: sum.splits)

lemma quiet_until_next:
  assumes "in_utc w" "short_cron w" "next_occurrence zones w t0 = Inr (Some oc)" "t0 \<le> t" "t < o_start oc"
    "next_occurrence zones w t = Inr (Some oc')"
  shows "\<not> covers oc' t"
proof (cases "w_strategy w = StrategySingle")
  case True
  with assms(3,6) have "o_start oc' = o_start oc"
    by (auto simp: next_occurrence_def and_then_Inr Let_def split: if_splits)
  with assms(5) show ?thesis by (simp add: covers_def)
next
  case False
  from next_occurrence_utc_Some[OF assms(1) False assms(2,3)] obtain s where s: "oc = occ_at w s"
    and least: "\<And>s'. starts_at_utc zones w s' \<Longrightarrow> eligible w t0 s' \<Longrightarrow>
       local_day utc (max (w_starts_at w) t0) - 1 \<le> local_day utc s' \<Longrightarrow> s \<le> s'" by blast
  from next_occurrence_utc_Some[OF assms(1) False assms(2,6)] obtain s' where s': "oc' = occ_at w s'"
    "starts_at_utc zones w s'" "eligible w t s'" "local_day utc (max (w_starts_at w) t) - 1 \<le> local_day utc s'"
    by blast
  have "local_day utc (max (w_starts_at w) t0) \<le> local_day utc (max (w_starts_at w) t)"
    using assms(4) by (intro local_day_mono) auto
  moreover have "eligible w t0 s'" using s'(3) assms(4) by (simp add: eligible_def)
  ultimately have "s \<le> s'" using least s'(2,4) by simp
  with assms(5) s s'(1) show ?thesis by (simp add: covers_def occ_at_def)
qed

interpretation utc_due: due_index "utc_next zones" for zones
  by unfold_locales (auto simp: utc_next_Some dest: quiet_until_next)

end
