(* ===== verification/MaintenanceSweep.thy ===== *)
theory MaintenanceSweep
  imports MaintenanceFacts
begin

text \<open>
  The sweep over the tables: with the index of next occurrences sound, looking at the due windows
  moves exactly the monitors that all windows cover, and keeps the index sound. Then two states
  the sweep makes untrue, and the round trip of a window through the database.
\<close>

section \<open>The index of next occurrences\<close>

definition row_schedule :: "window_row \<Rightarrow> schedule" where
  "row_schedule r = mw_schedule (scan_window [] r)"

lemma scan_window_simps [simp]:
  "mw_schedule (scan_window ts r) = row_schedule r" "mw_id (scan_window ts r) = wr_id r"
  "mw_suppress (scan_window ts r) = wr_suppress r"
  by (simp_all add: row_schedule_def scan_window_def)

lemma row_schedule_next [simp]: "row_schedule (r \<lparr> wr_next := n \<rparr>) = row_schedule r"
  by (simp add: row_schedule_def scan_window_def)

text \<open>A stored next occurrence is one that was computed, at some earlier instant.\<close>

definition index_sound :: "(string \<Rightarrow> location option) \<Rightarrow> instant \<Rightarrow> maint_db \<Rightarrow> bool" where
  "index_sound zones now db =
     (\<forall>r \<in> set (mt_windows db). \<forall>ms. wr_next r = Some ms \<longrightarrow>
        (\<exists>t0 oc. t0 \<le> now \<and> next_occurrence zones (row_schedule r) t0 = Inr (Some oc) \<and> ms = ms_of (o_start oc)))"

definition utc_windows :: "maint_db \<Rightarrow> bool" where
  "utc_windows db = (\<forall>r \<in> set (mt_windows db). in_utc (row_schedule r) \<and> short_cron (row_schedule r))"

text \<open>What one evaluated window writes.\<close>

definition told :: "(string \<Rightarrow> location option) \<Rightarrow> instant \<Rightarrow> window_row \<Rightarrow> window_row" where
  "told zones now r =
     (case next_occurrence zones (row_schedule r) now of
        Inl _ \<Rightarrow> r | Inr oc \<Rightarrow> r \<lparr> wr_next := map_option (\<lambda>c. ms_of (o_start c)) oc \<rparr>)"

lemma told_simps [simp]:
  "wr_id (told zones now r) = wr_id r" "row_schedule (told zones now r) = row_schedule r"
  by (simp_all add: told_def split: sum.split)

lemma told_twice [simp]: "told zones now (told zones now r) = told zones now r"
  by (simp add: told_def split: sum.split)

definition tell :: "(string \<Rightarrow> location option) \<Rightarrow> instant \<Rightarrow> ident set \<Rightarrow> maint_db \<Rightarrow> maint_db" where
  "tell zones now ids db =
     db \<lparr> mt_windows := map (\<lambda>r. if wr_id r \<in> ids then told zones now r else r) (mt_windows db) \<rparr>"

lemma tell_simps [simp]:
  "mt_store (tell zones now ids db) = mt_store db" "mt_targets (tell zones now ids db) = mt_targets db"
  "mt_groups (tell zones now ids db) = mt_groups db" "mt_tags (tell zones now ids db) = mt_tags db"
  "mt_faults (tell zones now ids db) = mt_faults db"
  by (simp_all add: tell_def)

lemma tell_none [simp]: "tell zones now {} db = db"
  by (simp add: tell_def)

lemma tell_tell: "tell zones now ids (tell zones now ids' db) = tell zones now (ids \<union> ids') db"
  by (simp add: tell_def)

definition window_active :: "(string \<Rightarrow> location option) \<Rightarrow> instant \<Rightarrow> schedule \<Rightarrow> bool" where
  "window_active zones now s = (case next_occurrence zones s now of Inr (Some oc) \<Rightarrow> covers oc now | _ \<Rightarrow> False)"

text \<open>The rows of a table with one row for each id that belongs to the windows of a list.\<close>

definition reads :: "maint_db \<Rightarrow> maintenance_window list \<Rightarrow> bool" where
  "reads db ws = (\<forall>w \<in> set ws. \<forall>r \<in> set (mt_windows db). wr_id r = mw_id w \<longrightarrow> row_schedule r = mw_schedule w)"

lemma reads_tell: "reads db ws \<Longrightarrow> reads (tell zones now ids db) ws"
  by (auto simp: reads_def tell_def)

lemma sweep_windows_runs:
  assumes "mt_faults db = {}" "reads db ws"
  shows "\<exists>res'. sweep_windows zones now ws db res active =
    (None, tell zones now (set (map mw_id ws)) db, res',
     active @ map mw_id (filter (\<lambda>w. window_active zones now (mw_schedule w) \<and> mw_suppress w) ws))"
  using assms
proof (induction ws arbitrary: db res active)
  case (Cons w ws)
  have rd: "reads db ws" using Cons.prems(2) by (simp add: reads_def)
  show ?case
  proof (cases "next_occurrence zones (mw_schedule w) now")
    case (Inl e)
    have "told zones now r = r" if "r \<in> set (mt_windows db)" "wr_id r = mw_id w" for r
      using that Cons.prems(2) Inl by (simp add: reads_def told_def)
    then have same: "tell zones now {mw_id w} db = db"
      by (intro maint_db.equality) (auto simp: tell_def intro: map_idI)
    have "tell zones now (set (map mw_id (w # ws))) db = tell zones now (set (map mw_id ws)) (tell zones now {mw_id w} db)"
      by (simp add: tell_tell)
    with same Cons.IH[OF Cons.prems(1) rd, of "res \<lparr> sw_rejected := sw_rejected res + 1 \<rparr>" active] Inl
    show ?thesis by (simp add: window_active_def)
  next
    case (Inr oc)
    let ?db = "tell zones now {mw_id w} db"
    have "map (\<lambda>r. if wr_id r = mw_id w then r \<lparr> wr_next := map_option ms_of (map_option o_start oc) \<rparr> else r) (mt_windows db)
        = map (\<lambda>r. if wr_id r \<in> {mw_id w} then told zones now r else r) (mt_windows db)"
      using Cons.prems(2) Inr
      by (intro map_cong) (auto simp: reads_def told_def option.map_comp o_def)
    then have set: "set_next_occurrence db (mw_id w) (map_option o_start oc) = Inr ?db"
      using Cons.prems(1) by (simp add: set_next_occurrence_def tell_def)
    have t: "tell zones now (set (map mw_id (w # ws))) db = tell zones now (set (map mw_id ws)) ?db"
      by (simp add: tell_tell)
    have ih: "\<exists>res'. sweep_windows zones now ws ?db res0 a =
        (None, tell zones now (set (map mw_id ws)) ?db, res',
         a @ map mw_id (filter (\<lambda>w. window_active zones now (mw_schedule w) \<and> mw_suppress w) ws))" for res0 a
      by (rule Cons.IH) (use Cons.prems(1) rd in \<open>simp_all add: reads_tell\<close>)
    show ?thesis
    proof (cases oc)
      case None
      with Inr set t ih[of res active] show ?thesis by (simp add: window_active_def)
    next
      case (Some c)
      with Inr set t ih[of res active] ih[of "res \<lparr> sw_active := sw_active res + 1 \<rparr>"
          "if mw_suppress w then active @ [mw_id w] else active"]
      show ?thesis by (cases "covers c now"; cases "mw_suppress w") (simp_all add: window_active_def)
    qed
  qed
qed simp

section \<open>The sweep and the state table\<close>

text \<open>The windows that suppress at an instant, of all that are not cancelled, and what they cover.\<close>

definition suppressing :: "(string \<Rightarrow> location option) \<Rightarrow> instant \<Rightarrow> maint_db \<Rightarrow> ident set" where
  "suppressing zones now db =
     wr_id ` {r \<in> set (mt_windows db). wr_org r = sentinel_org \<and> wr_suppress r \<and> window_active zones now (row_schedule r)}"

definition ought_to_be_inside :: "(string \<Rightarrow> location option) \<Rightarrow> instant \<Rightarrow> maint_db \<Rightarrow> ident \<Rightarrow> bool" where
  "ought_to_be_inside zones now db i =
     (\<exists>m. (i, m) \<in> set (s_monitors (mt_store db)) \<and> m_org m = sentinel_org \<and> m_enabled m \<and>
        ((\<exists>t \<in> set (mt_targets db). tr_window t \<in> suppressing zones now db \<and>
            (tr_type t = TargetMonitor \<and> tr_target t = i \<or>
             tr_type t = TargetGroup \<and> mt_groups db i = Some (tr_target t) \<or>
             tr_type t = TargetTag \<and> (i, tr_target t) \<in> set (mt_tags db)))))"

lemma covered_iff:
  "covered db ws i \<longleftrightarrow> (\<exists>t \<in> set (mt_targets db). tr_window t \<in> set ws \<and>
     (tr_type t = TargetMonitor \<and> tr_target t = i \<or>
      tr_type t = TargetGroup \<and> mt_groups db i = Some (tr_target t) \<or>
      tr_type t = TargetTag \<and> (i, tr_target t) \<in> set (mt_tags db)))"
  unfolding covered_def targeted_def by (cases "mt_groups db i") fastforce+

lemma fst_filtered: "set (sort (map fst (filter (\<lambda>(i, m). p i m) ms))) = {i. \<exists>m. (i, m) \<in> set ms \<and> p i m}"
  by force

lemma covered_nobody: "ws = [] \<Longrightarrow> \<not> covered db ws i"
  by (simp add: covered_iff)

lemma monitors_under_iff:
  assumes "mt_faults db = {}"
  obtains inside where "monitors_under_windows db ws = Inr inside"
    "\<And>i. i \<in> set inside \<longleftrightarrow> (\<exists>m. (i, m) \<in> set (s_monitors (mt_store db)) \<and> m_org m = sentinel_org \<and>
       m_enabled m \<and> covered db ws i)"
proof (cases "ws = []")
  case True
  then show ?thesis using that[of "[]"] by (simp add: monitors_under_windows_def covered_nobody)
next
  case False
  then show ?thesis
    using that[unfolded monitors_under_windows_def] assms
    by (simp only: if_False if_True empty_iff fst_filtered sum.inject mem_Collect_eq)
qed

lemma window_active_cancelled: "w_cancelled_at s \<noteq> None \<Longrightarrow> \<not> window_active zones now s"
  by (simp add: window_active_def next_occurrence_def)

lemma row_schedule_cancelled: "w_cancelled_at (row_schedule r) = None \<longleftrightarrow> wr_cancelled_at r = None"
  by (simp add: row_schedule_def scan_window_def)

lemma window_active_utc:
  "in_utc s \<Longrightarrow> short_cron s \<Longrightarrow> window_active zones now s \<longleftrightarrow> utc_due.active zones now s"
  by (auto simp: window_active_def utc_due.active_def utc_next_Some split: sum.splits option.splits)

lemma index_soundD:
  assumes "index_sound zones now db" "r \<in> set (mt_windows db)" "wr_next r = Some ms"
  obtains t0 oc where "t0 \<le> now" "next_occurrence zones (row_schedule r) t0 = Inr (Some oc)" "ms = ms_of (o_start oc)"
  using assms unfolding index_sound_def by blast

lemma active_windows_are_due:
  assumes "utc_windows db" "index_sound zones now db" "r \<in> set (mt_windows db)" "wr_org r = sentinel_org"
    "window_active zones now (row_schedule r)"
  shows "window_due now r"
proof -
  have u: "in_utc (row_schedule r)" "short_cron (row_schedule r)" using assms(1,3) by (auto simp: utc_windows_def)
  have "ms \<le> ms_of now" if n: "wr_next r = Some ms" for ms
  proof (rule ccontr)
    assume late: "\<not> ms \<le> ms_of now"
    obtain t0 oc where t0: "t0 \<le> now" "next_occurrence zones (row_schedule r) t0 = Inr (Some oc)" "ms = ms_of (o_start oc)"
      using index_soundD[OF assms(2,3) n] by blast
    have "now < o_start oc"
      using late t0(3) zdiv_mono1[of "o_start oc" now 1000000] by (auto simp: ms_of_def not_le not_less)
    with t0 u have "\<not> utc_due.active zones now (row_schedule r)"
      by (intro utc_due.skipped_is_inactive[of zones "row_schedule r" t0 oc]) (simp_all add: utc_next_Some)
    with assms(5) u show False by (simp add: window_active_utc)
  qed
  moreover have "wr_cancelled_at r = None"
    using assms(5) window_active_cancelled row_schedule_cancelled by blast
  ultimately show ?thesis using assms(4) by (simp add: window_due_def split: option.split)
qed

lemma index_sound_tell:
  assumes "index_sound zones now db" shows "index_sound zones now (tell zones now ids db)"
proof -
  have "\<exists>t0 oc. t0 \<le> now \<and> next_occurrence zones (row_schedule r) t0 = Inr (Some oc) \<and> ms = ms_of (o_start oc)"
    if "r \<in> set (mt_windows db)" "wr_next (told zones now r) = Some ms" for r ms
  proof (cases "next_occurrence zones (row_schedule r) now")
    case (Inl e)
    then show ?thesis using that assms by (auto simp: told_def index_sound_def)
  next
    case (Inr oc)
    then show ?thesis using that by (auto simp: told_def)
  qed
  with assms show ?thesis by (auto simp: index_sound_def tell_def)
qed

lemma index_sound_later: "index_sound zones now db \<Longrightarrow> now \<le> now' \<Longrightarrow> index_sound zones now' db"
  unfolding index_sound_def by (meson order_trans)

lemma maintain_row_set: "set is = set js \<Longrightarrow> maintain_row is i = maintain_row js i"
  by (simp add: maintain_row_def enters_def leaves_def fun_eq_iff)

lemma sweep_runs:
  assumes "mt_faults db = {}" "distinct (map wr_id (mt_windows db))" "utc_windows db" "index_sound zones now db"
  shows "\<exists>db' res ids. sweep zones db now = (None, db', res) \<and> index_sound zones now db' \<and>
    mt_windows db' = mt_windows (tell zones now ids db) \<and>
    (\<forall>i. s_states (mt_store db') i = map_option (\<lambda>st. maintain_row
        (if ought_to_be_inside zones now db i then [i] else []) i st) (s_states (mt_store db) i))"
proof -
  define ws where "ws = map (scan_window (mt_targets db)) (sort_key wr_id (filter (window_due now) (mt_windows db)))"
  have due: "due_windows db now = Inr ws" by (simp add: due_windows_def assms(1) ws_def)
  have rd: "reads db ws"
    using assms(2) by (auto simp: reads_def ws_def distinct_map inj_on_def)
  let ?act = "map mw_id (filter (\<lambda>w. window_active zones now (mw_schedule w) \<and> mw_suppress w) ws)"
  let ?db = "tell zones now (mw_id ` set ws) db"
  obtain res where sw: "sweep_windows zones now ws db no_sweep [] = (None, ?db, res, ?act)"
    using sweep_windows_runs[OF assms(1) rd, of zones now no_sweep "[]"] by auto
  have act: "set ?act = suppressing zones now db"
    using active_windows_are_due[OF assms(3,4)]
    by (auto simp: ws_def suppressing_def window_due_def filter_map o_def)
  obtain inside where un: "monitors_under_windows ?db ?act = Inr inside"
    and ins: "\<And>i. i \<in> set inside \<longleftrightarrow> (\<exists>m. (i, m) \<in> set (s_monitors (mt_store ?db)) \<and> m_org m = sentinel_org \<and>
       m_enabled m \<and> covered ?db ?act i)"
    by (rule monitors_under_iff[of ?db ?act]) (simp add: assms(1), blast)
  have in_iff: "i \<in> set inside \<longleftrightarrow> ought_to_be_inside zones now db i" for i
    unfolding ins covered_iff ought_to_be_inside_def act by simp
  define db'' where "db'' = ?db \<lparr> mt_store := (mt_store ?db)
      \<lparr> s_states := \<lambda>i. map_option (maintain_row inside i) (s_states (mt_store ?db) i) \<rparr> \<rparr>"
  have "sweep zones db now = (None, db'', res \<lparr> sw_entered := count_rows (mt_store ?db) (enters inside),
      sw_exited := count_rows (mt_store ?db) (leaves inside) \<rparr>)"
    by (simp add: sweep_def due sw un apply_maintenance_def assms(1) db''_def Let_def)
  moreover have "index_sound zones now db''"
    using index_sound_tell[OF assms(4)] by (simp add: index_sound_def db''_def)
  moreover have "mt_windows db'' = mt_windows ?db" by (simp add: db''_def)
  moreover have "maintain_row inside i = maintain_row (if ought_to_be_inside zones now db i then [i] else []) i" for i
    using in_iff[of i] by (simp add: maintain_row_def enters_def leaves_def fun_eq_iff)
  ultimately show ?thesis by (fastforce simp: db''_def)
qed

lemma maintain_row_cases:
  "i \<in> set inside \<Longrightarrow> st_status st \<noteq> MonitorStatusPaused \<Longrightarrow>
     st_suppressed_by (maintain_row inside i st) = SuppressedByMaintenance"
  "i \<notin> set inside \<Longrightarrow> st_suppressed_by (maintain_row inside i st) \<noteq> SuppressedByMaintenance"
  "st_suppressed_by (maintain_row inside i st) = st_suppressed_by st \<Longrightarrow> maintain_row inside i st = st"
  "maintain_row inside i st \<noteq> st \<Longrightarrow> st_version (maintain_row inside i st) = st_version st + 1 \<and>
     st_status (maintain_row inside i st) =
       (if i \<in> set inside then MonitorStatusMaintenance else MonitorStatusPending)"
  by (auto simp: maintain_row_def enters_def leaves_def split: if_splits)


section \<open>Two states the sweep makes untrue\<close>

text \<open>A monitor silenced because its dependency is down is taken over by a maintenance window, and
  loses that silence when the window ends: the enter update excludes only rows already under
  maintenance, so the reason that belongs to the result path is overwritten, and leaving clears it.\<close>

theorem maintenance_overwrites_dependency:
  assumes "Fault_apply \<notin> mt_faults db" "s_states (mt_store db) i = Some st"
    "st_suppressed_by st = SuppressedByDependency" "st_status st \<noteq> MonitorStatusPaused"
  shows "\<exists>db1 n m. apply_maintenance db [i] = Inr (db1, n, m) \<and>
    map_option st_suppressed_by (s_states (mt_store db1) i) = Some SuppressedByMaintenance \<and>
    (\<exists>db2 n m. apply_maintenance db1 [] = Inr (db2, n, m) \<and>
      s_states (mt_store db2) i = Some (st \<lparr> st_status := MonitorStatusPending, st_suppressed_by := Unsuppressed,
        st_version := st_version st + 1 + 1 \<rparr>))"
  using assms by (simp add: apply_maintenance_def Let_def maintain_row_def enters_def leaves_def)

text \<open>A monitor paused while it is under maintenance does not stay paused. Pausing leaves its status
  at maintenance, no window covers a monitor that is disabled, and the next sweep therefore moves
  it out to pending, a monitor that will never be checked.\<close>

theorem pause_under_maintenance_ends_pending:
  assumes "s_states (mt_store db) i = Some st" "st_suppressed_by st = SuppressedByMaintenance"
    "set_monitor_enabled db i False t = Inr db1" "monitors_under_windows db1 ws = Inr inside"
    "apply_maintenance db1 inside = Inr (db2, n, m)"
  shows "\<exists>st2. s_states (mt_store db2) i = Some st2 \<and> st_status st2 = MonitorStatusPending \<and>
    st_suppressed_by st2 = Unsuppressed \<and> (\<forall>mon. (i, mon) \<in> set (s_monitors (mt_store db2)) \<longrightarrow> \<not> m_enabled mon)"
proof -
  have off: "\<not> m_enabled mon" if "(i, mon) \<in> set (s_monitors (mt_store db1))" for mon
    using assms(3) that by (auto simp: set_monitor_enabled_def Let_def split: if_splits)
  have "i \<notin> set inside"
    using assms(4) off by (auto simp: monitors_under_windows_def split: if_splits)
  moreover have "\<exists>st1. s_states (mt_store db1) i = Some st1 \<and> st_suppressed_by st1 = SuppressedByMaintenance"
    using assms(1-3) by (auto simp: set_monitor_enabled_def Let_def split: if_splits)
  moreover have "s_monitors (mt_store db2) = s_monitors (mt_store db1)"
    "s_states (mt_store db2) = (\<lambda>i. map_option (maintain_row inside i) (s_states (mt_store db1) i))"
    using assms(5) by (auto simp: apply_maintenance_def Let_def split: if_splits)
  ultimately show ?thesis using off by (auto simp: maintain_row_def enters_def leaves_def)
qed

section \<open>A window through the database\<close>

lemma duration_minutes_exact:
  assumes "0 \<le> k" "k < 2 ^ 53" shows "duration_minutes (k * minute) = of_int k"
proof -
  have "go_div (k * minute) minute = k" "go_mod (k * minute) minute = 0"
    using assms by (simp_all add: go_div_nonneg go_mod_nonneg minute_def)
  then show ?thesis
    using fl_of_small_int[OF assms]
    by (simp add: duration_minutes_def float_add_def float_div_def float_of_int_def)
qed

text \<open>What the columns can hold: times on the millisecond, a duration of whole minutes up to the thirty
  days the API accepts, targets in order and without repetitions.\<close>

definition on_ms :: "instant \<Rightarrow> bool" where "on_ms t = (t mod 1000000 = 0)"

definition storable :: "maintenance_window \<Rightarrow> bool" where
  "storable w =
     (let s = mw_schedule w in
      on_ms (w_starts_at s) \<and> pred_option on_ms (w_ends_at s) \<and> pred_option on_ms (w_cancelled_at s) \<and>
      pred_option on_ms (mw_next w) \<and> on_ms (mw_created w) \<and> on_ms (mw_updated w) \<and>
      (\<exists>k. 0 \<le> k \<and> k \<le> 43200 \<and> w_duration s = k * minute) \<and>
      sorted (tg_monitors (mw_targets w)) \<and> sorted (tg_groups (mw_targets w)) \<and> sorted (tg_tags (mw_targets w)))"

lemma of_ms_of [simp]: "on_ms t \<Longrightarrow> of_ms (ms_of t) = t"
  unfolding on_ms_def of_ms_def ms_of_def by (metis add.right_neutral div_mult_mod_eq)

lemma map_of_ms [simp]: "pred_option on_ms t \<Longrightarrow> map_option of_ms (map_option ms_of t) = t"
  by (cases t) simp_all

lemma stored_duration:
  assumes "0 \<le> k" "k \<le> 43200"
  shows "(case null_minutes (k * minute) of None \<Rightarrow> 0 | Some m \<Rightarrow> wrap64 (m * minute)) = k * minute"
proof (cases "k = 0")
  case False
  then have "null_minutes (k * minute) = Some k"
    using assms duration_minutes_exact[of k] by (simp add: null_minutes_def minute_def)
  moreover have "in_int64 (k * minute)"
    using assms by (simp add: in_int64_def max_int64_def min_int64_def minute_def)
  ultimately show ?thesis by simp
qed (simp add: null_minutes_def)

lemma stored_schedule:
  assumes "storable w" shows "row_schedule (row_of_window w) = mw_schedule w"
proof -
  have st: "on_ms (w_starts_at (mw_schedule w))" "pred_option on_ms (w_ends_at (mw_schedule w))"
    "pred_option on_ms (w_cancelled_at (mw_schedule w))"
    using assms by (simp_all add: storable_def Let_def)
  obtain k where k: "0 \<le> k" "k \<le> 43200" "w_duration (mw_schedule w) = k * minute"
    using assms by (auto simp: storable_def Let_def)
  show ?thesis
    using st stored_duration[OF k(1,2)]
    by (intro schedule.equality) (simp_all add: row_schedule_def scan_window_def row_of_window_def Let_def k(3))
qed

lemma load_own_targets:
  assumes "\<forall>t \<in> set table. tr_window t \<noteq> mw_id w" "sorted (tg_monitors (mw_targets w))"
    "sorted (tg_groups (mw_targets w))" "sorted (tg_tags (mw_targets w))"
  shows "load_targets (table @ target_rows w) (mw_id w) = mw_targets w"
proof -
  have none: "filter (\<lambda>t. tr_window t = mw_id w \<and> tr_type t = ty) table = []" for ty
    using assms(1) by (auto simp: filter_empty_conv)
  have some: "map tr_target (filter (\<lambda>t. tr_window t = i \<and> tr_type t = ty)
      (map (\<lambda>j. \<lparr> tr_window = i, tr_type = ty', tr_target = j \<rparr>) js)) = (if ty = ty' then js else [])" for i ty ty' js
    by (induction js) auto
  show ?thesis
    using assms(2-4)
    by (simp add: load_targets_def target_rows_def Let_def none some sorted_sort_id)
qed

lemma find_after: "find p xs = None \<Longrightarrow> find p (xs @ ys) = find p ys"
  by (induction xs) (auto split: if_splits)

text \<open>C26: A window written is the window read back: creating one and getting it by its id gives the same
  title, description, schedule, flags, times and targets, for every window the columns can hold.\<close>

theorem window_roundtrip:
  assumes "create_window db w pages = Inr db'" "storable w" "\<forall>t \<in> set (mt_targets db). tr_window t \<noteq> mw_id w"
  shows "get_window db' (mw_id w) = Inr w"
proof -
  have f: "Fault_windows \<notin> mt_faults db" "mw_id w \<notin> wr_id ` set (mt_windows db)"
    and ts: "mt_targets db' = mt_targets db @ target_rows w" and ws: "mt_windows db' = mt_windows db @ [row_of_window w]"
    and fs: "mt_faults db' = mt_faults db"
    using assms(1) by (auto simp: create_window_def and_then_Inr write_targets_def split: if_splits)
  have "find (\<lambda>r. wr_id r = mw_id w) (mt_windows db) = None" using f(2) by (auto simp: find_None_iff) (metis image_eqI)
  then have "find (\<lambda>r. wr_id r = mw_id w) (mt_windows db') = Some (row_of_window w)"
    unfolding ws by (simp add: find_after row_of_window_def Let_def)
  then have g: "get_window db' (mw_id w) = Inr (scan_window (mt_targets db') (row_of_window w))"
    using f fs by (simp add: get_window_def)
  have st: "pred_option on_ms (mw_next w)" "on_ms (mw_created w)"
    "on_ms (mw_updated w)" "sorted (tg_monitors (mw_targets w))" "sorted (tg_groups (mw_targets w))"
    "sorted (tg_tags (mw_targets w))"
    using assms(2) by (simp_all add: storable_def Let_def)
  have sch: "mw_schedule (scan_window (mt_targets db') (row_of_window w)) = mw_schedule w"
    by (simp add: stored_schedule[OF assms(2)])
  have "scan_window (mt_targets db') (row_of_window w) = w"
    using st sch load_own_targets[OF assms(3) st(4-6)]
    by (intro maintenance_window.equality)
      (simp_all add: scan_window_def row_of_window_def Let_def ts null_string_def split: if_splits)
  with g show ?thesis by simp
qed

section \<open>Examples\<close>

definition daily_hour :: schedule where
  "daily_hour =
     \<lparr> w_strategy = StrategyRecurringDaily, w_timezone = '''', w_starts_at = 0, w_ends_at = None,
       w_duration = 60 * minute,
       w_recurrence = \<lparr> rc_weekdays = [], rc_days_of_month = [], rc_cron = '''', rc_until = None \<rparr>,
       w_cancelled_at = None \<rparr>"

definition half_hour :: instant where "half_hour = 1800 * second"

lemma two_days: "[0..<schedule_lookahead_days] = 0 # 1 # [2..<schedule_lookahead_days]"
proof -
  have "2 \<le> schedule_lookahead_days" by (simp add: schedule_lookahead_days_def)
  then show ?thesis by (simp add: upt_conv_Cons numeral_2_eq_2)
qed

lemma daily_hour_next:
  "next_occurrence zones daily_hour half_hour = Inr (Some \<lparr> o_start = 0, o_end = 3600 * second \<rparr>)"
proof -
  have days: "candidate_days utc half_hour = (-1) * day_ns # 0 * day_ns #
      map (\<lambda>n. n * day_ns) (map (\<lambda>i. int i - 1) [2..<schedule_lookahead_days])"
    unfolding candidate_days_utc two_days
    by (simp add: half_hour_def second_def local_day_def unix_sec_def)
  have clocks: "start_times zones daily_hour = Inr [(0, 0)]"
    by (simp add: start_times_def daily_hour_def strategy_defs zone_def hour_of_def minute_of_def unix_sec_def)
  have match: "day_matcher daily_hour = Inr (\<lambda>_ _. True)"
    by (simp add: day_matcher_def daily_hour_def strategy_defs Let_def)
  have d: "date_of utc (n * day_ns) = civil_of_day n" for n
    by (simp add: date_of_def local_day_midnight)
  have "search_days (try_day daily_hour utc (\<lambda>_ _. True) [(0, 0)] half_hour) (candidate_days utc half_hour) =
      Found \<lparr> o_start = 0, o_end = 3600 * second \<rparr>"
    unfolding days search_days.simps try_day_def d try_clocks_utc
    by (simp add: daily_hour_def clock_start_def begun_too_early_def past_until_def occ_at_def half_hour_def
        second_def minute_def)
  moreover have "max (w_starts_at daily_hour) half_hour = half_hour"
    by (simp add: daily_hour_def half_hour_def second_def)
  moreover have "zone zones (w_timezone daily_hour) = Inr utc" "w_cancelled_at daily_hour = None"
    "w_strategy daily_hour \<noteq> StrategySingle" "0 < w_duration daily_hour"
    by (simp_all add: daily_hour_def zone_def strategy_defs minute_def)
  ultimately show ?thesis by (simp add: next_occurrence_def match clocks)
qed

lemma daily_hour_utc: "in_utc daily_hour" "short_cron daily_hour"
  by (simp_all add: in_utc_def short_cron_def daily_hour_def strategy_defs)

theorem next_occurrence_is_least_witness:
  "\<exists>oc. next_occurrence (\<lambda>_. None) daily_hour half_hour = Inr (Some oc) \<and>
     starts_at_utc (\<lambda>_. None) daily_hour (o_start oc) \<and> half_hour < o_end oc"
  using next_occurrence_is_least[OF daily_hour_utc(1) _ daily_hour_utc(2) _ daily_hour_next refl, of "\<lambda>_. None"]
    daily_hour_next[of "\<lambda>_. None"]
  by (simp add: daily_hour_def strategy_defs)

text \<open>Three days of work on the first of the month, asked about at the fiftieth hour.\<close>

definition monthly_three_days :: schedule where
  "monthly_three_days =
     daily_hour \<lparr> w_strategy := StrategyRecurringMonthly, w_duration := 72 * hour,
       w_recurrence := \<lparr> rc_weekdays = [], rc_days_of_month = [1], rc_cron = '''', rc_until = None \<rparr> \<rparr>"

lemma monthly_starts:
  assumes "starts_at_utc zones monthly_three_days s" "local_day utc s \<in> {0, 1, 2}" shows "s = 0"
proof -
  have clocks: "start_times zones monthly_three_days = Inr [(0, 0)]"
    by (simp add: start_times_def monthly_three_days_def daily_hour_def strategy_defs zone_def hour_of_def
        minute_of_def unix_sec_def)
  have match: "day_matcher monthly_three_days = Inr (\<lambda>loc t. case date_of loc t of (_, _, d) \<Rightarrow> d \<in> {1})"
    by (simp add: day_matcher_def monthly_three_days_def daily_hour_def strategy_defs Let_def)
  have d: "date_of utc (n * day_ns) = civil_of_day n" for n
    by (simp add: date_of_def local_day_midnight)
  have days: "civil_of_day 1 = (1970, 1, 2)" "civil_of_day 2 = (1970, 1, 3)"
    by code_simp+
  have "rule_of (\<lambda>loc t. case date_of loc t of (_, _, d) \<Rightarrow> d \<in> {1}) n = (snd (snd (civil_of_day n)) = 1)" for n
    by (simp add: rule_of_def d split: prod.splits)
  with assms(1) have "snd (snd (civil_of_day (local_day utc s))) = 1" "s = clock_start (local_day utc s) (0, 0)"
    by (auto simp: starts_at_utc_def clocks match day_starts_def split: if_splits)
  with assms(2) days show ?thesis by (auto simp: clock_start_def)
qed

theorem long_occurrence_is_cut_short_witness:
  "active_at (\<lambda>_. None) monthly_three_days (50 * hour) \<noteq> Inr True \<and>
     50 * hour < w_starts_at monthly_three_days + w_duration monthly_three_days"
proof
  have "\<not> (50 * hour - 2 * day_ns < s \<and> s \<le> 50 * hour)" if "starts_at_utc (\<lambda>_. None) monthly_three_days s" for s
  proof
    assume s: "50 * hour - 2 * day_ns < s \<and> s \<le> 50 * hour"
    then have "0 < s" "s \<le> 180000000000000" by (simp_all add: hour_def day_ns_def)
    then have "local_day utc 0 \<le> local_day utc s" "local_day utc s \<le> local_day utc 180000000000000"
      by (intro local_day_mono; simp)+
    then have "local_day utc s \<in> {0, 1, 2}" by (auto simp: local_day_def unix_sec_def)
    with monthly_starts[OF that] \<open>0 < s\<close> show False by simp
  qed
  then show "active_at (\<lambda>_. None) monthly_three_days (50 * hour) \<noteq> Inr True"
    by (intro long_occurrence_is_cut_short)
      (simp_all add: in_utc_def short_cron_def monthly_three_days_def daily_hour_def strategy_defs)
  show "50 * hour < w_starts_at monthly_three_days + w_duration monthly_three_days"
    by (simp add: monthly_three_days_def daily_hour_def hour_def)
qed

text \<open>A monitor, a window over it, and the tables they are in.\<close>

definition upgrade_window :: maintenance_window where
  "upgrade_window =
     \<lparr> mw_id = [1], mw_org = sentinel_org, mw_title = ''upgrade'', mw_description = '''',
       mw_schedule = daily_hour, mw_suppress = True, mw_show = False, mw_next = None,
       mw_targets = \<lparr> tg_monitors = [[7]], tg_groups = [], tg_tags = [] \<rparr>, mw_created = 0, mw_updated = 0 \<rparr>"

definition web_monitor :: monitor where
  "web_monitor =
     \<lparr> m_id = [7], m_org = sentinel_org, m_type = ''http'', m_config = '''', m_target = '''', m_enabled = True,
       m_interval = 60, m_retries = 0, m_resend_after = 0, m_notify_on_recovery = True, m_parent = None,
       m_created_at = 0 \<rparr>"

definition web_state :: "suppressed_by \<Rightarrow> monitor_state" where
  "web_state by =
     \<lparr> st_monitor = [7], st_org = sentinel_org, st_status = MonitorStatusUp, st_last_check = None,
       st_next_check = None, st_last_change = None, st_failures = 0, st_response_ms = None, st_message = '''',
       st_suppressed_by = by, st_version = 3 \<rparr>"

definition empty_maint :: "suppressed_by \<Rightarrow> maint_db" where
  "empty_maint by =
     \<lparr> mt_store = \<lparr> s_monitors = [([7], web_monitor)], s_states = [[7] \<mapsto> web_state by], s_rows = [],
         s_certs = Map.empty, s_domains = Map.empty, s_faults = {} \<rparr>,
       mt_windows = [], mt_targets = [], mt_pages = [], mt_groups = Map.empty, mt_tags = [], mt_faults = {} \<rparr>"

definition upgrade_db :: "suppressed_by \<Rightarrow> maint_db" where
  "upgrade_db by = empty_maint by
     \<lparr> mt_windows := [row_of_window upgrade_window], mt_targets := target_rows upgrade_window \<rparr>"

lemma upgrade_created: "create_window (empty_maint by) upgrade_window [] = Inr (upgrade_db by)"
  by (simp add: create_window_def empty_maint_def upgrade_db_def upgrade_window_def daily_hour_def known_strategies_def
      write_targets_def write_pages_def target_rows_def Let_def)

lemma upgrade_storable: "storable upgrade_window"
  by (auto simp: storable_def upgrade_window_def daily_hour_def on_ms_def Let_def intro!: exI[of _ 60])

theorem window_roundtrip_witness:
  "get_window (upgrade_db Unsuppressed) [1] = Inr upgrade_window"
  using window_roundtrip[OF upgrade_created[of Unsuppressed] upgrade_storable]
  by (simp add: empty_maint_def upgrade_window_def)

lemma upgrade_schedule: "row_schedule (row_of_window upgrade_window) = daily_hour"
  using stored_schedule[OF upgrade_storable] by (simp add: upgrade_window_def)


theorem maintenance_overwrites_dependency_witness:
  "\<exists>db1 n m. apply_maintenance (empty_maint SuppressedByDependency) [[7]] = Inr (db1, n, m) \<and>
     map_option st_suppressed_by (s_states (mt_store db1) [7]) = Some SuppressedByMaintenance"
  using maintenance_overwrites_dependency[of "empty_maint SuppressedByDependency" "[7]" "web_state SuppressedByDependency"]
  by (simp add: empty_maint_def web_state_def) blast

theorem pause_under_maintenance_ends_pending_witness:
  "\<exists>db1 db2 inside n m st2. set_monitor_enabled (empty_maint SuppressedByMaintenance) [7] False 0 = Inr db1 \<and>
     monitors_under_windows db1 [[1]] = Inr inside \<and> apply_maintenance db1 inside = Inr (db2, n, m) \<and>
     s_states (mt_store db2) [7] = Some st2 \<and> st_status st2 = MonitorStatusPending"
proof -
  let ?db = "empty_maint SuppressedByMaintenance"
  have st: "s_states (mt_store ?db) [7] = Some (web_state SuppressedByMaintenance)"
    "st_suppressed_by (web_state SuppressedByMaintenance) = SuppressedByMaintenance"
    by (simp_all add: empty_maint_def web_state_def)
  obtain db1 where p: "set_monitor_enabled ?db [7] False 0 = Inr db1" and f: "mt_faults db1 = {}"
    by (simp add: set_monitor_enabled_def empty_maint_def Let_def)
  obtain inside where u: "monitors_under_windows db1 [[1]] = Inr inside"
    using monitors_under_iff[OF f] by blast
  obtain db2 n m where a: "apply_maintenance db1 inside = Inr (db2, n, m)"
    using f by (simp add: apply_maintenance_def Let_def)
  from pause_under_maintenance_ends_pending[OF st p u a] p u a show ?thesis by blast
qed

end
