(* ===== verification/Ident.thy ===== *)
theory Ident
  imports Model GoStrings "HOL-Library.List_Lexorder"
begin

text \<open>
  Identifiers as text and as fresh values (\<open>internal/model/id.go\<close>, \<open>internal/model/uuid.go\<close>):
  the canonical dashed form, its parser, and the generator of time-ordered ids. The clock and the
  random source of the generator are arguments; an id is sixteen bytes.
\<close>

section \<open>The dashed form\<close>

definition hex_digits :: string where "hex_digits = ''0123456789abcdef''"

definition hex_encode :: "bytes \<Rightarrow> string" where
  "hex_encode bs = concat (map (\<lambda>b. [hex_digits ! (unat b div 16), hex_digits ! (unat b mod 16)]) bs)"

definition id_string :: "ident \<Rightarrow> string" where
  "id_string i =
     hex_encode (take 4 i) @ ''-'' @ hex_encode (take 2 (drop 4 i)) @ ''-'' @
     hex_encode (take 2 (drop 6 i)) @ ''-'' @ hex_encode (take 2 (drop 8 i)) @ ''-'' @
     hex_encode (take 6 (drop 10 i))"

definition zero_id :: ident where "zero_id = replicate 16 0"

definition id_is_zero :: "ident \<Rightarrow> bool" where "id_is_zero i = (i = zero_id)"

definition hex_nibble :: "char \<Rightarrow> 8 word option" where
  "hex_nibble c =
     (if code_of CHR ''0'' \<le> code_of c \<and> code_of c \<le> code_of CHR ''9'' then Some (word_of_int (code_of c - code_of CHR ''0''))
      else if code_of CHR ''a'' \<le> code_of c \<and> code_of c \<le> code_of CHR ''f'' then Some (word_of_int (code_of c - code_of CHR ''a'' + 10))
      else if code_of CHR ''A'' \<le> code_of c \<and> code_of c \<le> code_of CHR ''F'' then Some (word_of_int (code_of c - code_of CHR ''A'' + 10))
      else None)"

fun hex_pairs :: "string \<Rightarrow> bytes option" where
  "hex_pairs [] = Some []"
| "hex_pairs [c] = None"
| "hex_pairs (c # d # cs) =
     (case (hex_nibble c, hex_nibble d) of
        (Some hi, Some lo) \<Rightarrow> map_option ((#) (push_bit 4 hi + lo)) (hex_pairs cs)
      | _ \<Rightarrow> None)"

definition parse_id :: "string \<Rightarrow> ident option" where
  "parse_id s =
     (let clean = filter (\<lambda>c. c \<noteq> CHR ''-'') s
      in if length clean \<noteq> 32 then None else hex_pairs clean)"

section \<open>Fresh ids\<close>

record uuid_state =
  us_last :: int
  us_counter :: "16 word"

text \<open>The counter starts low, so that a burst within a millisecond has room to count.\<close>

definition random_counter :: "16 word \<Rightarrow> 16 word" where
  "random_counter r = and r 0x03ff"

definition byte_of :: "nat \<Rightarrow> 64 word \<Rightarrow> 8 word" where
  "byte_of k w = ucast (drop_bit (8 * k) w)"

definition new_id :: "uuid_state \<Rightarrow> int \<Rightarrow> 16 word \<Rightarrow> bytes \<Rightarrow> uuid_state \<times> ident" where
  "new_id s now r random =
     (let counter = (if now = us_last s then us_counter s + 1 else random_counter r);
          ms = word_of_int now :: 64 word;
          c = and counter 0x0fff;
          tail = copy_id random
      in (\<lparr> us_last = now, us_counter = counter \<rparr>,
          [byte_of 5 ms, byte_of 4 ms, byte_of 3 ms, byte_of 2 ms, byte_of 1 ms, byte_of 0 ms,
           or (and (ucast (drop_bit 8 c)) 0x0f) 0x70, ucast c,
           or (and (tail ! 0) 0x3f) 0x80] @ take 7 (tl tail)))"

section \<open>Properties\<close>

lemma below_16: "(n::nat) < 16 \<Longrightarrow> n \<in> {0, 1, 2, 3, 4, 5, 6, 7, 8, 9, 10, 11, 12, 13, 14, 15}"
  by (simp add: numeral_eq_Suc less_Suc_eq)

lemma hex_nibble_digit: "n < 16 \<Longrightarrow> hex_nibble (hex_digits ! n) = Some (of_nat n)"
  by (drule below_16, simp only: insert_iff empty_iff, elim disjE)
    (simp_all add: hex_nibble_def hex_digits_def code_of_def)

lemma hex_digit_not_dash: "n < 16 \<Longrightarrow> hex_digits ! n \<noteq> CHR ''-''"
  by (drule below_16, simp only: insert_iff empty_iff, elim disjE) (simp_all add: hex_digits_def)

lemma byte_split: "push_bit 4 (of_nat (unat b div 16)) + of_nat (unat b mod 16) = (b :: 8 word)"
proof -
  have "push_bit 4 (of_nat q) + of_nat r = (of_nat (q * 16 + r) :: 8 word)" for q r :: nat
    by (simp add: push_bit_eq_mult)
  then show ?thesis by (simp only: div_mult_mod_eq of_nat_unat ucast_id)
qed

lemma hex_encode_Cons: "hex_encode (b # bs) = hex_digits ! (unat b div 16) # hex_digits ! (unat b mod 16) # hex_encode bs"
  by (simp add: hex_encode_def)

lemma byte_halves: "unat (b :: 8 word) div 16 < 16" "unat b mod 16 < 16"
proof -
  have "unat b < 2 ^ 8" using unsigned_less[of b] by simp
  then show "unat b div 16 < 16" by simp
qed simp

lemma hex_pairs_encode: "hex_pairs (hex_encode bs) = Some bs"
  by (induction bs) (simp_all add: hex_encode_Cons hex_nibble_digit byte_halves byte_split, simp add: hex_encode_def)

lemma hex_encode_append: "hex_encode xs @ hex_encode ys = hex_encode (xs @ ys)"
  by (simp add: hex_encode_def)

lemma hex_encode_length: "length (hex_encode bs) = 2 * length bs"
  by (induction bs) (simp_all add: hex_encode_Cons, simp add: hex_encode_def)

lemma hex_encode_clean: "filter (\<lambda>c. c \<noteq> CHR ''-'') (hex_encode bs) = hex_encode bs"
  by (induction bs) (simp_all add: hex_encode_Cons hex_digit_not_dash byte_halves, simp add: hex_encode_def)

lemma id_parts: "take 4 i @ take 2 (drop 4 i) @ take 2 (drop 6 i) @ take 2 (drop 8 i) @ take 6 (drop 10 i) = take 16 i"
proof -
  have "take 4 i @ take 2 (drop 4 i) = take 6 i" by (metis take_add[of 4 2 i] numeral_plus_numeral semiring_norm(2-6))
  moreover have "take 6 i @ take 2 (drop 6 i) = take 8 i" using take_add[of 6 2 i] by simp
  moreover have "take 8 i @ take 2 (drop 8 i) = take 10 i" using take_add[of 8 2 i] by simp
  moreover have "take 10 i @ take 6 (drop 10 i) = take 16 i" using take_add[of 10 6 i] by simp
  ultimately show ?thesis by (metis append.assoc)
qed

lemma parse_id_string:
  assumes "length i = 16" shows "parse_id (id_string i) = Some i"
proof -
  have "filter (\<lambda>c. c \<noteq> CHR ''-'') (id_string i) = hex_encode (take 16 i)"
    by (simp add: id_string_def hex_encode_clean hex_encode_append id_parts)
  then show ?thesis
    using assms by (simp add: parse_id_def Let_def hex_encode_length hex_pairs_encode)
qed

lemma id_string_injective: "length i = 16 \<Longrightarrow> length j = 16 \<Longrightarrow> id_string i = id_string j \<Longrightarrow> i = j"
  by (metis option.inject parse_id_string)

text \<open>An id printed in its dashed form parses back to itself, so two ids never share a printed form:
  the text the API hands out, and the key a probe files an assignment under, name one id.\<close>

theorem id_roundtrip:
  assumes "length i = 16"
  shows "parse_id (id_string i) = Some i \<and> length (id_string i) = 36"
  using parse_id_string[OF assms] assms by (simp add: id_string_def hex_encode_length)

theorem id_roundtrip_witness:
  "parse_id (id_string (replicate 15 0xab @ [7])) = Some (replicate 15 0xab @ [7])"
  using id_roundtrip[of "replicate 15 0xab @ [7]"] by simp

end
