(* ===== verification/ProbeQueue.thy ===== *)
theory ProbeQueue
  imports Ident "HOL-Library.Multiset"
begin

text \<open>
  The probe's queue of due checks (\<open>internal/probe/scheduler.go\<close>) over \<open>container/heap\<close>: the
  binary heap on a slice, the queue operations, and the dispersal of start times. The lock
  makes each operation one step; the wake-up channel carries no data and is left out.
\<close>

section \<open>Tasks and the heap on a slice\<close>

record task =
  t_monitor :: string
  t_due :: instant
  t_attempt :: nat

definition earlier :: "task \<Rightarrow> task \<Rightarrow> bool" where
  "earlier a b = (t_due a < t_due b)"

definition swap_at :: "'a list \<Rightarrow> nat \<Rightarrow> nat \<Rightarrow> 'a list" where
  "swap_at xs i j = xs[i := xs ! j, j := xs ! i]"

lemma swap_at_length [simp]: "length (swap_at xs i j) = length xs"
  by (simp add: swap_at_def)

function sift_up :: "task list \<Rightarrow> nat \<Rightarrow> task list" where
  "sift_up q j =
     (if j = 0 then q
      else let i = (j - 1) div 2 in
        if \<not> earlier (q ! j) (q ! i) then q else sift_up (swap_at q i j) i)"
  by pat_completeness auto
termination by (relation "measure snd") auto

declare sift_up.simps [simp del]

definition least_child :: "task list \<Rightarrow> nat \<Rightarrow> nat \<Rightarrow> nat" where
  "least_child q i n =
     (let j1 = 2 * i + 1; j2 = j1 + 1
      in if j2 < n \<and> earlier (q ! j2) (q ! j1) then j2 else j1)"

lemma least_child_after: "i < least_child q i n"
  by (simp add: least_child_def Let_def)

function sift_down :: "task list \<Rightarrow> nat \<Rightarrow> nat \<Rightarrow> task list" where
  "sift_down q i n =
     (if n \<le> 2 * i + 1 then q
      else let j = least_child q i n in
        if \<not> earlier (q ! j) (q ! i) then q else sift_down (swap_at q i j) j n)"
  by pat_completeness auto
termination
proof (relation "measure (\<lambda>(q, i, n). n - i)")
  fix q i n j assume "\<not> n \<le> 2 * i + (1::nat)" "j = least_child q i n"
  then show "((swap_at q i j, j, n), q, i, n) \<in> measure (\<lambda>(q, i, n). n - i)"
    using least_child_after[of i q n] by auto
qed simp

declare sift_down.simps [simp del]

definition heap_push :: "task list \<Rightarrow> task \<Rightarrow> task list" where
  "heap_push q t = sift_up (q @ [t]) (length q)"

definition heap_pop :: "task list \<Rightarrow> task \<times> task list" where
  "heap_pop q = (let n = length q - 1; q' = sift_down (swap_at q 0 n) 0 n in (last q', butlast q'))"

definition heap_init :: "task list \<Rightarrow> task list" where
  "heap_init q = fold (\<lambda>i q'. sift_down q' i (length q)) (rev [0..<length q div 2]) q"

section \<open>The queue\<close>

datatype popped = Ready task | Wait duration

definition sched_push :: "task list \<Rightarrow> task \<Rightarrow> task list" where
  "sched_push q t = heap_push q t"

text \<open>The earliest task if it is due; otherwise how long to wait, which is nothing on an empty queue.\<close>

definition sched_pop :: "instant \<Rightarrow> task list \<Rightarrow> popped \<times> task list" where
  "sched_pop now q =
     (if q = [] then (Wait 0, q)
      else if now < t_due (q ! 0) then (Wait (time_sub (t_due (q ! 0)) now), q)
      else (case heap_pop q of (t, q') \<Rightarrow> (Ready t, q')))"

definition sched_drop :: "string \<Rightarrow> task list \<Rightarrow> task list" where
  "sched_drop key q = heap_init (filter (\<lambda>t. t_monitor t \<noteq> key) q)"

text \<open>FNV-1a over the bytes of the key, and the first instant of the monitor's phase after now.\<close>

definition fnv1a :: "string \<Rightarrow> 64 word" where
  "fnv1a s = fold (\<lambda>c h. xor h (word_of_int (code_of c)) * 1099511628211) s 14695981039346656037"

definition first_due :: "string \<Rightarrow> duration \<Rightarrow> instant \<Rightarrow> instant" where
  "first_due key interval now =
     (let offset = uint (fnv1a key) mod interval;
          due = time_truncate now interval + offset
      in if \<not> now < due then due + interval else due)"

section \<open>The slice stays a permutation\<close>

lemma mset_swap_at: "i < length xs \<Longrightarrow> j < length xs \<Longrightarrow> mset (swap_at xs i j) = mset xs"
  unfolding swap_at_def by (rule mset_swap)

lemma sift_up_mset: "j < length q \<Longrightarrow> mset (sift_up q j) = mset q"
proof (induction q j rule: sift_up.induct)
  case (1 q j)
  then show ?case by (subst sift_up.simps) (auto simp: Let_def mset_swap_at)
qed

lemma least_child_bound: "\<not> n \<le> 2 * i + 1 \<Longrightarrow> least_child q i n < n"
  by (simp add: least_child_def Let_def)

lemma sift_down_mset: "n \<le> length q \<Longrightarrow> mset (sift_down q i n) = mset q"
proof (induction q i n rule: sift_down.induct)
  case (1 q i n)
  show ?case
  proof (cases "n \<le> 2 * i + 1")
    case False
    with 1 least_child_bound[OF False, of q] show ?thesis
      by (subst sift_down.simps) (auto simp: Let_def mset_swap_at)
  qed (subst sift_down.simps, simp)
qed

lemma sift_down_length: "n \<le> length q \<Longrightarrow> length (sift_down q i n) = length q"
  using sift_down_mset[of n q i] mset_eq_length by blast

text \<open>Positions at and past the bound are not touched.\<close>

lemma sift_down_after: "n \<le> k \<Longrightarrow> n \<le> length q \<Longrightarrow> sift_down q i n ! k = q ! k"
proof (induction q i n rule: sift_down.induct)
  case (1 q i n)
  show ?case
  proof (cases "n \<le> 2 * i + 1")
    case False
    with 1 least_child_bound[OF False, of q] show ?thesis
      by (subst sift_down.simps) (auto simp: Let_def swap_at_def)
  qed (subst sift_down.simps, simp)
qed

section \<open>The order of the heap\<close>

definition parent :: "nat \<Rightarrow> nat" where "parent k = (k - 1) div 2"

text \<open>Below position \<open>m\<close> nothing is said; every other position is no earlier than its parent.\<close>

definition heap_from :: "nat \<Rightarrow> nat \<Rightarrow> task list \<Rightarrow> bool" where
  "heap_from m n q = (\<forall>k < n. 0 < k \<and> m \<le> parent k \<longrightarrow> t_due (q ! parent k) \<le> t_due (q ! k))"

text \<open>The same but for the children of \<open>i\<close>, who are no earlier than their grandparent.\<close>

definition sinking :: "nat \<Rightarrow> nat \<Rightarrow> nat \<Rightarrow> task list \<Rightarrow> bool" where
  "sinking m n i q =
     (\<forall>k < n. 0 < k \<and> m \<le> parent k \<longrightarrow>
        (parent k \<noteq> i \<longrightarrow> t_due (q ! parent k) \<le> t_due (q ! k)) \<and>
        (parent k = i \<and> 0 < i \<and> m \<le> parent i \<longrightarrow> t_due (q ! parent i) \<le> t_due (q ! k)))"

text \<open>The same but for \<open>j\<close> itself.\<close>

definition rising :: "nat \<Rightarrow> nat \<Rightarrow> task list \<Rightarrow> bool" where
  "rising n j q =
     (\<forall>k < n. 0 < k \<longrightarrow> (k \<noteq> j \<longrightarrow> t_due (q ! parent k) \<le> t_due (q ! k)) \<and>
        (parent k = j \<and> 0 < j \<longrightarrow> t_due (q ! parent j) \<le> t_due (q ! k)))"

lemma children: "0 < k \<Longrightarrow> parent k = i \<Longrightarrow> k = 2 * i + 1 \<or> k = 2 * i + 2"
  by (auto simp: parent_def)

lemma parent_child [simp]: "parent (2 * i + 1) = i" "parent (Suc (2 * i)) = i" "parent (2 * i + 2) = i"
    "parent (Suc (Suc (2 * i))) = i"
  by (auto simp: parent_def)

lemma parent_less: "0 < k \<Longrightarrow> parent k < k"
  by (auto simp: parent_def)

lemma swap_at_nth:
  "i < length q \<Longrightarrow> j < length q \<Longrightarrow> swap_at q i j ! k = (if k = j then q ! i else if k = i then q ! j else q ! k)"
  by (auto simp: swap_at_def nth_list_update)

lemma least_child_parent: "parent (least_child q i n) = i"
  by (simp add: least_child_def Let_def)

lemma least_child_least:
  assumes "\<not> n \<le> 2 * i + 1" "k < n" "0 < k" "parent k = i"
  shows "t_due (q ! least_child q i n) \<le> t_due (q ! k)"
  using children[OF assms(3,4)] assms(2) by (auto simp: least_child_def Let_def earlier_def)

lemma sinking_step:
  assumes "sinking m n i q" "\<not> n \<le> 2 * i + 1" "n \<le> length q" "m \<le> i" "j = least_child q i n" "earlier (q ! j) (q ! i)"
  shows "sinking m n j (swap_at q i j)"
proof -
  have j: "i < j" "j < n" "parent j = i"
    using least_child_after least_child_bound[OF assms(2)] least_child_parent by (simp_all add: assms(5))
  note nth = swap_at_nth[of i q j]
  have lt: "i < length q" "j < length q" using j assms(3) by simp_all
  have jle: "t_due (q ! j) \<le> t_due (q ! k)" if "k < n" "0 < k" "parent k = i" for k
    unfolding assms(5) by (rule least_child_least[OF assms(2) that])
  have ord: "t_due (swap_at q i j ! parent k) \<le> t_due (swap_at q i j ! k)"
    if k: "k < n" "0 < k" "m \<le> parent k" "parent k \<noteq> j" for k
  proof (cases "parent k = i")
    case True
    then have "k \<noteq> i" using parent_less[OF k(2)] by simp
    with True jle[OF k(1,2)] assms(6) j(1) lt show ?thesis by (simp add: nth earlier_def)
  next
    case False
    show ?thesis
    proof (cases "k = i")
      case True
      have "t_due (q ! parent i) \<le> t_due (q ! j)"
        using assms(1,4) j k True by (auto simp: sinking_def)
      with True False k lt j show ?thesis by (simp add: nth)
    next
      case kne: False
      with False k assms(1) j(3) have "t_due (q ! parent k) \<le> t_due (q ! k)" "k \<noteq> j"
        by (auto simp: sinking_def)
      with False kne k lt show ?thesis by (simp add: nth)
    qed
  qed
  have grand: "t_due (swap_at q i j ! parent j) \<le> t_due (swap_at q i j ! k)"
    if k: "k < n" "0 < k" "m \<le> parent k" "parent k = j" for k
  proof -
    have "t_due (q ! j) \<le> t_due (q ! k)" using assms(1) k j by (auto simp: sinking_def)
    moreover have "k \<noteq> j" "k \<noteq> i" using parent_less[OF k(2)] k(4) j(1) by auto
    ultimately show ?thesis using j lt by (simp add: nth)
  qed
  from ord grand show ?thesis by (auto simp: sinking_def)
qed

lemma sift_down_heap: "sinking m n i q \<Longrightarrow> n \<le> length q \<Longrightarrow> m \<le> i \<Longrightarrow> heap_from m n (sift_down q i n)"
proof (induction q i n rule: sift_down.induct)
  case (1 q i n)
  show ?case
  proof (cases "n \<le> 2 * i + 1")
    case True
    then have "parent k \<noteq> i" if "k < n" "0 < k" for k using children[OF that(2)] that(1) by auto
    with 1(2) True show ?thesis by (subst sift_down.simps) (simp add: heap_from_def sinking_def)
  next
    case False
    let ?j = "least_child q i n"
    show ?thesis
    proof (cases "earlier (q ! ?j) (q ! i)")
      case True
      have "heap_from m n (sift_down (swap_at q i ?j) ?j n)"
        using 1(1)[OF False refl] True sinking_step[OF 1(2) False 1(3,4) refl True] 1(3,4) least_child_after[of i q n]
        by simp
      with False True show ?thesis by (subst sift_down.simps) (simp add: Let_def)
    next
      case stop: False
      have "t_due (q ! i) \<le> t_due (q ! k)" if "k < n" "0 < k" "parent k = i" for k
        using least_child_least[OF False that, of q] stop by (simp add: earlier_def)
      with 1(2) have "heap_from m n q" by (auto simp: heap_from_def sinking_def)
      with False stop show ?thesis by (subst sift_down.simps) (simp add: Let_def)
    qed
  qed
qed

lemma rising_step:
  assumes "rising n j q" "n \<le> length q" "j < n" "0 < j" "earlier (q ! j) (q ! parent j)"
  shows "rising n (parent j) (swap_at q (parent j) j)"
proof -
  let ?p = "parent j" and ?q = "swap_at q (parent j) j"
  have p: "?p < j" by (rule parent_less[OF assms(4)])
  note nth = swap_at_nth[of ?p q j]
  have lt: "?p < length q" "j < length q" using p assms(2,3) by simp_all
  have ord: "t_due (?q ! parent k) \<le> t_due (?q ! k)" if k: "k < n" "0 < k" "k \<noteq> ?p" for k
  proof (cases "k = j")
    case True
    with assms(5) p lt show ?thesis by (simp add: nth earlier_def)
  next
    case kne: False
    consider "parent k = j" | "parent k = ?p" | "parent k \<noteq> j" "parent k \<noteq> ?p" by blast
    then show ?thesis
    proof cases
      case 1
      with assms(1,4) k have "t_due (q ! ?p) \<le> t_due (q ! k)" by (auto simp: rising_def)
      with 1 kne k lt p show ?thesis by (simp add: nth)
    next
      case 2
      with assms(1) k kne have "t_due (q ! ?p) \<le> t_due (q ! k)" by (auto simp: rising_def)
      with 2 kne k lt p assms(5) show ?thesis by (simp add: nth earlier_def)
    next
      case 3
      with assms(1) k kne have "t_due (q ! parent k) \<le> t_due (q ! k)" by (auto simp: rising_def)
      with 3 kne k lt show ?thesis by (simp add: nth)
    qed
  qed
  have grand: "t_due (?q ! parent ?p) \<le> t_due (?q ! k)" if k: "k < n" "0 < k" "parent k = ?p" "0 < ?p" for k
  proof -
    have pp: "parent ?p < ?p" by (rule parent_less[OF k(4)])
    have up: "t_due (q ! parent ?p) \<le> t_due (q ! ?p)" using assms(1,3) k(4) p by (auto simp: rising_def)
    have "t_due (q ! ?p) \<le> t_due (q ! k)" if "k \<noteq> j" using assms(1) k that by (auto simp: rising_def)
    moreover have "k \<noteq> ?p" using parent_less[OF k(2)] k(3) by auto
    ultimately show ?thesis using up pp p lt by (cases "k = j") (simp_all add: nth)
  qed
  from ord grand show ?thesis by (auto simp: rising_def)
qed

lemma sift_up_heap: "rising n j q \<Longrightarrow> n \<le> length q \<Longrightarrow> j < n \<Longrightarrow> heap_from 0 n (sift_up q j)"
proof (induction q j rule: sift_up.induct)
  case (1 q j)
  show ?case
  proof (cases "j \<noteq> 0 \<and> earlier (q ! j) (q ! parent j)")
    case True
    then have p: "parent j < j" by (simp add: parent_less)
    have "rising n (parent j) (swap_at q (parent j) j)" by (rule rising_step) (use 1 True in auto)
    with 1 True p have "heap_from 0 n (sift_up (swap_at q (parent j) j) (parent j))"
      by (simp add: parent_def)
    with True show ?thesis by (subst sift_up.simps) (simp add: parent_def Let_def)
  next
    case False
    with 1(2) have "heap_from 0 n q"
      by (auto simp: heap_from_def rising_def earlier_def)
    with False show ?thesis by (subst sift_up.simps) (auto simp: parent_def Let_def)
  qed
qed

definition heap :: "task list \<Rightarrow> bool" where "heap q = heap_from 0 (length q) q"

lemma heap_root_least: "heap q \<Longrightarrow> k < length q \<Longrightarrow> t_due (q ! 0) \<le> t_due (q ! k)"
proof (induction k rule: less_induct)
  case (less k)
  show ?case
  proof (cases "k = 0")
    case False
    then have "parent k < k" by (simp add: parent_less)
    with less False have "t_due (q ! 0) \<le> t_due (q ! parent k)" "t_due (q ! parent k) \<le> t_due (q ! k)"
      by (auto simp: heap_def heap_from_def)
    then show ?thesis by simp
  qed simp
qed

lemma heap_push_heap:
  assumes "heap q" shows "heap (heap_push q t) \<and> mset (heap_push q t) = add_mset t (mset q)"
proof -
  have m: "mset (heap_push q t) = add_mset t (mset q)"
    unfolding heap_push_def by (subst sift_up_mset) simp_all
  then have "length (heap_push q t) = Suc (length q)" by (metis mset_append mset_single_iff_right size_add_mset size_mset)
  moreover have "rising (Suc (length q)) (length q) (q @ [t])"
    unfolding rising_def
  proof (intro allI impI conjI)
    fix k assume k: "k < Suc (length q)" "0 < k"
    have pk: "parent k < k" by (rule parent_less[OF k(2)])
    show "t_due ((q @ [t]) ! parent k) \<le> t_due ((q @ [t]) ! k)" if "k \<noteq> length q"
    proof -
      from that k(1) have "k < length q" by simp
      with pk k(2) assms show ?thesis by (simp add: nth_append heap_def heap_from_def)
    qed
    show "t_due ((q @ [t]) ! parent (length q)) \<le> t_due ((q @ [t]) ! k)" if "parent k = length q \<and> 0 < length q"
      using that pk k(1) by simp
  qed
  then have "heap_from 0 (Suc (length q)) (heap_push q t)"
    unfolding heap_push_def by (rule sift_up_heap) simp_all
  ultimately show ?thesis using m by (simp add: heap_def)
qed

lemma heap_pop_heap:
  assumes "heap q" "q \<noteq> []" "heap_pop q = (t, q')"
  shows "t = q ! 0 \<and> heap q' \<and> add_mset t (mset q') = mset q"
proof -
  let ?n = "length q - 1" and ?q1 = "swap_at q 0 (length q - 1)"
  let ?q2 = "sift_down ?q1 0 ?n"
  have len: "length q = Suc ?n" "0 < length q" using assms(2) by simp_all
  have l2: "length ?q2 = length q" using sift_down_length[of ?n ?q1 0] by simp
  then have ne: "?q2 \<noteq> []" using assms(2) by auto
  have q': "t = last ?q2" "q' = butlast ?q2" using assms(3) by (simp_all add: heap_pop_def Let_def)
  have "last ?q2 = ?q2 ! ?n" using ne l2 by (simp add: last_conv_nth)
  also have "\<dots> = ?q1 ! ?n" by (rule sift_down_after) simp_all
  also have "\<dots> = q ! 0" using len by (simp add: swap_at_nth)
  finally have t: "t = q ! 0" using q'(1) by simp
  have "sinking 0 ?n 0 ?q1"
    unfolding sinking_def
  proof (intro allI impI conjI)
    fix k assume k: "k < ?n" "0 < k \<and> 0 \<le> parent k"
    have pk: "parent k < k" by (rule parent_less) (use k in simp)
    show "t_due (?q1 ! parent k) \<le> t_due (?q1 ! k)" if "parent k \<noteq> 0"
      using that pk k assms(1) len by (simp add: swap_at_nth heap_def heap_from_def)
  qed simp
  then have h2: "heap_from 0 ?n ?q2" by (rule sift_down_heap) simp_all
  have "heap q'"
    unfolding heap_def heap_from_def
  proof (intro allI impI)
    fix k assume k: "k < length q'" "0 < k \<and> 0 \<le> parent k"
    have pk: "parent k < k" by (rule parent_less) (use k in simp)
    have "k < ?n" using k(1) l2 by (simp add: q'(2))
    with h2 k pk l2 show "t_due (q' ! parent k) \<le> t_due (q' ! k)"
      by (simp add: q'(2) nth_butlast heap_from_def)
  qed
  moreover have "mset ?q2 = mset q"
    using sift_down_mset[of ?n ?q1 0] mset_swap_at[of 0 q ?n] len by simp
  moreover have "add_mset t (mset q') = mset ?q2"
    unfolding q' using arg_cong[OF append_butlast_last_id[OF ne], of mset] by simp
  ultimately show ?thesis using t by simp
qed

lemma heap_init_heap: "heap (heap_init q) \<and> mset (heap_init q) = mset q"
proof -
  have run: "length p = length q \<Longrightarrow> heap_from h (length q) p \<Longrightarrow>
      (let p' = fold (\<lambda>i q'. sift_down q' i (length q)) (rev [0..<h]) p
       in heap_from 0 (length q) p' \<and> mset p' = mset p)" for h p
  proof (induction h arbitrary: p)
    case (Suc h)
    have "sinking h (length q) h p"
      unfolding sinking_def
    proof (intro allI impI conjI)
      fix k assume k: "k < length q" "0 < k \<and> h \<le> parent k"
      show "t_due (p ! parent k) \<le> t_due (p ! k)" if "parent k \<noteq> h"
        using that k Suc.prems(2) by (simp add: heap_from_def)
      show "t_due (p ! parent h) \<le> t_due (p ! k)" if "parent k = h \<and> 0 < h \<and> h \<le> parent h"
        using that parent_less[of h] by simp
    qed
    then have "heap_from h (length q) (sift_down p h (length q))"
      by (rule sift_down_heap) (simp_all add: Suc.prems)
    moreover have "length (sift_down p h (length q)) = length q" "mset (sift_down p h (length q)) = mset p"
      using Suc.prems(1) by (simp_all add: sift_down_length sift_down_mset)
    ultimately show ?case using Suc.IH[of "sift_down p h (length q)"] by (simp add: Let_def)
  qed simp
  have "heap_from (length q div 2) (length q) q" by (auto simp: heap_from_def parent_def)
  with run[of q "length q div 2"] have "heap_from 0 (length q) (heap_init q)" "mset (heap_init q) = mset q"
    by (simp_all add: heap_init_def Let_def)
  moreover from this(2) have "length (heap_init q) = length q" using mset_eq_length by blast
  ultimately show ?thesis by (simp add: heap_def)
qed

section \<open>The contract of the queue\<close>

text \<open>
  What the probe's loop relies on: pushing and dropping are the obvious changes of a multiset of
  tasks, and a pop hands out a task that is due and than which none is earlier, or says that
  none is due.
\<close>

datatype queue_op = Op_push task | Op_pop instant | Op_drop string

locale due_queue =
  fixes push :: "'q \<Rightarrow> task \<Rightarrow> 'q"
    and pop :: "instant \<Rightarrow> 'q \<Rightarrow> popped \<times> 'q"
    and drop_key :: "string \<Rightarrow> 'q \<Rightarrow> 'q"
    and tasks :: "'q \<Rightarrow> task multiset"
    and ok :: "'q \<Rightarrow> bool"
  assumes push_law: "ok q \<Longrightarrow> ok (push q t) \<and> tasks (push q t) = add_mset t (tasks q)"
    and drop_law: "ok q \<Longrightarrow> ok (drop_key key q) \<and>
      tasks (drop_key key q) = filter_mset (\<lambda>t. t_monitor t \<noteq> key) (tasks q)"
    and pop_ready: "ok q \<Longrightarrow> pop now q = (Ready t, q') \<Longrightarrow> ok q' \<and> tasks q = add_mset t (tasks q') \<and>
      t_due t \<le> now \<and> (\<forall>u \<in># tasks q. t_due t \<le> t_due u)"
    and pop_wait: "ok q \<Longrightarrow> pop now q = (Wait d, q') \<Longrightarrow> q' = q \<and> (\<forall>u \<in># tasks q. now < t_due u)"
begin

fun run :: "'q \<Rightarrow> queue_op list \<Rightarrow> task list \<times> 'q" where
  "run q [] = ([], q)"
| "run q (Op_push t # ops) = run (push q t) ops"
| "run q (Op_drop key # ops) = run (drop_key key q) ops"
| "run q (Op_pop now # ops) =
     (case pop now q of
        (Ready t, q') \<Rightarrow> (case run q' ops of (out, q'') \<Rightarrow> (t # out, q''))
      | (Wait d, q') \<Rightarrow> run q' ops)"

lemma run_ok: "ok q \<Longrightarrow> ok (snd (run q ops))"
proof (induction q ops rule: run.induct)
  case (4 q now ops)
  obtain r q' where p: "pop now q = (r, q')" by fastforce
  show ?case
  proof (cases r)
    case (Ready t)
    with p pop_ready[OF 4(3), of now t q'] 4(1)[OF p[symmetric] Ready] show ?thesis by (cases "run q' ops") simp
  next
    case (Wait d)
    with p pop_wait[OF 4(3), of now d q'] 4 show ?thesis by (cases "run q' ops") simp
  qed
qed (simp_all add: push_law drop_law)

fun pushed :: "queue_op list \<Rightarrow> task multiset" where
  "pushed [] = {#}"
| "pushed (Op_push t # ops) = add_mset t (pushed ops)"
| "pushed (Op_pop now # ops) = pushed ops"
| "pushed (Op_drop key # ops) = pushed ops"

text \<open>Nothing is made up: what came out and what is left was in the queue or was pushed.\<close>

lemma run_conserves: "ok q \<Longrightarrow> mset (fst (run q ops)) + tasks (snd (run q ops)) \<subseteq># tasks q + pushed ops"
proof (induction q ops rule: run.induct)
  case (2 q t ops)
  then show ?case using push_law[OF 2(2), of t] by simp
next
  case (3 q key ops)
  have "filter_mset (\<lambda>t. t_monitor t \<noteq> key) (tasks q) + pushed ops \<subseteq># tasks q + pushed ops"
    by (simp add: multiset_filter_subset)
  with 3 drop_law[OF 3(2), of key] show ?case by (auto intro: subset_mset.order_trans)
next
  case (4 q now ops)
  obtain r q' where p: "pop now q = (r, q')" by fastforce
  show ?case
  proof (cases r)
    case (Ready t)
    have "ok q'" using pop_ready[OF 4(3)] p Ready by blast
    with 4(1)[OF p[symmetric] Ready] have "mset (fst (run q' ops)) + tasks (snd (run q' ops)) \<subseteq># tasks q' + pushed ops"
      by simp
    with p Ready pop_ready[OF 4(3), of now t q'] show ?thesis by (cases "run q' ops") simp
  next
    case (Wait d)
    with p 4 pop_wait[OF 4(3), of now d q'] show ?thesis by simp
  qed
qed simp

end

lemma sched_pop_cases:
  assumes "heap q"
  shows "sched_pop now q = (Ready t, q') \<Longrightarrow> heap q' \<and> mset q = add_mset t (mset q') \<and>
      t_due t \<le> now \<and> (\<forall>u \<in># mset q. t_due t \<le> t_due u)"
    and "sched_pop now q = (Wait d, q') \<Longrightarrow> q' = q \<and> (\<forall>u \<in># mset q. now < t_due u)"
proof -
  have least: "\<forall>u \<in> set q. t_due (q ! 0) \<le> t_due u"
    using heap_root_least[OF assms] by (auto simp: in_set_conv_nth)
  show "heap q' \<and> mset q = add_mset t (mset q') \<and> t_due t \<le> now \<and> (\<forall>u \<in># mset q. t_due t \<le> t_due u)"
    if "sched_pop now q = (Ready t, q')"
    using that heap_pop_heap[OF assms, of t q'] least
    by (auto simp: sched_pop_def split: if_splits prod.splits)
  show "q' = q \<and> (\<forall>u \<in># mset q. now < t_due u)" if "sched_pop now q = (Wait d, q')"
    using that least by (fastforce simp: sched_pop_def split: if_splits prod.splits)
qed

interpretation sched: due_queue sched_push sched_pop sched_drop mset heap
proof
  show "heap (sched_push q t) \<and> mset (sched_push q t) = add_mset t (mset q)" if "heap q" for q t
    using heap_push_heap[OF that] by (simp add: sched_push_def)
  show "heap (sched_drop key q) \<and> mset (sched_drop key q) = filter_mset (\<lambda>t. t_monitor t \<noteq> key) (mset q)" for key q
    using heap_init_heap[of "filter (\<lambda>t. t_monitor t \<noteq> key) q"] by (simp add: sched_drop_def)
qed (use sched_pop_cases in blast)+

section \<open>Properties\<close>

definition queue_after :: "queue_op list \<Rightarrow> task list" where
  "queue_after ops = snd (sched.run [] ops)"

lemma queue_after_heap: "heap (queue_after ops)"
  unfolding queue_after_def by (rule sched.run_ok) (simp add: heap_def heap_from_def)

lemma queue_after_pushed: "mset (queue_after ops) \<subseteq># sched.pushed ops"
  using sched.run_conserves[of "[]" ops]
  by (auto simp: queue_after_def heap_def heap_from_def intro: subset_mset.order_trans[rotated])


definition due_at :: "instant \<Rightarrow> task" where
  "due_at t = \<lparr> t_monitor = ''m'', t_due = t, t_attempt = 1 \<rparr>"


text \<open>A monitor's first check comes within one interval, and its phase depends on the monitor and the
  interval alone: whenever it is assigned, the instants it may start at are the same.\<close>

theorem first_due_keeps_the_phase:
  assumes "0 < interval"
  shows "now < first_due key interval now \<and> first_due key interval now \<le> now + interval \<and>
    (first_due key interval now - zero_time) mod interval = uint (fnv1a key) mod interval"
proof -
  let ?o = "uint (fnv1a key) mod interval"
  have o: "0 \<le> ?o" "?o < interval" using assms by simp_all
  note b = time_truncate_bounds[OF assms, of now]
  define c where "c = (now - zero_time) div interval"
  have T: "time_truncate now interval = zero_time + interval * c"
    using assms minus_mod_eq_mult_div[of "now - zero_time" interval] by (simp add: time_truncate_def c_def)
  have "(time_truncate now interval + ?o - zero_time) mod interval = (?o + interval * c) mod interval"
    "(time_truncate now interval + ?o + interval - zero_time) mod interval = (?o + interval * (c + 1)) mod interval"
    unfolding T by (rule arg_cong[of _ _ "\<lambda>x. x mod interval"], simp add: algebra_simps)+
  then have p: "(time_truncate now interval + ?o - zero_time) mod interval = ?o"
    "(time_truncate now interval + ?o + interval - zero_time) mod interval = ?o"
    by (simp_all only: mod_mult_self2 mod_mod_trivial)
  define f where "f = ?o"
  show ?thesis
    using o b p unfolding first_due_def Let_def f_def[symmetric]
    by (cases "now < time_truncate now interval + f"; simp only: simp_thms if_True if_False; linarith)
qed

theorem first_due_keeps_the_phase_witness:
  "100 < first_due ''m'' (60 * second) 100 \<and> first_due ''m'' (60 * second) 100 \<le> 100 + 60 * second"
  using first_due_keeps_the_phase[of "60 * second" 100 "''m''"] by (simp add: second_def)

end
