(* ===== verification/ProbeBuffer.thy ===== *)
theory ProbeBuffer
  imports Observations "HOL-Library.List_Lexorder" "HOL-Library.Multiset"
begin

text \<open>
  The probe's result buffer (\<open>internal/probe/buffer.go\<close>): results wait in it until the control
  plane acknowledges them, and are shed, unchanged outcomes first, when it is full. The lock
  makes each operation one step. The counter of shed results is unbounded here.
\<close>

section \<open>The buffer\<close>

datatype wire_class =
  ERROR_CLASS_UNSPECIFIED | ERROR_CLASS_ASSERTION | ERROR_CLASS_TIMEOUT | ERROR_CLASS_DNS | ERROR_CLASS_TLS
| ERROR_CLASS_NETWORK | ERROR_CLASS_CONFIG | ERROR_CLASS_CAPABILITY

record presult =
  pr_result :: result
  pr_changed :: bool
  pr_class :: wire_class

record buffer =
  b_items :: "presult list"
  b_sent :: nat
  b_bytes :: int
  b_shed :: nat
  b_max_items :: nat
  b_max_bytes :: int

definition default_max_items :: nat where "default_max_items = 250000"
definition default_max_bytes :: int where "default_max_bytes = 64 * 2 ^ 20"

definition new_buffer :: buffer where
  "new_buffer =
     \<lparr> b_items = [], b_sent = 0, b_bytes = 0, b_shed = 0, b_max_items = default_max_items,
       b_max_bytes = default_max_bytes \<rparr>"

abbreviation pr_id :: "presult \<Rightarrow> bytes" where "pr_id r \<equiv> res_id (pr_result r)"

definition cert_size :: "cert_seen \<Rightarrow> nat" where
  "cert_size c =
     64 + length (cs_subject c) + length (cs_issuer c) + length (cs_serial c) + length (cs_fingerprint c) +
     length (cs_chain_error c) + sum_list (map (\<lambda>san. length san + 2) (cs_sans c))"

definition domain_size :: "domain_seen \<Rightarrow> nat" where
  "domain_size d = 32 + length (ds_domain d) + length (ds_registrar d) + length (ds_source d)"

definition approx_size :: "presult \<Rightarrow> int" where
  "approx_size p =
     (let r = pr_result p in
      int (64 + length (res_id r) + length (res_monitor r) + length (res_code r) + length (res_message r) +
        (case res_cert r of None \<Rightarrow> 0 | Some c \<Rightarrow> cert_size c) +
        (case res_domain r of None \<Rightarrow> 0 | Some d \<Rightarrow> domain_size d)))"

text \<open>The position of the oldest result whose outcome did not change.\<close>

fun first_sheddable :: "presult list \<Rightarrow> nat option" where
  "first_sheddable [] = None"
| "first_sheddable (r # rs) = (if pr_changed r then map_option Suc (first_sheddable rs) else Some 0)"

definition shed_one :: "buffer \<Rightarrow> buffer option" where
  "shed_one b =
     (case first_sheddable (b_items b) of
        None \<Rightarrow> None
      | Some i \<Rightarrow> Some (b
          \<lparr> b_bytes := b_bytes b - approx_size (b_items b ! i),
            b_items := take i (b_items b) @ drop (Suc i) (b_items b),
            b_sent := (if i < b_sent b then b_sent b - 1 else b_sent b),
            b_shed := b_shed b + 1 \<rparr>))"

definition over :: "buffer \<Rightarrow> bool" where
  "over b = (b_max_items b < length (b_items b) \<or> b_max_bytes b < b_bytes b)"

lemma first_sheddable_less: "first_sheddable rs = Some i \<Longrightarrow> i < length rs \<and> \<not> pr_changed (rs ! i)"
  by (induction rs arbitrary: i) (auto split: if_splits)

lemma shed_one_shorter: "shed_one b = Some b' \<Longrightarrow> length (b_items b') < length (b_items b)"
  by (auto simp: shed_one_def split: option.splits dest!: first_sheddable_less)

function shed_while_over :: "buffer \<Rightarrow> buffer" where
  "shed_while_over b =
     (if \<not> over b then b
      else case shed_one b of None \<Rightarrow> b | Some b' \<Rightarrow> shed_while_over b')"
  by pat_completeness auto
termination by (relation "measure (\<lambda>b. length (b_items b))") (auto intro: shed_one_shorter)

declare shed_while_over.simps [simp del]

definition add :: "buffer \<Rightarrow> presult \<Rightarrow> buffer" where
  "add b r = shed_while_over (b \<lparr> b_items := b_items b @ [r], b_bytes := b_bytes b + approx_size r \<rparr>)"

definition next_batch :: "buffer \<Rightarrow> nat \<Rightarrow> presult list \<times> buffer" where
  "next_batch b n =
     (if length (b_items b) \<le> b_sent b then ([], b)
      else let stop = min (b_sent b + n) (length (b_items b))
           in (take (stop - b_sent b) (drop (b_sent b) (b_items b)), b \<lparr> b_sent := stop \<rparr>))"

text \<open>\<open>bytes.Compare\<close> orders byte strings lexicographically, a prefix first.\<close>

fun acked_prefix :: "bytes \<Rightarrow> presult list \<Rightarrow> nat" where
  "acked_prefix through [] = 0"
| "acked_prefix through (r # rs) = (if pr_id r \<le> through then Suc (acked_prefix through rs) else 0)"

definition ack :: "buffer \<Rightarrow> bytes \<Rightarrow> buffer" where
  "ack b through =
     (if through = [] then b
      else let keep = acked_prefix through (b_items b) in
        if keep = 0 then b
        else b \<lparr> b_bytes := b_bytes b - sum_list (map approx_size (take keep (b_items b))),
                 b_items := drop keep (b_items b), b_sent := b_sent b - keep \<rparr>)"

definition rewind :: "buffer \<Rightarrow> buffer" where
  "rewind b = b \<lparr> b_sent := 0 \<rparr>"

definition stats :: "buffer \<Rightarrow> nat \<times> int \<times> nat" where
  "stats b = (length (b_items b), b_bytes b, b_shed b)"

section \<open>The accounts are right\<close>

text \<open>
  Sent results are a prefix, the bytes are the sum of the sizes, and a buffer over its bounds
  holds nothing but changes of outcome.
\<close>

definition buffer_ok :: "buffer \<Rightarrow> bool" where
  "buffer_ok b =
     (b_sent b \<le> length (b_items b) \<and> b_bytes b = sum_list (map approx_size (b_items b)) \<and>
      (over b \<longrightarrow> (\<forall>r \<in> set (b_items b). pr_changed r)))"

definition counted :: "buffer \<Rightarrow> bool" where
  "counted b = (b_sent b \<le> length (b_items b) \<and> b_bytes b = sum_list (map approx_size (b_items b)))"

lemma first_sheddable_none: "first_sheddable rs = None \<longleftrightarrow> (\<forall>r \<in> set rs. pr_changed r)"
  by (induction rs) auto

lemma approx_size_nonneg: "0 \<le> approx_size r"
  unfolding approx_size_def Let_def by (rule of_nat_0_le_iff)

lemma shed_one_counted:
  assumes "shed_one b = Some b'" "counted b"
  shows "counted b' \<and> b_shed b' = b_shed b + 1 \<and> b_max_items b' = b_max_items b \<and> b_max_bytes b' = b_max_bytes b \<and>
    (\<exists>r. \<not> pr_changed r \<and> mset (b_items b) = add_mset r (mset (b_items b')))"
proof -
  obtain i where i: "first_sheddable (b_items b) = Some i" "i < length (b_items b)" "\<not> pr_changed (b_items b ! i)"
    using assms(1) first_sheddable_less by (fastforce simp: shed_one_def split: option.splits)
  have split: "b_items b = take i (b_items b) @ b_items b ! i # drop (Suc i) (b_items b)"
    by (rule id_take_nth_drop[OF i(2)])
  have "sum_list (map approx_size (b_items b)) =
      approx_size (b_items b ! i) + sum_list (map approx_size (take i (b_items b) @ drop (Suc i) (b_items b)))"
    by (subst split) simp
  moreover have "mset (b_items b) = add_mset (b_items b ! i) (mset (take i (b_items b) @ drop (Suc i) (b_items b)))"
    by (subst split) simp
  ultimately show ?thesis using assms i by (auto simp: shed_one_def counted_def)
qed

lemma shed_while_over_ok:
  "counted b \<Longrightarrow> buffer_ok (shed_while_over b) \<and> b_max_items (shed_while_over b) = b_max_items b \<and>
     b_max_bytes (shed_while_over b) = b_max_bytes b \<and>
     (\<exists>lost. mset (b_items b) = mset (b_items (shed_while_over b)) + lost \<and> (\<forall>r \<in># lost. \<not> pr_changed r) \<and>
        b_shed (shed_while_over b) = b_shed b + size lost)"
proof (induction b rule: shed_while_over.induct)
  case (1 b)
  show ?case
  proof (cases "over b")
    case False
    with 1 show ?thesis by (subst (1 2 3 4 5) shed_while_over.simps) (simp add: buffer_ok_def counted_def)
  next
    case True
    show ?thesis
    proof (cases "shed_one b")
      case None
      then have "\<forall>r \<in> set (b_items b). pr_changed r"
        by (simp add: shed_one_def first_sheddable_none split: option.splits)
      with 1 True None show ?thesis by (subst (1 2 3 4 5) shed_while_over.simps) (simp add: buffer_ok_def counted_def)
    next
      case (Some b')
      from shed_one_counted[OF Some 1(2)] obtain r where s: "counted b'" "b_shed b' = b_shed b + 1"
        "b_max_items b' = b_max_items b" "b_max_bytes b' = b_max_bytes b" "\<not> pr_changed r"
        "mset (b_items b) = add_mset r (mset (b_items b'))" by blast
      have e: "shed_while_over b = shed_while_over b'" using True Some by (subst shed_while_over.simps) simp
      from 1(1)[of b'] True Some s(1) obtain lost where l: "buffer_ok (shed_while_over b')"
        "b_max_items (shed_while_over b') = b_max_items b'" "b_max_bytes (shed_while_over b') = b_max_bytes b'"
        "mset (b_items b') = mset (b_items (shed_while_over b')) + lost" "\<forall>r \<in># lost. \<not> pr_changed r"
        "b_shed (shed_while_over b') = b_shed b' + size lost" by auto
      with s show ?thesis unfolding e by (auto intro!: exI[of _ "add_mset r lost"])
    qed
  qed
qed

section \<open>Any sequence of operations\<close>

datatype buffer_op = Op_add presult | Op_next nat | Op_ack bytes | Op_rewind

text \<open>The buffer after a sequence, and what acknowledgements freed on the way.\<close>

fun buffer_run :: "buffer \<Rightarrow> buffer_op list \<Rightarrow> buffer \<times> presult list" where
  "buffer_run b [] = (b, [])"
| "buffer_run b (Op_add r # ops) = buffer_run (add b r) ops"
| "buffer_run b (Op_next n # ops) = buffer_run (snd (next_batch b n)) ops"
| "buffer_run b (Op_rewind # ops) = buffer_run (rewind b) ops"
| "buffer_run b (Op_ack through # ops) =
     (case buffer_run (ack b through) ops of
        (b', freed) \<Rightarrow> (b', take (length (b_items b) - length (b_items (ack b through))) (b_items b) @ freed))"

fun added :: "buffer_op list \<Rightarrow> presult multiset" where
  "added [] = {#}"
| "added (Op_add r # ops) = add_mset r (added ops)"
| "added (Op_next n # ops) = added ops"
| "added (Op_ack through # ops) = added ops"
| "added (Op_rewind # ops) = added ops"

lemma acked_prefix_le: "acked_prefix through rs \<le> length rs"
  by (induction rs) auto

lemma buffer_ok_counted: "buffer_ok b \<Longrightarrow> counted b"
  by (simp add: buffer_ok_def counted_def)

lemma over_prefix:
  assumes "buffer_ok b" "b_items b' = drop k (b_items b)" "b_bytes b' = sum_list (map approx_size (b_items b'))"
    "b_max_items b' = b_max_items b" "b_max_bytes b' = b_max_bytes b" "b_sent b' \<le> length (b_items b')"
  shows "buffer_ok b'"
proof -
  have "b_bytes b = sum_list (map approx_size (take k (b_items b))) + b_bytes b'"
    using assms(1,3) unfolding assms(2) buffer_ok_def by (metis append_take_drop_id map_append sum_list_append)
  moreover have "0 \<le> sum_list (map approx_size (take k (b_items b)))"
    by (rule sum_list_nonneg) (auto simp: approx_size_nonneg)
  ultimately have "over b' \<Longrightarrow> over b" using assms(2,4,5) by (auto simp: over_def)
  moreover have "set (b_items b') \<subseteq> set (b_items b)" using assms(2) by (simp add: set_drop_subset)
  ultimately show ?thesis using assms(1,3,6) by (auto simp: buffer_ok_def)
qed

lemma ack_freed:
  assumes "buffer_ok b"
  shows "buffer_ok (ack b through) \<and> b_shed (ack b through) = b_shed b \<and>
    b_items b = take (length (b_items b) - length (b_items (ack b through))) (b_items b) @ b_items (ack b through)"
proof (cases "through = [] \<or> acked_prefix through (b_items b) = 0")
  case True
  then have "ack b through = b" by (auto simp: ack_def)
  with assms show ?thesis by simp
next
  case False
  let ?k = "acked_prefix through (b_items b)"
  have k: "?k \<le> length (b_items b)" by (rule acked_prefix_le)
  have a: "b_items (ack b through) = drop ?k (b_items b)" "b_sent (ack b through) = b_sent b - ?k"
    "b_bytes (ack b through) = b_bytes b - sum_list (map approx_size (take ?k (b_items b)))"
    "b_shed (ack b through) = b_shed b" "b_max_items (ack b through) = b_max_items b" "b_max_bytes (ack b through) = b_max_bytes b"
    using False by (simp_all add: ack_def Let_def)
  have "b_bytes b = sum_list (map approx_size (take ?k (b_items b))) + sum_list (map approx_size (drop ?k (b_items b)))"
    using assms unfolding buffer_ok_def by (metis append_take_drop_id map_append sum_list_append)
  then have "buffer_ok (ack b through)"
    using assms a by (intro over_prefix[OF assms a(1)]) (simp_all add: buffer_ok_def diff_le_mono)
  then show ?thesis using a k by simp
qed

lemma next_batch_items:
  "b_items (snd (next_batch b n)) = b_items b \<and> b_shed (snd (next_batch b n)) = b_shed b \<and>
     (buffer_ok b \<longrightarrow> buffer_ok (snd (next_batch b n)))"
  by (auto simp: next_batch_def Let_def buffer_ok_def over_def)

lemma rewind_items: "b_items (rewind b) = b_items b \<and> b_shed (rewind b) = b_shed b \<and> (buffer_ok b \<longrightarrow> buffer_ok (rewind b))"
  by (simp add: rewind_def buffer_ok_def over_def)

lemma no_changes: "\<forall>r \<in># lost. \<not> pr_changed r \<Longrightarrow> filter_mset pr_changed lost = {#}"
  by (induction lost) auto

lemma add_ok:
  assumes "buffer_ok b"
  shows "buffer_ok (add b r) \<and> (\<exists>lost. add_mset r (mset (b_items b)) = mset (b_items (add b r)) + lost \<and>
    filter_mset pr_changed lost = {#} \<and> b_shed (add b r) = b_shed b + size lost)"
proof -
  have "counted (b \<lparr> b_items := b_items b @ [r], b_bytes := b_bytes b + approx_size r \<rparr>)"
    using assms by (simp add: counted_def buffer_ok_def)
  from shed_while_over_ok[OF this] show ?thesis
    using no_changes by (fastforce simp: add_def)
qed

lemma buffer_run_accounts:
  "buffer_ok b \<Longrightarrow> buffer_run b ops = (b', freed) \<Longrightarrow> buffer_ok b' \<and>
     (\<exists>lost. mset (b_items b) + added ops = mset (b_items b') + mset freed + lost \<and>
        filter_mset pr_changed lost = {#} \<and> b_shed b' = b_shed b + size lost)"
proof (induction b ops arbitrary: b' freed rule: buffer_run.induct)
  case (2 b r ops)
  from add_ok[OF 2(2), of r] obtain l where l: "buffer_ok (add b r)"
    "add_mset r (mset (b_items b)) = mset (b_items (add b r)) + l" "filter_mset pr_changed l = {#}"
    "b_shed (add b r) = b_shed b + size l" by blast
  from 2(1)[OF l(1), of b' freed] 2(3) obtain m where m: "buffer_ok b'"
    "mset (b_items (add b r)) + added ops = mset (b_items b') + mset freed + m" "filter_mset pr_changed m = {#}"
    "b_shed b' = b_shed (add b r) + size m" by auto
  have "mset (b_items b) + added (Op_add r # ops) = (mset (b_items (add b r)) + added ops) + l"
    using l(2) by (simp add: union_commute union_lcomm)
  also have "\<dots> = mset (b_items b') + mset freed + (m + l)" unfolding m(2) by (simp add: union_assoc)
  finally have "mset (b_items b) + added (Op_add r # ops) = mset (b_items b') + mset freed + (m + l)" .
  with l m show ?case by (intro conjI exI[of _ "m + l"]) simp_all
next
  case (5 b through ops)
  obtain fr where r: "buffer_run (ack b through) ops = (b', fr)"
    and f: "freed = take (length (b_items b) - length (b_items (ack b through))) (b_items b) @ fr"
    using 5(3) by (auto split: prod.splits)
  note a = ack_freed[OF 5(2), of through]
  from 5(1)[of b' fr] a r obtain lost where l: "buffer_ok b'"
    "mset (b_items (ack b through)) + added ops = mset (b_items b') + mset fr + lost" "filter_mset pr_changed lost = {#}"
    "b_shed b' = b_shed b + size lost" by auto
  have "mset (b_items b) = mset (take (length (b_items b) - length (b_items (ack b through))) (b_items b)) +
      mset (b_items (ack b through))"
    using a by (metis mset_append)
  then have "mset (b_items b) + added ops = mset (b_items b') + mset freed + lost"
    using l(2) by (simp add: f union_assoc union_commute union_lcomm)
  with l show ?case by auto
qed (use next_batch_items rewind_items in \<open>auto split: prod.splits\<close>)


section \<open>What an acknowledgement frees\<close>

text \<open>When the ids in the buffer ascend, an acknowledgement of a result that was sent frees that
  result and those before it, all of which were sent, and leaves what is unsent to the next batch.\<close>

theorem ack_frees_only_what_was_sent:
  assumes "sorted_wrt (<) (map pr_id (b_items b))" "k < b_sent b" "b_sent b \<le> length (b_items b)"
    "pr_id (b_items b ! k) \<noteq> []"
  shows "b_items (ack b (pr_id (b_items b ! k))) = drop (Suc k) (b_items b) \<and>
    drop (b_sent (ack b (pr_id (b_items b ! k)))) (b_items (ack b (pr_id (b_items b ! k)))) = drop (b_sent b) (b_items b)"
proof -
  have prefix: "sorted_wrt (<) (map pr_id rs) \<Longrightarrow> j < length rs \<Longrightarrow> acked_prefix (pr_id (rs ! j)) rs = Suc j" for rs j
  proof (induction rs arbitrary: j)
    case (Cons r rs)
    show ?case
    proof (cases j)
      case 0
      show ?thesis
      proof (cases rs)
        case (Cons r' rs')
        then have "\<not> pr_id r' \<le> pr_id r" using Cons.prems(1) by (simp add: not_le)
        with 0 Cons show ?thesis by simp
      qed (simp add: 0)
    next
      case (Suc i)
      with Cons.prems have less: "pr_id r < pr_id (rs ! i)" by simp
      have "pr_id r \<le> pr_id (rs ! i)" by (rule less_imp_le[OF less])
      with Suc Cons show ?thesis by simp
    qed
  qed simp
  have "k < length (b_items b)" using assms(2,3) by simp
  with prefix[OF assms(1)] have "acked_prefix (pr_id (b_items b ! k)) (b_items b) = Suc k" by blast
  with assms show ?thesis by (simp add: ack_def Let_def)
qed

text \<open>Two results of two checks running at once: the id of the second is drawn before that of the
  first, but it is added after.\<close>

definition plain_result :: "bytes \<Rightarrow> presult" where
  "plain_result i =
     \<lparr> pr_result = \<lparr> res_id = i, res_monitor = [], res_micros = 0, res_outcome = OUTCOME_DOWN, res_ms = 0,
         res_code = '''', res_message = '''', res_attempt = 1, res_cert = None, res_domain = None \<rparr>,
       pr_changed = True, pr_class = ERROR_CLASS_UNSPECIFIED \<rparr>"

theorem ack_frees_only_what_was_sent_witness:
  "b_items (ack (new_buffer \<lparr> b_items := [plain_result [1], plain_result [2]], b_sent := 1 \<rparr>) [1]) = [plain_result [2]]"
  using ack_frees_only_what_was_sent[of "new_buffer \<lparr> b_items := [plain_result [1], plain_result [2]], b_sent := 1 \<rparr>" 0]
  by (simp add: plain_result_def)

text \<open>An acknowledgement can free a result that was never sent. Drawing an id and adding the result are
  two steps, and checks run concurrently: when the result with the smaller id is added last, after
  the other was sent, the acknowledgement of the other frees both, and the change of outcome it
  carried is lost without being counted.\<close>

theorem ack_frees_a_late_arrival:
  assumes "pr_id y \<le> pr_id x" "pr_id x \<noteq> []" "approx_size x + approx_size y \<le> default_max_bytes" "0 < n"
  shows "fst (next_batch (add new_buffer x) n) = [x] \<and>
    buffer_run new_buffer [Op_add x, Op_next n, Op_add y, Op_ack (pr_id x)] =
      (new_buffer, [x, y])"
proof -
  have sz: "approx_size x \<le> default_max_bytes" using assms(3) approx_size_nonneg[of y] by simp
  have one: "add new_buffer x = new_buffer \<lparr> b_items := [x], b_bytes := approx_size x \<rparr>"
    using sz by (simp add: add_def new_buffer_def shed_while_over.simps over_def default_max_items_def)
  have "next_batch (add new_buffer x) n = ([x], new_buffer \<lparr> b_items := [x], b_bytes := approx_size x, b_sent := 1 \<rparr>)"
    using assms(4) unfolding one by (simp add: next_batch_def Let_def new_buffer_def)
  moreover have "add (new_buffer \<lparr> b_items := [x], b_bytes := approx_size x, b_sent := 1 \<rparr>) y =
      new_buffer \<lparr> b_items := [x, y], b_bytes := approx_size x + approx_size y, b_sent := 1 \<rparr>"
    using assms(3) by (simp add: add_def new_buffer_def shed_while_over.simps over_def default_max_items_def)
  moreover have "ack (new_buffer \<lparr> b_items := [x, y], b_bytes := approx_size x + approx_size y, b_sent := 1 \<rparr>) (pr_id x) = new_buffer"
    using assms(1,2) by (simp add: ack_def Let_def new_buffer_def)
  ultimately show ?thesis by (simp add: new_buffer_def)
qed

theorem ack_frees_a_late_arrival_witness:
  "fst (next_batch (add new_buffer (plain_result [2])) 500) = [plain_result [2]] \<and>
     buffer_run new_buffer [Op_add (plain_result [2]), Op_next 500, Op_add (plain_result [1]), Op_ack [2]] =
       (new_buffer, [plain_result [2], plain_result [1]])"
proof -
  have i: "pr_id (plain_result i) = i" for i by (simp add: plain_result_def)
  have "pr_id (plain_result [1]) \<le> pr_id (plain_result [2])" "pr_id (plain_result [2]) \<noteq> []"
    "approx_size (plain_result [2]) + approx_size (plain_result [1]) \<le> default_max_bytes" "(0::nat) < 500"
    by (simp_all add: plain_result_def approx_size_def default_max_bytes_def)
  from ack_frees_a_late_arrival[OF this] show ?thesis unfolding i .
qed

end
