(* ===== verification/ProbeAssign.thy ===== *)
theory ProbeAssign
  imports ProbeQueue ProbeBuffer
begin

text \<open>
  What a probe is told to check and what it reports of a check: assignments and their digest
  (\<open>internal/protocol/digest.go\<close>), a checker's observation on the wire
  (\<open>internal/observation/observation.go\<close>), and the outcome and error class of a result
  (\<open>internal/probe/execute.go\<close>). SHA-256 is a parameter.
\<close>

section \<open>Assignments\<close>

record assignment =
  as_monitor :: bytes
  as_type :: string
  as_config :: bytes
  as_interval :: nat
  as_timeout :: nat
  as_retries :: nat
  as_retry_interval :: nat
  as_upside_down :: bool
  as_version :: string

definition assignment_key :: "assignment \<Rightarrow> string" where
  "assignment_key a = id_string (copy_id (as_monitor a))"

definition interval :: "assignment \<Rightarrow> duration" where
  "interval a = int (as_interval a) * second"

definition string_bytes :: "string \<Rightarrow> bytes" where
  "string_bytes s = map (\<lambda>c. word_of_int (code_of c)) s"

definition digest_entry :: "assignment \<Rightarrow> bytes" where
  "digest_entry a = as_monitor a @ [0] @ string_bytes (as_version a) @ [0]"

definition digest_bytes :: "assignment list \<Rightarrow> bytes" where
  "digest_bytes as = concat (sort (map digest_entry as))"

definition assignment_digest :: "(bytes \<Rightarrow> bytes) \<Rightarrow> assignment list \<Rightarrow> string" where
  "assignment_digest sha256 as = hex_encode (sha256 (digest_bytes as))"

section \<open>Observations\<close>

datatype error_class =
  ClassNone | ClassAssertion | ClassTimeout | ClassDNS | ClassTLS | ClassNetwork | ClassConfig | ClassCapability

record cert_info =
  ci_subject :: string
  ci_issuer :: string
  ci_serial :: string
  ci_not_before :: instant
  ci_not_after :: instant
  ci_fingerprint :: bytes
  ci_sans :: "string list"
  ci_chain_valid :: "bool option"
  ci_chain_error :: string
  ci_threshold :: "int option"

record domain_info =
  di_domain :: string
  di_expires_at :: instant
  di_registrar :: string
  di_source :: string
  di_threshold :: "int option"

record observation =
  obs_status :: status
  obs_response :: "duration option"
  obs_code :: string
  obs_class :: error_class
  obs_message :: string
  obs_cert :: "cert_info option"
  obs_domain :: "domain_info option"

text \<open>\<open>UnixMicro\<close> rounds towards the past; a threshold is cut to 32 bits.\<close>

definition unix_micro :: "instant \<Rightarrow> int" where "unix_micro t = t div 1000"

definition to_int32 :: "int \<Rightarrow> int" where "to_int32 i = sint (word_of_int i :: 32 word)"

definition certificate_seen :: "cert_info \<Rightarrow> cert_seen" where
  "certificate_seen c =
     \<lparr> cs_subject = ci_subject c, cs_issuer = ci_issuer c, cs_serial = ci_serial c,
       cs_from_micros = (if ci_not_before c = zero_time then 0 else unix_micro (ci_not_before c)),
       cs_to_micros = unix_micro (ci_not_after c), cs_fingerprint = ci_fingerprint c,
       cs_sans = ci_sans c, cs_chain_valid = ci_chain_valid c, cs_chain_error = ci_chain_error c,
       cs_threshold = map_option to_int32 (ci_threshold c) \<rparr>"

definition registration_seen :: "domain_info \<Rightarrow> domain_seen" where
  "registration_seen d =
     \<lparr> ds_domain = di_domain d, ds_expires_micros = unix_micro (di_expires_at d),
       ds_registrar = di_registrar d, ds_source = di_source d,
       ds_threshold = map_option to_int32 (di_threshold d) \<rparr>"

fun to_outcome :: "status \<Rightarrow> outcome" where
  "to_outcome StatusUp = OUTCOME_UP"
| "to_outcome StatusDown = OUTCOME_DOWN"
| "to_outcome StatusSkipped = OUTCOME_SKIPPED"
| "to_outcome _ = OUTCOME_UNKNOWN"

fun to_error_class :: "error_class \<Rightarrow> wire_class" where
  "to_error_class ClassAssertion = ERROR_CLASS_ASSERTION"
| "to_error_class ClassTimeout = ERROR_CLASS_TIMEOUT"
| "to_error_class ClassDNS = ERROR_CLASS_DNS"
| "to_error_class ClassTLS = ERROR_CLASS_TLS"
| "to_error_class ClassNetwork = ERROR_CLASS_NETWORK"
| "to_error_class ClassConfig = ERROR_CLASS_CONFIG"
| "to_error_class ClassCapability = ERROR_CLASS_CAPABILITY"
| "to_error_class ClassNone = ERROR_CLASS_UNSPECIFIED"

text \<open>What was observed, in a line: a certificate by its fingerprint, a registration by its date.\<close>

definition observation_key :: "observation \<Rightarrow> string option" where
  "observation_key obs =
     (case obs_cert obs of
        Some c \<Rightarrow> Some (''cert:'' @ hex_encode (ci_fingerprint c))
      | None \<Rightarrow>
          (case obs_domain obs of
             Some d \<Rightarrow> Some (''domain:'' @ rfc3339 (di_expires_at d))
           | None \<Rightarrow> None))"

text \<open>\<open>Duration.Round\<close> to the millisecond, halves away from zero, and \<open>Duration.String\<close> of the outcome.\<close>

definition round_ms :: "duration \<Rightarrow> duration" where
  "round_ms d =
     (let r = \<bar>d\<bar> mod millisecond; down = \<bar>d\<bar> - r;
          m = (if 2 * r < millisecond then down else down + millisecond)
      in if d < 0 then max min_int64 (- m) else min max_int64 m)"

fun drop_trailing_zeros :: "string \<Rightarrow> string" where
  "drop_trailing_zeros [] = []"
| "drop_trailing_zeros (c # cs) =
     (case drop_trailing_zeros cs of
        [] \<Rightarrow> if c = CHR ''0'' then [] else [c]
      | cs' \<Rightarrow> c # cs')"

definition duration_ms_string :: "duration \<Rightarrow> string" where
  "duration_ms_string d =
     (let u = \<bar>d\<bar>; ms = u div millisecond; s = ms div 1000; f = ms mod 1000;
          frac = (if f = 0 then '''' else CHR ''.'' # drop_trailing_zeros (pad_to 3 (itoa f)));
          body = (if u = 0 then ''0s''
                  else if s = 0 then itoa ms @ ''ms''
                  else if s < 60 then itoa s @ frac @ ''s''
                  else if s < 3600 then itoa (s div 60) @ ''m'' @ itoa (s mod 60) @ frac @ ''s''
                  else itoa (s div 3600) @ ''h'' @ itoa (s div 60 mod 60) @ ''m'' @ itoa (s mod 60) @ frac @ ''s'')
      in if d < 0 then CHR ''-'' # body else body)"

text \<open>\<open>strconv.Quote\<close>; text beyond ASCII is taken to be printable and stays as it is.\<close>

definition quoted_char :: "char \<Rightarrow> string" where
  "quoted_char c =
     (let n = code_of c; bs = CHR 0x5c in
      if c = CHR 0x22 \<or> c = bs then [bs, c]
      else if n = 7 then [bs, CHR ''a''] else if n = 8 then [bs, CHR ''b'']
      else if n = 12 then [bs, CHR ''f''] else if n = 10 then [bs, CHR ''n'']
      else if n = 13 then [bs, CHR ''r''] else if n = 9 then [bs, CHR ''t'']
      else if n = 11 then [bs, CHR ''v'']
      else if n < 32 \<or> n = 127 then [bs, CHR ''x''] @ hex_encode [word_of_int n]
      else [c])"

definition quoted :: "string \<Rightarrow> string" where
  "quoted s = [CHR 0x22] @ concat (map quoted_char s) @ [CHR 0x22]"

section \<open>The digest tells sets of assignments apart\<close>

definition well_formed_entry :: "bytes \<Rightarrow> bool" where
  "well_formed_entry e = (\<exists>i v. length i = 16 \<and> 0 \<notin> set v \<and> e = i @ [0] @ v @ [0])"

lemma zero_cut: "0 \<notin> set v \<Longrightarrow> 0 \<notin> set w \<Longrightarrow> v @ (0::8 word) # r = w @ 0 # q \<Longrightarrow> v = w \<and> r = q"
  by (induction v arbitrary: w) (auto simp: Cons_eq_append_conv)

lemma well_formed_concat:
  "\<forall>e \<in> set es. well_formed_entry e \<Longrightarrow> \<forall>e \<in> set fs. well_formed_entry e \<Longrightarrow> concat es = concat fs \<Longrightarrow> es = fs"
proof (induction es arbitrary: fs)
  case Nil
  then show ?case by (cases fs) (auto simp: well_formed_entry_def)
next
  case (Cons e es)
  obtain i v where e: "length i = 16" "0 \<notin> set v" "e = i @ [0] @ v @ [0]"
    using Cons.prems(1) by (auto simp: well_formed_entry_def)
  then obtain f fs' where fs: "fs = f # fs'" using Cons.prems(3) by (cases fs) auto
  obtain j w where f: "length j = 16" "0 \<notin> set w" "f = j @ [0] @ w @ [0]"
    using Cons.prems(2) fs by (auto simp: well_formed_entry_def)
  have "i @ 0 # v @ 0 # concat es = j @ 0 # w @ 0 # concat fs'" using Cons.prems(3) e f fs by simp
  with e(1) f(1) have "i = j" "v @ 0 # concat es = w @ 0 # concat fs'" by (simp_all add: append_eq_append_conv)
  from this(2) have "v = w \<and> concat es = concat fs'" by (rule zero_cut[OF e(2) f(2)])
  moreover have "es = fs'" by (rule Cons.IH) (use Cons.prems fs calculation in auto)
  ultimately show ?case using \<open>i = j\<close> by (simp add: e(3) f(3) fs)
qed

lemma char_code_range: "of_char c < (256::nat)"
  by (metis of_char_mod_256 mod_less_divisor zero_less_numeral)

lemma char_word_inj: "(word_of_int (code_of c) :: 8 word) = word_of_int (code_of d) \<longleftrightarrow> c = d"
proof -
  have "0 \<le> code_of c \<and> code_of c < 2 ^ LENGTH(8)" for c using char_code_range[of c] by (simp add: code_of_def)
  from word_of_int_inj[OF this this, of c d] have "(word_of_int (code_of c) :: 8 word) = word_of_int (code_of d) \<longleftrightarrow> code_of c = code_of d" .
  then show ?thesis by (simp add: code_of_def)
qed

lemma string_bytes_inj: "string_bytes s = string_bytes t \<longleftrightarrow> s = t"
  unfolding string_bytes_def by (subst inj_map_eq_map) (auto simp: inj_def char_word_inj)

lemma string_bytes_no_zero: "CHR 0x00 \<notin> set s \<Longrightarrow> 0 \<notin> set (string_bytes s)"
proof
  assume s: "CHR 0x00 \<notin> set s" and "0 \<in> set (string_bytes s)"
  then obtain c where c: "c \<in> set s" "word_of_int (code_of c) = (0 :: 8 word)"
    by (auto simp only: string_bytes_def set_map image_iff)
  have "code_of (CHR 0x00) = 0" by (simp add: code_of_def)
  then have "word_of_int (code_of (CHR 0x00)) = (0 :: 8 word)" by simp
  then have "c = CHR 0x00" using c(2) char_word_inj by metis
  with c(1) s show False by simp
qed

definition proper_assignment :: "assignment \<Rightarrow> bool" where
  "proper_assignment a = (length (as_monitor a) = 16 \<and> CHR 0x00 \<notin> set (as_version a))"

lemma digest_entry_proper: "proper_assignment a \<Longrightarrow> well_formed_entry (digest_entry a)"
  unfolding proper_assignment_def well_formed_entry_def digest_entry_def using string_bytes_no_zero by blast

lemma digest_entry_inj:
  "proper_assignment a \<Longrightarrow> proper_assignment b \<Longrightarrow>
     digest_entry a = digest_entry b \<longleftrightarrow> (as_monitor a, as_version a) = (as_monitor b, as_version b)"
  by (auto simp: digest_entry_def proper_assignment_def append_eq_append_conv string_bytes_inj)

abbreviation versions_of :: "assignment list \<Rightarrow> (bytes \<times> string) multiset" where
  "versions_of as \<equiv> mset (map (\<lambda>a. (as_monitor a, as_version a)) as)"

lemma entries_versions:
  "mset (map digest_entry as) = image_mset (\<lambda>(i, v). i @ [0] @ string_bytes v @ [0]) (versions_of as)"
  by (simp add: digest_entry_def[abs_def] multiset.map_comp comp_def)

lemma same_versions_same_digest:
  assumes "versions_of as = versions_of bs"
  shows "assignment_digest sha256 as = assignment_digest sha256 bs"
proof -
  have "mset (map digest_entry as) = mset (map digest_entry bs)" using assms by (simp only: entries_versions)
  then have "sort (map digest_entry as) = sort (map digest_entry bs)"
    by (metis properties_for_sort sorted_sort mset_sort)
  then show ?thesis by (simp add: assignment_digest_def digest_bytes_def)
qed

text \<open>The digest is a function of which monitors are assigned at which version, in whatever order either
  side lists them, and of nothing less where SHA-256 does not collide.\<close>

lemma digest_tells_sets_apart:
  assumes "\<forall>a \<in> set as \<union> set bs. proper_assignment a"
    and "sha256 (concat (sort (map digest_entry as))) = sha256 (concat (sort (map digest_entry bs))) \<Longrightarrow>
      concat (sort (map digest_entry as)) = concat (sort (map digest_entry bs))"
  shows "assignment_digest sha256 as = assignment_digest sha256 bs \<longleftrightarrow> versions_of as = versions_of bs"
proof
  assume "versions_of as = versions_of bs"
  then show "assignment_digest sha256 as = assignment_digest sha256 bs" by (rule same_versions_same_digest)
next
  assume "assignment_digest sha256 as = assignment_digest sha256 bs"
  then have "sha256 (concat (sort (map digest_entry as))) = sha256 (concat (sort (map digest_entry bs)))"
    unfolding assignment_digest_def digest_bytes_def by (metis hex_pairs_encode option.inject)
  then have "concat (sort (map digest_entry as)) = concat (sort (map digest_entry bs))" by (rule assms(2))
  then have "sort (map digest_entry as) = sort (map digest_entry bs)"
    using assms(1) digest_entry_proper by (intro well_formed_concat) auto
  then have m: "mset (map digest_entry as) = mset (map digest_entry bs)" by (metis mset_sort)
  let ?e = "\<lambda>(i, v). i @ [0] @ string_bytes v @ [0]"
  have "versions_of as = versions_of bs \<longleftrightarrow> image_mset ?e (versions_of as) = image_mset ?e (versions_of bs)"
  proof (intro iffI)
    assume "image_mset ?e (versions_of as) = image_mset ?e (versions_of bs)"
    then show "versions_of as = versions_of bs"
    proof (rule multiset.inj_map_strong[rotated])
      fix x y assume "x \<in># versions_of as" "y \<in># versions_of bs" "?e x = ?e y"
      then show "x = y" using assms(1) digest_entry_inj unfolding digest_entry_def by fastforce
    qed
  qed simp
  with m show "versions_of as = versions_of bs" by (simp only: entries_versions)
qed

definition sample_assignment :: "8 word \<Rightarrow> assignment" where
  "sample_assignment n =
     \<lparr> as_monitor = replicate 15 0 @ [n], as_type = ''http'', as_config = [], as_interval = 60, as_timeout = 10,
       as_retries = 1, as_retry_interval = 5, as_upside_down = False, as_version = ''v1'' \<rparr>"

end
