(* ===== verification/ProbeSession.thy ===== *)
theory ProbeSession
  imports ProbeAssign "HOL-Library.AList"
begin

text \<open>
  One probe session (\<open>internal/probe/watch.go\<close>, \<open>internal/probe/execute.go\<close>): the assignments it
  holds, the loop that starts due checks, the checks in flight, and the results they leave in the
  buffer. The session's two locks, the queue's and the assignments', are held for one action at
  a time, so an update is a list of actions which the loop and the running checks interleave
  with. The checkers are a parameter: their validation, and the observations they make.
\<close>

section \<open>The state of a session\<close>

datatype reject_reason = REASON_UNSUPPORTED_TYPE | REASON_INVALID_CONFIG

record rejection =
  rj_monitor :: bytes
  rj_version :: string
  rj_reason :: reject_reason
  rj_message :: string

text \<open>A checker, as far as assigning goes: what it finds wrong with a configuration.\<close>

type_synonym registry = "string \<Rightarrow> (bytes \<Rightarrow> string option) option"

datatype action =
  Act_swap "(string \<times> assignment) list" "rejection list"
| Act_set string assignment
| Act_remove string
| Act_drop string
| Act_push task
| Act_reject rejection

text \<open>What the loop holds between two steps: a task it took, or a check it is shedding.\<close>

datatype loop_hand = Idle | Popped task instant | Shedding assignment task

text \<open>A check in flight has still to report, or has reported this status and has still to reschedule.\<close>

record flight =
  fl_assignment :: assignment
  fl_task :: task
  fl_reported :: "status option"

record session =
  ss_assignments :: "(string \<times> assignment) list"
  ss_last_outcome :: "string \<rightharpoonup> outcome"
  ss_last_seen :: "string \<rightharpoonup> string \<times> instant"
  ss_rejections :: "rejection list"
  ss_queue :: "task list"
  ss_buffer :: buffer
  ss_flights :: "flight list"
  ss_hand :: loop_hand
  ss_watch :: "action list"
  ss_max_concurrent :: nat
  ss_skipped :: nat
  ss_started :: nat
  ss_completed :: nat

definition new_session :: "int \<Rightarrow> session" where
  "new_session max_concurrent =
     \<lparr> ss_assignments = [], ss_last_outcome = Map.empty, ss_last_seen = Map.empty, ss_rejections = [],
       ss_queue = [], ss_buffer = new_buffer, ss_flights = [], ss_hand = Idle, ss_watch = [],
       ss_max_concurrent = (if max_concurrent \<le> 0 then 2000 else nat max_concurrent),
       ss_skipped = 0, ss_started = 0, ss_completed = 0 \<rparr>"

definition assigned :: "session \<Rightarrow> string \<Rightarrow> assignment option" where
  "assigned s key = map_of (ss_assignments s) key"

section \<open>Applying what the control plane assigns\<close>

definition validate :: "registry \<Rightarrow> assignment \<Rightarrow> rejection option" where
  "validate reg a =
     (let reject = (\<lambda>reason msg. Some \<lparr> rj_monitor = as_monitor a, rj_version = as_version a,
                                        rj_reason = reason, rj_message = msg \<rparr>)
      in case reg (as_type a) of
           None \<Rightarrow> reject REASON_UNSUPPORTED_TYPE (''this probe has no checker for type '' @ quoted (as_type a))
         | Some check \<Rightarrow>
             if as_interval a = 0 then reject REASON_INVALID_CONFIG ''interval_seconds is zero''
             else case check (as_config a) of
                    Some err \<Rightarrow> reject REASON_INVALID_CONFIG err
                  | None \<Rightarrow> None)"

definition first_task :: "instant \<Rightarrow> string \<Rightarrow> assignment \<Rightarrow> task" where
  "first_task now key a = \<lparr> t_monitor = key, t_due = first_due key (interval a) now, t_attempt = 1 \<rparr>"

definition accept_set :: "registry \<Rightarrow> assignment list \<Rightarrow> (string \<times> assignment) list \<times> rejection list" where
  "accept_set reg sent =
     (fold (\<lambda>a m. AList.update (assignment_key a) a m) (filter (\<lambda>a. validate reg a = None) sent) [],
      List.map_filter (validate reg) sent)"

text \<open>
  A full set replaces the assignments, drops what was scheduled, and schedules the new ones. The
  runtime ranges over each of the two maps in an order of its own.
\<close>

definition full_set_actions ::
  "registry \<Rightarrow> instant \<Rightarrow> string list \<Rightarrow> (string \<times> assignment) list \<Rightarrow> assignment list \<Rightarrow> action list" where
  "full_set_actions reg now gone fresh sent =
     [Act_swap (fst (accept_set reg sent)) (snd (accept_set reg sent))] @
     map Act_drop gone @ map (\<lambda>(key, a). Act_push (first_task now key a)) fresh"

record delta =
  dl_added :: "assignment list"
  dl_updated :: "assignment list"
  dl_removed :: "bytes list"

definition added_actions :: "registry \<Rightarrow> instant \<Rightarrow> assignment \<Rightarrow> action list" where
  "added_actions reg now a =
     (case validate reg a of
        Some r \<Rightarrow> [Act_reject r]
      | None \<Rightarrow> [Act_set (assignment_key a) a, Act_push (first_task now (assignment_key a) a)])"

definition updated_actions :: "registry \<Rightarrow> instant \<Rightarrow> assignment \<Rightarrow> action list" where
  "updated_actions reg now a =
     (let key = assignment_key a in
      case validate reg a of
        Some r \<Rightarrow> [Act_remove key, Act_drop key, Act_reject r]
      | None \<Rightarrow> [Act_set key a, Act_drop key, Act_push (first_task now key a)])"

definition removed_actions :: "bytes \<Rightarrow> action list" where
  "removed_actions i = (let key = id_string (copy_id i) in [Act_remove key, Act_drop key])"

definition delta_actions :: "registry \<Rightarrow> instant \<Rightarrow> delta \<Rightarrow> action list" where
  "delta_actions reg now d =
     concat (map (added_actions reg now) (dl_added d)) @
     concat (map (updated_actions reg now) (dl_updated d)) @
     concat (map removed_actions (dl_removed d))"

fun perform :: "action \<Rightarrow> session \<Rightarrow> session" where
  "perform (Act_swap m rs) s = s \<lparr> ss_assignments := m, ss_rejections := ss_rejections s @ rs \<rparr>"
| "perform (Act_set key a) s = s \<lparr> ss_assignments := AList.update key a (ss_assignments s) \<rparr>"
| "perform (Act_remove key) s = s
     \<lparr> ss_assignments := AList.delete key (ss_assignments s),
       ss_last_outcome := (ss_last_outcome s)(key := None),
       ss_last_seen := (ss_last_seen s)(key := None) \<rparr>"
| "perform (Act_drop key) s = s \<lparr> ss_queue := sched_drop key (ss_queue s) \<rparr>"
| "perform (Act_push t) s = s \<lparr> ss_queue := sched_push (ss_queue s) t \<rparr>"
| "perform (Act_reject r) s = s \<lparr> ss_rejections := ss_rejections s @ [r] \<rparr>"

definition take_rejections :: "session \<Rightarrow> rejection list \<times> session" where
  "take_rejections s = (ss_rejections s, s \<lparr> ss_rejections := [] \<rparr>)"

section \<open>Reporting a check\<close>

definition observation_interval :: duration where "observation_interval = hour"

definition should_report :: "string \<Rightarrow> observation \<Rightarrow> instant \<Rightarrow> session \<Rightarrow> bool \<times> session" where
  "should_report key obs t s =
     (case observation_key obs of
        None \<Rightarrow> (False, s)
      | Some mark \<Rightarrow>
          if (case ss_last_seen s key of
                Some (k, sent) \<Rightarrow> k = mark \<and> time_sub t sent < observation_interval
              | None \<Rightarrow> False)
          then (False, s)
          else (True, s \<lparr> ss_last_seen := (ss_last_seen s)(key \<mapsto> (mark, t)) \<rparr>))"

definition response_ms :: "duration option \<Rightarrow> rat" where
  "response_ms d = (case d of None \<Rightarrow> 0 | Some x \<Rightarrow> float_div (float_of_int (go_div x 1000)) 1000)"

text \<open>The id of the result is drawn by the caller; the action is one step here.\<close>

definition build_result ::
  "bytes \<Rightarrow> assignment \<Rightarrow> task \<Rightarrow> observation \<Rightarrow> instant \<Rightarrow> session \<Rightarrow> presult \<times> session" where
  "build_result result_id a t obs started s =
     (let key = assignment_key a;
          oc = to_outcome (obs_status obs);
          previous = (case ss_last_outcome s key of None \<Rightarrow> OUTCOME_UNSPECIFIED | Some x \<Rightarrow> x);
          s1 = s \<lparr> ss_last_outcome := (ss_last_outcome s)(key \<mapsto> oc) \<rparr>;
          (report, s2) = should_report key obs started s1
      in (\<lparr> pr_result = \<lparr> res_id = result_id, res_monitor = as_monitor a, res_micros = unix_micro started,
               res_outcome = oc, res_ms = response_ms (obs_response obs), res_code = obs_code obs,
               res_message = obs_message obs, res_attempt = int (t_attempt t),
               res_cert = (if report then map_option certificate_seen (obs_cert obs) else None),
               res_domain = (if report then map_option registration_seen (obs_domain obs) else None) \<rparr>,
             pr_changed = (previous \<noteq> oc), pr_class = to_error_class (obs_class obs) \<rparr>, s2))"

definition emit :: "bytes \<Rightarrow> assignment \<Rightarrow> task \<Rightarrow> observation \<Rightarrow> instant \<Rightarrow> session \<Rightarrow> session" where
  "emit result_id a t obs started s =
     (case build_result result_id a t obs started s of
        (r, s') \<Rightarrow> s' \<lparr> ss_buffer := add (ss_buffer s') r \<rparr>)"

text \<open>When to look again: soon after a failure with attempts left, otherwise at the next instant of the phase.\<close>

definition next_task :: "instant \<Rightarrow> assignment \<Rightarrow> task \<Rightarrow> status \<Rightarrow> task" where
  "next_task now a t st =
     (let key = assignment_key a in
      if st = StatusDown \<and> t_attempt t \<le> as_retries a
      then let wait = int (as_retry_interval a) * second;
               wait' = (if wait \<le> 0 then interval a else wait)
           in \<lparr> t_monitor = key, t_due = now + wait', t_attempt = (t_attempt t + 1) mod 2 ^ 32 \<rparr>
      else let due = t_due t + interval a
           in \<lparr> t_monitor = key, t_due = (if due < now then first_due key (interval a) now else due), t_attempt = 1 \<rparr>)"

definition reschedule :: "instant \<Rightarrow> assignment \<Rightarrow> task \<Rightarrow> status \<Rightarrow> session \<Rightarrow> session" where
  "reschedule now a t st s = s \<lparr> ss_queue := sched_push (ss_queue s) (next_task now a t st) \<rparr>"

section \<open>The loop\<close>

definition loop_pop :: "instant \<Rightarrow> session \<Rightarrow> session" where
  "loop_pop now s =
     (case sched_pop now (ss_queue s) of
        (Ready t, q) \<Rightarrow> s \<lparr> ss_queue := q, ss_hand := Popped t now \<rparr>
      | (Wait d, q) \<Rightarrow> s)"

definition lateness_budget :: rat where "lateness_budget = 1 / 2"

definition too_late :: "assignment \<Rightarrow> duration \<Rightarrow> bool" where
  "too_late a lateness = (float_to_int (float_mul (float_of_int (interval a)) lateness_budget) < lateness)"

definition shed_observation :: "duration \<Rightarrow> observation" where
  "shed_observation lateness =
     \<lparr> obs_status = StatusSkipped, obs_response = None, obs_code = '''', obs_class = ClassNone,
       obs_message = ''shed under load: '' @ duration_ms_string (round_ms lateness) @ '' past due'',
       obs_cert = None, obs_domain = None \<rparr>"

definition shed :: "bytes \<Rightarrow> instant \<Rightarrow> assignment \<Rightarrow> task \<Rightarrow> duration \<Rightarrow> session \<Rightarrow> session" where
  "shed result_id clock a t lateness s =
     emit result_id a t (shed_observation lateness) clock
       (s \<lparr> ss_skipped := ss_skipped s + 1, ss_hand := Shedding a t \<rparr>)"

text \<open>A task taken: nothing if its monitor is gone, shed if late or if every worker is busy, else started.\<close>

definition loop_decide :: "bytes \<Rightarrow> instant \<Rightarrow> session \<Rightarrow> session" where
  "loop_decide result_id clock s =
     (case ss_hand s of
        Popped t now \<Rightarrow>
          (case assigned s (t_monitor t) of
             None \<Rightarrow> s \<lparr> ss_hand := Idle \<rparr>
           | Some a \<Rightarrow>
               let lateness = time_sub now (t_due t) in
               if too_late a lateness \<or> ss_max_concurrent s \<le> length (ss_flights s)
               then shed result_id clock a t lateness s
               else s \<lparr> ss_hand := Idle, ss_started := ss_started s + 1,
                        ss_flights := ss_flights s @ [\<lparr> fl_assignment = a, fl_task = t, fl_reported = None \<rparr>] \<rparr>)
      | _ \<Rightarrow> s)"

definition loop_reschedule :: "instant \<Rightarrow> session \<Rightarrow> session" where
  "loop_reschedule now s =
     (case ss_hand s of
        Shedding a t \<Rightarrow> reschedule now a t StatusSkipped (s \<lparr> ss_hand := Idle \<rparr>)
      | _ \<Rightarrow> s)"

section \<open>A check in flight\<close>

definition invert :: "observation \<Rightarrow> observation" where
  "invert obs =
     (case obs_status obs of
        StatusUp \<Rightarrow> obs \<lparr> obs_status := StatusDown, obs_message := ''check succeeded, but the monitor is upside down'' \<rparr>
      | StatusDown \<Rightarrow> obs \<lparr> obs_status := StatusUp, obs_message := '''' \<rparr>
      | _ \<Rightarrow> obs)"

definition no_checker :: "string \<Rightarrow> observation" where
  "no_checker type =
     \<lparr> obs_status = StatusUnknown, obs_response = None, obs_code = '''', obs_class = ClassCapability,
       obs_message = ''no checker for type '' @ type, obs_cert = None, obs_domain = None \<rparr>"

text \<open>What a check reports, from what its checker saw.\<close>

definition verdict :: "registry \<Rightarrow> assignment \<Rightarrow> observation \<Rightarrow> observation" where
  "verdict reg a seen =
     (case reg (as_type a) of
        None \<Rightarrow> no_checker (as_type a)
      | Some _ \<Rightarrow> if as_upside_down a then invert seen else seen)"

definition flight_report :: "registry \<Rightarrow> bytes \<Rightarrow> nat \<Rightarrow> observation \<Rightarrow> instant \<Rightarrow> session \<Rightarrow> session" where
  "flight_report reg result_id i seen started s =
     (let f = ss_flights s ! i; obs = verdict reg (fl_assignment f) seen in
      if i < length (ss_flights s) \<and> fl_reported f = None
      then emit result_id (fl_assignment f) (fl_task f) obs started
             (s \<lparr> ss_flights := (ss_flights s)[i := f \<lparr> fl_reported := Some (obs_status obs) \<rparr>] \<rparr>)
      else s)"

definition flight_reschedule :: "nat \<Rightarrow> instant \<Rightarrow> session \<Rightarrow> session" where
  "flight_reschedule i now s =
     (if i < length (ss_flights s)
      then case fl_reported (ss_flights s ! i) of
             None \<Rightarrow> s
           | Some st \<Rightarrow>
               reschedule now (fl_assignment (ss_flights s ! i)) (fl_task (ss_flights s ! i)) st
                 (s \<lparr> ss_flights := take i (ss_flights s) @ drop (Suc i) (ss_flights s),
                      ss_completed := ss_completed s + 1 \<rparr>)
      else s)"

section \<open>The result stream\<close>

definition buffer_step :: "(buffer \<Rightarrow> buffer) \<Rightarrow> session \<Rightarrow> session" where
  "buffer_step f s = s \<lparr> ss_buffer := f (ss_buffer s) \<rparr>"

section \<open>Every interleaving\<close>

inductive session_step :: "registry \<Rightarrow> session \<Rightarrow> session \<Rightarrow> bool" for reg where
  recv_set: "ss_watch s = [] \<Longrightarrow> mset gone = mset (map fst (ss_assignments s)) \<Longrightarrow> mset fresh = mset (fst (accept_set reg sent)) \<Longrightarrow>
    session_step reg s (s \<lparr> ss_watch := full_set_actions reg now gone fresh sent \<rparr>)"
| recv_delta: "ss_watch s = [] \<Longrightarrow> session_step reg s (s \<lparr> ss_watch := delta_actions reg now d \<rparr>)"
| watch: "ss_watch s = act # acts \<Longrightarrow> session_step reg s (perform act (s \<lparr> ss_watch := acts \<rparr>))"
| pop: "ss_hand s = Idle \<Longrightarrow> session_step reg s (loop_pop now s)"
| decide: "session_step reg s (loop_decide result_id clock s)"
| after_shed: "session_step reg s (loop_reschedule now s)"
| report: "session_step reg s (flight_report reg result_id i seen started s)"
| after_check: "session_step reg s (flight_reschedule i now s)"
| stream_next: "session_step reg s (buffer_step (\<lambda>b. snd (next_batch b n)) s)"
| stream_ack: "session_step reg s (buffer_step (\<lambda>b. ack b through) s)"
| stream_reopen: "session_step reg s (buffer_step rewind s)"
| stream_rejections: "session_step reg s (snd (take_rejections s))"

inductive session_reachable :: "registry \<Rightarrow> session \<Rightarrow> bool" for reg where
  start: "session_reachable reg (new_session n)"
| step: "session_reachable reg s \<Longrightarrow> session_step reg s s' \<Longrightarrow> session_reachable reg s'"

end
