(* ===== verification/ProbeSessionFacts.thy ===== *)
theory ProbeSessionFacts
  imports ProbeSession
begin

text \<open>
  What holds of a probe session however its update handler, its loop and its checks interleave:
  every assigned monitor stays scheduled, and how many times.
\<close>

section \<open>How often a monitor is scheduled\<close>

definition queued :: "string \<Rightarrow> task list \<Rightarrow> nat" where
  "queued key q = size (filter_mset (\<lambda>t. t_monitor t = key) (mset q))"

fun in_hand :: "string \<Rightarrow> loop_hand \<Rightarrow> nat" where
  "in_hand key Idle = 0"
| "in_hand key (Popped t now) = (if t_monitor t = key then 1 else 0)"
| "in_hand key (Shedding a t) = (if assignment_key a = key then 1 else 0)"

definition in_flight :: "string \<Rightarrow> session \<Rightarrow> nat" where
  "in_flight key s = in_hand key (ss_hand s) +
     length (filter (\<lambda>f. assignment_key (fl_assignment f) = key) (ss_flights s))"

definition task_count :: "string \<Rightarrow> session \<Rightarrow> nat" where
  "task_count key s = queued key (ss_queue s) + in_flight key s"

lemma queued_push: "heap q \<Longrightarrow> heap (sched_push q t) \<and> queued key (sched_push q t) = queued key q + (if t_monitor t = key then 1 else 0)"
  using sched.push_law[of q t] by (simp add: queued_def)

lemma queued_drop: "heap q \<Longrightarrow> heap (sched_drop key' q) \<and> queued key (sched_drop key' q) = (if key = key' then 0 else queued key q)"
  using sched.drop_law[of q key'] by (auto simp: queued_def filter_filter_mset intro: arg_cong[of _ _ size] filter_mset_cong)

lemma queued_pop: "heap q \<Longrightarrow> sched_pop now q = (Ready t, q') \<Longrightarrow>
    heap q' \<and> queued key q = queued key q' + (if t_monitor t = key then 1 else 0)"
  using sched.pop_ready[of q now t q'] by (simp add: queued_def)

lemma emit_fields [simp]:
  "ss_assignments (emit i a t obs now s) = ss_assignments s" "ss_queue (emit i a t obs now s) = ss_queue s"
  "ss_flights (emit i a t obs now s) = ss_flights s" "ss_hand (emit i a t obs now s) = ss_hand s"
  "ss_watch (emit i a t obs now s) = ss_watch s" "ss_max_concurrent (emit i a t obs now s) = ss_max_concurrent s"
  by (auto simp: emit_def build_result_def should_report_def Let_def split: option.splits prod.splits if_splits)

lemma next_task_monitor [simp]: "t_monitor (next_task now a t st) = assignment_key a"
  by (simp add: next_task_def Let_def)

section \<open>The steps of the loop and of the checks in flight\<close>

definition keyed :: "(string \<times> assignment) list \<Rightarrow> bool" where
  "keyed m = (\<forall>(k, a) \<in> set m. assignment_key a = k)"

inductive worker_step :: "registry \<Rightarrow> session \<Rightarrow> session \<Rightarrow> bool" for reg where
  "ss_hand s = Idle \<Longrightarrow> worker_step reg s (loop_pop now s)"
| "worker_step reg s (loop_decide result_id clock s)"
| "worker_step reg s (loop_reschedule now s)"
| "worker_step reg s (flight_report reg result_id i seen started s)"
| "worker_step reg s (flight_reschedule i now s)"

lemma keyed_assigned: "keyed (ss_assignments s) \<Longrightarrow> assigned s k = Some a \<Longrightarrow> assignment_key a = k"
  unfolding keyed_def assigned_def using map_of_SomeD by fastforce

lemma loop_pop_keeps:
  assumes "heap (ss_queue s)" "ss_hand s = Idle"
  shows "heap (ss_queue (loop_pop now s)) \<and> task_count k (loop_pop now s) = task_count k s"
proof (cases "sched_pop now (ss_queue s)")
  case (Pair r q)
  show ?thesis
  proof (cases r)
    case (Ready t)
    with Pair queued_pop[OF assms(1), of now t q k] assms(2) show ?thesis
      by (simp add: loop_pop_def task_count_def in_flight_def)
  qed (use Pair assms in \<open>simp add: loop_pop_def\<close>)
qed

lemma loop_decide_keeps:
  assumes "heap (ss_queue s)" "keyed (ss_assignments s)"
  shows "heap (ss_queue (loop_decide i clock s)) \<and>
    (assigned s k \<noteq> None \<longrightarrow> task_count k (loop_decide i clock s) = task_count k s)"
proof (cases "ss_hand s")
  case (Popped t now)
  show ?thesis
  proof (cases "assigned s (t_monitor t)")
    case (Some a)
    with keyed_assigned[OF assms(2)] have "assignment_key a = t_monitor t" by blast
    with Popped Some assms show ?thesis
      by (simp add: loop_decide_def shed_def Let_def task_count_def in_flight_def)
  qed (use Popped assms in \<open>auto simp: loop_decide_def task_count_def in_flight_def\<close>)
qed (use assms in \<open>simp_all add: loop_decide_def\<close>)

lemma loop_reschedule_keeps:
  assumes "heap (ss_queue s)"
  shows "heap (ss_queue (loop_reschedule now s)) \<and> task_count k (loop_reschedule now s) = task_count k s"
  using queued_push[OF assms]
  by (cases "ss_hand s") (simp_all add: loop_reschedule_def reschedule_def task_count_def in_flight_def assms)

lemma filter_same_key: "i < length fs \<Longrightarrow> p f = p (fs ! i) \<Longrightarrow> length (filter p (fs[i := f])) = length (filter p fs)"
  by (induction fs arbitrary: i) (auto split: nat.splits)

lemma flight_report_keeps:
  "heap (ss_queue s) \<Longrightarrow> heap (ss_queue (flight_report reg rid i seen started s)) \<and>
     task_count k (flight_report reg rid i seen started s) = task_count k s"
  by (simp add: flight_report_def Let_def task_count_def in_flight_def filter_same_key)

lemma filter_without: "i < length fs \<Longrightarrow>
    length (filter p fs) = length (filter p (take i fs @ drop (Suc i) fs)) + (if p (fs ! i) then 1 else 0)"
  by (subst id_take_nth_drop[of i fs]) simp_all

lemma flight_reschedule_keeps:
  assumes "heap (ss_queue s)"
  shows "heap (ss_queue (flight_reschedule i now s)) \<and> task_count k (flight_reschedule i now s) = task_count k s"
  using queued_push[OF assms] filter_without[of i "ss_flights s" "\<lambda>f. assignment_key (fl_assignment f) = k"]
  by (auto simp: flight_reschedule_def reschedule_def task_count_def in_flight_def assms split: option.splits)

lemma worker_fields:
  "ss_assignments (loop_pop now s) = ss_assignments s" "ss_watch (loop_pop now s) = ss_watch s"
  "ss_assignments (loop_decide rid clock s) = ss_assignments s" "ss_watch (loop_decide rid clock s) = ss_watch s"
  "ss_assignments (loop_reschedule now s) = ss_assignments s" "ss_watch (loop_reschedule now s) = ss_watch s"
  "ss_assignments (flight_report reg rid i seen started s) = ss_assignments s"
  "ss_watch (flight_report reg rid i seen started s) = ss_watch s"
  "ss_assignments (flight_reschedule i now s) = ss_assignments s" "ss_watch (flight_reschedule i now s) = ss_watch s"
  by (auto simp: loop_pop_def loop_decide_def shed_def loop_reschedule_def flight_report_def flight_reschedule_def
      reschedule_def Let_def split: prod.splits popped.splits loop_hand.splits option.splits)

lemma worker_step_keeps:
  assumes "worker_step reg s s'" "heap (ss_queue s)" "keyed (ss_assignments s)"
  shows "heap (ss_queue s') \<and> ss_assignments s' = ss_assignments s \<and> ss_watch s' = ss_watch s \<and>
    (assigned s k \<noteq> None \<longrightarrow> task_count k s' = task_count k s)"
  using assms(1)
  by cases (simp_all add: worker_fields loop_pop_keeps loop_decide_keeps loop_reschedule_keeps flight_report_keeps
      flight_reschedule_keeps assms(2,3))

section \<open>Updates settle\<close>

text \<open>
  Whether, once the remaining actions of an update are done, a monitor that is then assigned has a
  task. A drop is taken to remove every task, and one that an unassigned monitor still has
  counts for nothing: both only make the demand harder.
\<close>

fun settles :: "string \<Rightarrow> action list \<Rightarrow> bool \<Rightarrow> bool \<Rightarrow> bool" where
  "settles k [] asg has = (asg \<longrightarrow> has)"
| "settles k (Act_swap m rs # acts) asg has = settles k acts (k \<in> fst ` set m) (has \<and> k \<in> fst ` set m)"
| "settles k (Act_set key a # acts) asg has = settles k acts (asg \<or> k = key) has"
| "settles k (Act_remove key # acts) asg has = settles k acts (asg \<and> k \<noteq> key) (has \<and> k \<noteq> key)"
| "settles k (Act_drop key # acts) asg has = settles k acts asg (has \<and> k \<noteq> key)"
| "settles k (Act_push t # acts) asg has = settles k acts asg (has \<or> (asg \<and> k = t_monitor t))"
| "settles k (Act_reject r # acts) asg has = settles k acts asg has"

lemma settles_mono: "settles k acts asg has \<Longrightarrow> (has \<longrightarrow> has') \<Longrightarrow> settles k acts asg has'"
  by (induction k acts asg has arbitrary: has' rule: settles.induct) (auto 0 3)

fun keyed_action :: "action \<Rightarrow> bool" where
  "keyed_action (Act_swap m rs) = keyed m"
| "keyed_action (Act_set key a) = (assignment_key a = key)"
| "keyed_action _ = True"

definition session_ok :: "session \<Rightarrow> bool" where
  "session_ok s =
     (heap (ss_queue s) \<and> keyed (ss_assignments s) \<and> (\<forall>act \<in> set (ss_watch s). keyed_action act) \<and>
      (\<forall>k. settles k (ss_watch s) (assigned s k \<noteq> None) (assigned s k \<noteq> None \<and> 0 < task_count k s)))"

lemma session_okI:
  assumes "heap (ss_queue s)" "keyed (ss_assignments s)" "\<And>act. act \<in> set (ss_watch s) \<Longrightarrow> keyed_action act"
    "\<And>k. settles k (ss_watch s) (assigned s k \<noteq> None) (assigned s k \<noteq> None \<and> 0 < task_count k s)"
  shows "session_ok s"
  using assms by (simp add: session_ok_def)

lemma keyed_update: "keyed m \<Longrightarrow> assignment_key a = key \<Longrightarrow> keyed (AList.update key a m)"
  by (induction m) (auto simp: keyed_def)

lemma keyed_delete: "keyed m \<Longrightarrow> keyed (AList.delete key m)"
  unfolding keyed_def AList.delete_eq by auto

lemma perform_ok:
  assumes "session_ok s" "ss_watch s = act # acts"
  shows "session_ok (perform act (s \<lparr> ss_watch := acts \<rparr>))"
proof -
  let ?s = "perform act (s \<lparr> ss_watch := acts \<rparr>)"
  have h: "heap (ss_queue s)" and ka: "keyed (ss_assignments s)" and kw: "keyed_action act" "\<forall>x \<in> set acts. keyed_action x"
    and st: "settles k (act # acts) (assigned s k \<noteq> None) (assigned s k \<noteq> None \<and> 0 < task_count k s)" for k
    using assms by (simp_all add: session_ok_def)
  have w: "ss_watch ?s = acts" "ss_flights ?s = ss_flights s" "ss_hand ?s = ss_hand s" by (cases act; simp)+
  have "heap (ss_queue ?s)" using h queued_push[OF h] queued_drop[OF h] by (cases act) simp_all
  moreover have "keyed (ss_assignments ?s)"
    using ka kw(1) by (cases act) (auto simp: keyed_update keyed_delete)
  moreover have "settles k acts (assigned ?s k \<noteq> None) (assigned ?s k \<noteq> None \<and> 0 < task_count k ?s)" for k
  proof (cases act)
    case (Act_swap m rs)
    show ?thesis
    proof (cases "k \<in> fst ` set m")
      case True
      then have "assigned ?s k \<noteq> None" using Act_swap by (simp add: assigned_def map_of_eq_None_iff)
      with st[of k] Act_swap True show ?thesis by (auto simp: task_count_def in_flight_def elim: settles_mono)
    next
      case False
      then have "assigned ?s k = None" using Act_swap by (simp add: assigned_def map_of_eq_None_iff)
      with st[of k] Act_swap False show ?thesis by auto
    qed
  next
    case (Act_set key a)
    with st[of k] show ?thesis by (auto simp: assigned_def update_conv' task_count_def in_flight_def elim: settles_mono)
  next
    case (Act_remove key)
    with st[of k] show ?thesis by (auto simp: assigned_def delete_conv' task_count_def in_flight_def elim: settles_mono)
  next
    case (Act_drop key)
    with st[of k] queued_drop[OF h, of key k] show ?thesis
      by (auto simp: assigned_def task_count_def in_flight_def elim: settles_mono)
  next
    case (Act_push t)
    with st[of k] queued_push[OF h, of t k] show ?thesis
      by (auto simp: assigned_def task_count_def in_flight_def elim: settles_mono)
  next
    case (Act_reject r)
    with st[of k] show ?thesis by (auto simp: assigned_def task_count_def in_flight_def elim: settles_mono)
  qed
  ultimately show ?thesis using kw(2) by (intro session_okI) (simp_all add: w)
qed

text \<open>What a full set does settles, whatever was assigned before.\<close>

lemma settles_drops: "settles k (map Act_drop gone @ acts) asg has = settles k acts asg (has \<and> k \<notin> set gone)"
  by (induction gone arbitrary: has) (simp_all add: conj_ac)

lemma settles_pushes:
  "(asg \<longrightarrow> has \<or> k \<in> fst ` set fresh) \<Longrightarrow> settles k (map (\<lambda>(key, a). Act_push (first_task now key a)) fresh) asg has"
proof (induction fresh arbitrary: has)
  case (Cons p fresh)
  then have "settles k (map (\<lambda>(key, a). Act_push (first_task now key a)) fresh) asg (has \<or> (asg \<and> k = fst p))"
    by (intro Cons.IH) auto
  then show ?case by (cases p) (simp add: first_task_def)
qed simp

lemma full_set_settles:
  assumes "mset fresh = mset (fst (accept_set reg sent))"
  shows "settles k (full_set_actions reg now gone fresh sent) asg has"
  using assms by (auto simp: full_set_actions_def settles_drops dest!: mset_eq_setD intro!: settles_pushes)

text \<open>Every part of a delta keeps a scheduled monitor scheduled.\<close>

lemma added_settles: "settles k acts True True \<Longrightarrow> settles k acts asg asg \<Longrightarrow> settles k (added_actions reg now a @ acts) asg asg"
  by (cases "k = assignment_key a") (auto simp: added_actions_def first_task_def split: option.splits)

lemma updated_settles:
  "settles k acts True True \<Longrightarrow> settles k acts False False \<Longrightarrow> settles k (updated_actions reg now a @ acts) asg asg"
  by (cases "k = assignment_key a"; cases asg) (auto simp: updated_actions_def first_task_def Let_def split: option.splits)

lemma removed_settles:
  "settles k acts True True \<Longrightarrow> settles k acts False False \<Longrightarrow> settles k (removed_actions i @ acts) asg asg"
  by (cases "k = id_string (copy_id i)"; cases asg) (auto simp: removed_actions_def Let_def)

lemma concat_settles:
  assumes "\<And>x acts asg. (\<And>b. settles k acts b b) \<Longrightarrow> settles k (f x @ acts) asg asg" "\<And>b. settles k acts b b"
  shows "settles k (concat (map f xs) @ acts) b b"
  using assms by (induction xs arbitrary: b) simp_all

lemma delta_settles: "settles k (delta_actions reg now d) asg asg"
proof -
  have r: "settles k (concat (map removed_actions (dl_removed d)) @ []) b b" for b
    by (rule concat_settles) (simp_all add: removed_settles)
  have u: "settles k (concat (map (updated_actions reg now) (dl_updated d)) @ concat (map removed_actions (dl_removed d))) b b" for b
    by (rule concat_settles) (use r in \<open>simp_all add: updated_settles\<close>)
  show ?thesis unfolding delta_actions_def by (rule concat_settles) (simp_all add: added_settles u)
qed

lemma keyed_accepted: "keyed (fst (accept_set reg sent))"
proof -
  have "keyed m \<Longrightarrow> keyed (fold (\<lambda>a m. AList.update (assignment_key a) a m) as m)" for as m
    by (induction as arbitrary: m) (simp_all add: keyed_update)
  from this[of "[]"] show ?thesis by (simp add: accept_set_def keyed_def)
qed

lemma actions_keyed:
  "act \<in> set (full_set_actions reg now gone fresh sent) \<Longrightarrow> keyed_action act"
  "act \<in> set (delta_actions reg now d) \<Longrightarrow> keyed_action act"
  by (auto simp: full_set_actions_def keyed_accepted delta_actions_def added_actions_def updated_actions_def
      removed_actions_def Let_def split: option.splits if_splits)

lemma worker_ok:
  assumes "session_ok s" "worker_step reg s s'"
  shows "session_ok s'"
proof -
  have k: "heap (ss_queue s') \<and> ss_assignments s' = ss_assignments s \<and> ss_watch s' = ss_watch s \<and>
      (assigned s k \<noteq> None \<longrightarrow> task_count k s' = task_count k s)" for k
    using worker_step_keeps[OF assms(2), of k] assms(1) by (simp add: session_ok_def)
  have a: "assigned s' k = assigned s k" for k using k by (simp add: assigned_def)
  have st: "settles k (ss_watch s) (assigned s k \<noteq> None) (assigned s k \<noteq> None \<and> 0 < task_count k s)" for k
    using assms(1) unfolding session_ok_def by blast
  have "settles k (ss_watch s') (assigned s' k \<noteq> None) (assigned s' k \<noteq> None \<and> 0 < task_count k s')" for k
    using st[of k] k[of k] unfolding a by (cases "assigned s k = None") simp_all
  with k assms(1) show ?thesis by (intro session_okI) (simp_all add: session_ok_def)
qed

lemma session_step_ok:
  assumes "session_step reg s s'" "session_ok s"
  shows "session_ok s'"
  using assms(1)
proof cases
  case (recv_set gone fresh sent now)
  with assms(2) show ?thesis
    by (intro session_okI) (simp_all add: session_ok_def full_set_settles actions_keyed)
next
  case (recv_delta now d)
  have "settles k (delta_actions reg now d) (assigned s k \<noteq> None) (assigned s k \<noteq> None \<and> 0 < task_count k s)" for k
    using assms(2) recv_delta(2) delta_settles[of k reg now d "assigned s k \<noteq> None"]
    by (auto simp: session_ok_def elim!: settles_mono)
  with recv_delta assms(2) show ?thesis
    by (intro session_okI) (simp_all add: session_ok_def assigned_def task_count_def in_flight_def actions_keyed)
next
  case (watch act acts)
  with perform_ok[OF assms(2)] show ?thesis by simp
next
  case (pop now)
  then show ?thesis by (intro worker_ok[OF assms(2), of reg]) (simp_all add: worker_step.intros)
next
  case (decide rid clock)
  then show ?thesis by (intro worker_ok[OF assms(2), of reg]) (simp_all add: worker_step.intros)
next
  case (after_shed now)
  then show ?thesis by (intro worker_ok[OF assms(2), of reg]) (simp_all add: worker_step.intros)
next
  case (report rid i seen started)
  then show ?thesis by (intro worker_ok[OF assms(2), of reg]) (simp_all add: worker_step.intros)
next
  case (after_check i now)
  then show ?thesis by (intro worker_ok[OF assms(2), of reg]) (simp_all add: worker_step.intros)
qed (use assms(2) in \<open>simp_all add: buffer_step_def take_rejections_def session_ok_def assigned_def task_count_def in_flight_def\<close>)

lemma reachable_ok: "session_reachable reg s \<Longrightarrow> session_ok s"
proof (induction rule: session_reachable.induct)
  case (start n)
  show ?case by (simp add: session_ok_def new_session_def heap_def heap_from_def keyed_def assigned_def)
qed (rule session_step_ok)

section \<open>Every assigned monitor is scheduled\<close>

text \<open>C9: However updates, the loop and the checks in flight interleave: when no update is half applied,
  every assigned monitor has a task, queued, in the loop's hand, or in flight and about to be
  rescheduled. No monitor is ever silently left unchecked.\<close>

theorem assigned_is_scheduled:
  assumes "session_reachable reg s" "ss_watch s = []" "assigned s key = Some a"
  shows "0 < task_count key s"
proof -
  have "settles key [] (assigned s key \<noteq> None) (assigned s key \<noteq> None \<and> 0 < task_count key s)"
    using reachable_ok[OF assms(1)] assms(2) unfolding session_ok_def by metis
  with assms(3) show ?thesis by simp
qed

text \<open>An update applied with nothing in between.\<close>

definition drain :: "session \<Rightarrow> session" where
  "drain s = fold perform (ss_watch s) (s \<lparr> ss_watch := [] \<rparr>)"

lemma perform_watch: "(perform act s) \<lparr> ss_watch := w \<rparr> = perform act (s \<lparr> ss_watch := w \<rparr>)"
  by (cases act) simp_all

lemma drain_reachable: "session_reachable reg s \<Longrightarrow> session_reachable reg (drain s)"
proof (induction "ss_watch s" arbitrary: s)
  case Nil
  have "drain s = s" using Nil.hyps by (cases s) (simp add: drain_def)
  with Nil.prems show ?case by simp
next
  case (Cons act acts)
  let ?s = "perform act (s \<lparr> ss_watch := acts \<rparr>)"
  have w: "ss_watch ?s = acts" by (cases act) simp_all
  have "session_reachable reg ?s" using Cons.prems Cons.hyps(2) by (metis session_reachable.step session_step.watch)
  then have "session_reachable reg (drain ?s)" using Cons.hyps(1) w by simp
  moreover have "drain ?s = drain s"
    unfolding drain_def w perform_watch Cons.hyps(2)[symmetric] by simp
  ultimately show ?case by simp
qed

definition accept_all :: registry where "accept_all type = Some (\<lambda>config. None)"

definition assigned_one :: session where
  "assigned_one = drain (new_session 1 \<lparr> ss_watch := full_set_actions accept_all 0 []
     [(assignment_key (sample_assignment 1), sample_assignment 1)] [sample_assignment 1] \<rparr>)"

lemma accept_one: "accept_set accept_all [sample_assignment 1] = ([(assignment_key (sample_assignment 1), sample_assignment 1)], [])"
  by (simp add: accept_set_def validate_def accept_all_def sample_assignment_def Let_def map_filter_def)

lemma assigned_one_reachable: "session_reachable accept_all assigned_one"
  unfolding assigned_one_def
  by (intro drain_reachable session_reachable.step[OF session_reachable.start[of _ 1]] session_step.recv_set)
    (simp_all add: new_session_def accept_one)

lemma assigned_one_fields:
  "ss_watch assigned_one = []" "ss_hand assigned_one = Idle" "ss_flights assigned_one = []"
  "ss_assignments assigned_one = [(assignment_key (sample_assignment 1), sample_assignment 1)]"
  "ss_queue assigned_one = sched_push [] (first_task 0 (assignment_key (sample_assignment 1)) (sample_assignment 1))"
  by (simp_all add: assigned_one_def drain_def full_set_actions_def accept_one new_session_def)

theorem assigned_is_scheduled_witness:
  "0 < task_count (assignment_key (sample_assignment 1)) assigned_one"
  by (rule assigned_is_scheduled[OF assigned_one_reachable, of _ "sample_assignment 1"])
    (simp_all add: assigned_one_fields assigned_def)

section \<open>A monitor in flight is scheduled twice by an update\<close>

lemma drops_counted:
  "heap (ss_queue s) \<Longrightarrow> heap (ss_queue (fold perform (map Act_drop gone) s)) \<and>
     queued k (ss_queue (fold perform (map Act_drop gone) s)) = (if k \<in> set gone then 0 else queued k (ss_queue s)) \<and>
     ss_assignments (fold perform (map Act_drop gone) s) = ss_assignments s \<and>
     in_flight k (fold perform (map Act_drop gone) s) = in_flight k s"
proof (induction gone arbitrary: s)
  case (Cons g gone)
  from Cons.IH[of "perform (Act_drop g) s"] queued_drop[OF Cons.prems, of g k] show ?case
    by (cases "k = g") (simp_all add: in_flight_def)
qed simp

lemma pushes_counted:
  "heap (ss_queue s) \<Longrightarrow> heap (ss_queue (fold perform (map (\<lambda>(key, a). Act_push (first_task now key a)) fresh) s)) \<and>
     queued k (ss_queue (fold perform (map (\<lambda>(key, a). Act_push (first_task now key a)) fresh) s)) =
       queued k (ss_queue s) + length (filter (\<lambda>p. fst p = k) fresh) \<and>
     ss_assignments (fold perform (map (\<lambda>(key, a). Act_push (first_task now key a)) fresh) s) = ss_assignments s \<and>
     in_flight k (fold perform (map (\<lambda>(key, a). Act_push (first_task now key a)) fresh) s) = in_flight k s"
proof (induction fresh arbitrary: s)
  case (Cons p fresh)
  obtain key a where p: "p = (key, a)" by fastforce
  from Cons.IH[of "perform (Act_push (first_task now key a)) s"] queued_push[OF Cons.prems, of "first_task now key a" k]
  show ?case by (simp add: p in_flight_def first_task_def)
qed simp

lemma accepted_distinct: "distinct (map fst (fst (accept_set reg sent)))"
proof -
  have "distinct (map fst m) \<Longrightarrow> distinct (map fst (fold (\<lambda>a m. AList.update (assignment_key a) a m) as m))" for as m
    by (induction as arbitrary: m) (simp_all add: distinct_update)
  from this[of "[]"] show ?thesis by (simp add: accept_set_def)
qed

lemma distinct_key_once: "distinct (map fst m) \<Longrightarrow> k \<in> fst ` set m \<Longrightarrow> length (filter (\<lambda>p. fst p = k) m) = 1"
  by (induction m) (auto simp: filter_empty_conv image_iff)

lemma full_set_counts:
  assumes "session_ok s" "mset fresh = mset (fst (accept_set reg sent))" "key \<in> set gone" "key \<in> fst ` set (fst (accept_set reg sent))"
  shows "task_count key (drain (s \<lparr> ss_watch := full_set_actions reg now gone fresh sent \<rparr>)) = Suc (in_flight key s) \<and>
    assigned (drain (s \<lparr> ss_watch := full_set_actions reg now gone fresh sent \<rparr>)) key \<noteq> None"
proof -
  let ?swap = "perform (Act_swap (fst (accept_set reg sent)) (snd (accept_set reg sent))) (s \<lparr> ss_watch := [] \<rparr>)"
  let ?dropped = "fold perform (map Act_drop gone) ?swap"
  have h: "heap (ss_queue ?swap)" using assms(1) by (simp add: session_ok_def)
  note d = drops_counted[OF h, of gone key]
  note p = pushes_counted[OF conjunct1[OF d], of now fresh key]
  have "length (filter (\<lambda>p. fst p = key) fresh) = size (filter_mset (\<lambda>p. fst p = key) (mset fresh))" by (metis mset_filter size_mset)
  also have "\<dots> = length (filter (\<lambda>p. fst p = key) (fst (accept_set reg sent)))" unfolding assms(2) by (metis mset_filter size_mset)
  also have "\<dots> = 1" by (rule distinct_key_once[OF accepted_distinct assms(4)])
  finally have one: "length (filter (\<lambda>p. fst p = key) fresh) = 1" .
  show ?thesis
    using p d one assms(3,4)
    by (simp add: drain_def full_set_actions_def task_count_def in_flight_def assigned_def map_of_eq_None_iff)
qed

lemma workers_keep_count:
  assumes "(worker_step reg)\<^sup>*\<^sup>* s s'" "heap (ss_queue s)" "keyed (ss_assignments s)" "assigned s k \<noteq> None"
  shows "task_count k s' = task_count k s"
proof -
  have "heap (ss_queue s') \<and> ss_assignments s' = ss_assignments s \<and> task_count k s' = task_count k s"
    using assms(1)
  proof (induction rule: rtranclp_induct)
    case (step y z)
    from worker_step_keeps[OF step(2), of k] step(3) assms show ?case by (simp add: assigned_def)
  qed (use assms in simp)
  then show ?thesis by simp
qed

text \<open>C36: Applying a full set while a monitor's check is in flight leaves it scheduled twice: the set drops
  what is queued and queues the monitor again, and the check in flight, once done, queues it too.
  No step of the loop or of the checks ever lowers the count, so the monitor is checked twice an
  interval from then on, at the same instants of its phase, and once more with every reconnect
  that finds it in flight.\<close>

theorem reconnect_doubles_a_monitor:
  assumes "session_reachable reg s" "mset gone = mset (map fst (ss_assignments s))"
    and "mset fresh = mset (fst (accept_set reg sent))" "assigned s key = Some a"
    and "key \<in> fst ` set (fst (accept_set reg sent))"
    and "(worker_step reg)\<^sup>*\<^sup>* (drain (s \<lparr> ss_watch := full_set_actions reg now gone fresh sent \<rparr>)) s'"
  shows "task_count key s' = Suc (in_flight key s)"
proof -
  let ?s = "drain (s \<lparr> ss_watch := full_set_actions reg now gone fresh sent \<rparr>)"
  have ok: "session_ok s" by (rule reachable_ok[OF assms(1)])
  have "key \<in> fst ` set (ss_assignments s)"
    using assms(4) unfolding assigned_def by (metis fst_conv image_eqI map_of_SomeD)
  then have g: "key \<in> set gone" using mset_eq_setD[OF assms(2)] by simp
  note c = full_set_counts[OF ok assms(3) g assms(5), of now]
  have "heap (ss_queue ?s) \<and> keyed (ss_assignments ?s)"
  proof -
    let ?swap = "perform (Act_swap (fst (accept_set reg sent)) (snd (accept_set reg sent))) (s \<lparr> ss_watch := [] \<rparr>)"
    have h: "heap (ss_queue ?swap)" using ok by (simp add: session_ok_def)
    note d = drops_counted[OF h, of gone key]
    show ?thesis
      using pushes_counted[OF conjunct1[OF d], of now fresh key] d
      by (simp add: drain_def full_set_actions_def keyed_accepted)
  qed
  with workers_keep_count[OF assms(6)] c show ?thesis by simp
qed

definition one_key :: string where "one_key = assignment_key (sample_assignment 1)"

lemma single_push [simp]: "sched_push [] t = [t]"
  by (simp add: sched_push_def heap_push_def sift_up.simps)

definition one_popped :: session where
  "one_popped = loop_pop (first_due one_key (60 * second) 0) assigned_one"

lemma one_popped_fields:
  "ss_assignments one_popped = [(one_key, sample_assignment 1)]" "in_flight one_key one_popped = 1"
  by (simp_all add: one_popped_def loop_pop_def assigned_one_fields sched_pop_def first_task_def heap_pop_def
      swap_at_def sift_down.simps in_flight_def one_key_def interval_def sample_assignment_def Let_def)

theorem reconnect_doubles_a_monitor_witness:
  "task_count one_key (drain (one_popped \<lparr> ss_watch :=
     full_set_actions accept_all 0 [one_key] [(one_key, sample_assignment 1)] [sample_assignment 1] \<rparr>)) = 2"
proof -
  have "session_reachable accept_all one_popped"
    unfolding one_popped_def
    by (intro session_reachable.step[OF assigned_one_reachable] session_step.pop) (simp add: assigned_one_fields)
  from reconnect_doubles_a_monitor[OF this, of "[one_key]" "[(one_key, sample_assignment 1)]" "[sample_assignment 1]" one_key
      "sample_assignment 1" 0 "drain (one_popped \<lparr> ss_watch :=
        full_set_actions accept_all 0 [one_key] [(one_key, sample_assignment 1)] [sample_assignment 1] \<rparr>)"]
  show ?thesis by (simp add: one_popped_fields accept_one[folded one_key_def] assigned_def)
qed

section \<open>The flagged results tell the history of outcomes\<close>

record report =
  rp_id :: bytes
  rp_assignment :: assignment
  rp_task :: task
  rp_observation :: observation
  rp_time :: instant

definition build_report :: "report \<Rightarrow> session \<Rightarrow> presult \<times> session" where
  "build_report r s = build_result (rp_id r) (rp_assignment r) (rp_task r) (rp_observation r) (rp_time r) s"

text \<open>The results of a sequence of reports, as they are emitted.\<close>

fun emitted :: "report list \<Rightarrow> session \<Rightarrow> presult list" where
  "emitted [] s = []"
| "emitted (r # rs) s = (case build_report r s of (x, s') \<Rightarrow> x # emitted rs s')"

definition outcomes_of :: "string \<Rightarrow> presult list \<Rightarrow> outcome list" where
  "outcomes_of key rs = map (\<lambda>r. res_outcome (pr_result r)) (filter (\<lambda>r. id_string (copy_id (res_monitor (pr_result r))) = key) rs)"

lemma to_outcome_specified [simp]: "to_outcome st \<noteq> OUTCOME_UNSPECIFIED" "OUTCOME_UNSPECIFIED \<noteq> to_outcome st"
  by (cases st; simp)+

lemma emitted_history:
  "remdups_adj ((case ss_last_outcome s key of None \<Rightarrow> OUTCOME_UNSPECIFIED | Some x \<Rightarrow> x) # outcomes_of key (emitted rs s)) =
   (case ss_last_outcome s key of None \<Rightarrow> OUTCOME_UNSPECIFIED | Some x \<Rightarrow> x) # outcomes_of key (filter pr_changed (emitted rs s))"
proof (induction rs arbitrary: s)
  case Nil
  show ?case by (simp add: outcomes_of_def)
next
  case (Cons r rs)
  obtain x s' where b: "build_report r s = (x, s')" by fastforce
  let ?k = "assignment_key (rp_assignment r)" and ?o = "to_outcome (obs_status (rp_observation r))"
  have x: "res_outcome (pr_result x) = ?o" "id_string (copy_id (res_monitor (pr_result x))) = ?k"
    "pr_changed x = ((case ss_last_outcome s ?k of None \<Rightarrow> OUTCOME_UNSPECIFIED | Some y \<Rightarrow> y) \<noteq> ?o)"
    and s': "ss_last_outcome s' = (ss_last_outcome s)(?k \<mapsto> ?o)"
    using b by (auto simp: build_report_def build_result_def should_report_def assignment_key_def Let_def
        split: option.splits prod.splits if_splits)
  from Cons.IH[of s'] show ?case
    by (cases "?k = key") (auto simp: b x s' outcomes_of_def)
qed


end
