(* ===== verification/AssignSync.thy ===== *)
theory AssignSync
  imports ProbeSessionFacts
begin

text \<open>
  How a change to a monitor reaches the probe: the publisher's signal
  (\<open>internal/controlplane/assignments.go\<close>), the control plane's half of the assignment stream
  (\<open>WatchAssignments\<close>, \<open>assignments\<close>, \<open>toAssignment\<close>, \<open>diff\<close>, \<open>sendFullSet\<close> of
  \<open>internal/controlplane/server.go\<close>) and the probe's (\<open>watchOnce\<close> of \<open>internal/probe/watch.go\<close>).
  Decrypting and merging a monitor's credentials is a parameter, as is SHA-256.
\<close>

section \<open>The publisher\<close>

text \<open>A subscriber is its channel, of depth one: whether a signal waits in it.\<close>

record publisher =
  pub_rev :: "64 word"
  pub_subs :: "(nat \<times> bool) list"

definition new_publisher :: publisher where
  "new_publisher = \<lparr> pub_rev = 0, pub_subs = [] \<rparr>"

definition notify :: "publisher \<Rightarrow> publisher" where
  "notify p = p \<lparr> pub_rev := pub_rev p + 1, pub_subs := map (\<lambda>(c, pending). (c, True)) (pub_subs p) \<rparr>"

definition subscribe :: "nat \<Rightarrow> publisher \<Rightarrow> publisher" where
  "subscribe c p = p \<lparr> pub_subs := AList.update c False (pub_subs p) \<rparr>"

definition unsubscribe :: "nat \<Rightarrow> publisher \<Rightarrow> publisher" where
  "unsubscribe c p = p \<lparr> pub_subs := AList.delete c (pub_subs p) \<rparr>"

definition signalled :: "nat \<Rightarrow> publisher \<Rightarrow> bool" where
  "signalled c p = (map_of (pub_subs p) c = Some True)"

definition drain_signal :: "nat \<Rightarrow> publisher \<Rightarrow> publisher" where
  "drain_signal c p = p \<lparr> pub_subs := map (\<lambda>(c', pending). (c', pending \<and> c' \<noteq> c)) (pub_subs p) \<rparr>"

definition set_version :: "64 word \<Rightarrow> string" where
  "set_version r = itoa (uint r)"

section \<open>From monitors to assignments\<close>

record assignable = monitor +
  am_probe :: "ident option"
  am_timeout :: duration
  am_retry_interval :: duration
  am_upside_down :: bool
  am_secrets :: bytes
  am_updated_at :: instant

text \<open>\<open>Duration.Seconds\<close> is a float; \<open>uint32\<close> of it cuts the fraction and, on amd64, the high bits.\<close>

definition whole_seconds :: "duration \<Rightarrow> nat" where
  "whole_seconds d =
     nat (float_to_int (float_add (float_of_int (go_div d second)) (float_div (float_of_int (go_mod d second)) (of_int second)))
       mod 2 ^ 32)"

text \<open>\<open>open_config\<close> is the control plane's key, if it has one: from the ids and the sealed half to the secret.\<close>

definition whole_config ::
  "(ident \<Rightarrow> ident \<Rightarrow> bytes \<Rightarrow> bytes option) option \<Rightarrow> (bytes \<Rightarrow> bytes \<Rightarrow> bytes option) \<Rightarrow> assignable \<Rightarrow> bytes option" where
  "whole_config open_config merge am =
     (if am_secrets am = [] then Some (string_bytes (m_config am))
      else case open_config of
             None \<Rightarrow> None
           | Some opener \<Rightarrow>
               (case opener (m_org am) (m_id am) (am_secrets am) of
                  None \<Rightarrow> None
                | Some secret \<Rightarrow> merge (string_bytes (m_config am)) secret))"

definition to_assignment ::
  "(ident \<Rightarrow> ident \<Rightarrow> bytes \<Rightarrow> bytes option) option \<Rightarrow> (bytes \<Rightarrow> bytes \<Rightarrow> bytes option) \<Rightarrow> assignable \<Rightarrow> assignment option" where
  "to_assignment open_config merge am =
     (let retry = (if am_retry_interval am \<le> 0 then m_interval am else am_retry_interval am) in
      map_option (\<lambda>config.
        \<lparr> as_monitor = m_id am, as_type = m_type am, as_config = config,
          as_interval = whole_seconds (m_interval am), as_timeout = whole_seconds (am_timeout am),
          as_retries = nat (m_retries am mod 2 ^ 32), as_retry_interval = whole_seconds retry,
          as_upside_down = am_upside_down am,
          as_version = itoa (am_updated_at am div millisecond) \<rparr>)
        (whole_config open_config merge am))"

definition list_assignable :: "assignable list \<Rightarrow> assignable list" where
  "list_assignable rows = sort_key m_id (filter (\<lambda>am. m_enabled am \<and> m_type am \<noteq> ''push'') rows)"

text \<open>The set for one probe, by the printed id; what cannot be decrypted is withheld.\<close>

definition assignments_for ::
  "(ident \<Rightarrow> ident \<Rightarrow> bytes \<Rightarrow> bytes option) option \<Rightarrow> (bytes \<Rightarrow> bytes \<Rightarrow> bytes option) \<Rightarrow> ident \<Rightarrow>
     assignable list \<Rightarrow> (string \<times> assignment) list" where
  "assignments_for open_config merge probe monitors =
     fold (\<lambda>am m.
        if am_probe am \<noteq> None \<and> am_probe am \<noteq> Some probe then m
        else case to_assignment open_config merge am of
               None \<Rightarrow> m
             | Some a \<Rightarrow> AList.update (id_string (m_id am)) a m)
       (list_assignable monitors) []"

section \<open>Full sets in chunks, and deltas\<close>

datatype update =
  Up_set "assignment list" bool
| Up_delta delta
| Up_reconcile string

definition assignment_chunk_size :: nat where "assignment_chunk_size = 500"

function chunks :: "assignment list \<Rightarrow> update list" where
  "chunks as =
     (if length as \<le> assignment_chunk_size then [Up_set as True]
      else Up_set (take assignment_chunk_size as) False # chunks (drop assignment_chunk_size as))"
  by pat_completeness auto
termination by (relation "measure length") (auto simp: assignment_chunk_size_def)

declare chunks.simps [simp del]

definition chosen :: "(string \<Rightarrow> assignment \<Rightarrow> bool) \<Rightarrow> (string \<times> assignment) list \<Rightarrow> assignment list" where
  "chosen p m = map snd (filter (\<lambda>(key, a). p key a) m)"

definition diff :: "(string \<times> assignment) list \<Rightarrow> (string \<times> assignment) list \<Rightarrow> delta option" where
  "diff old new =
     (let added = chosen (\<lambda>key a. map_of old key = None) new;
          updated = chosen (\<lambda>key a. case map_of old key of None \<Rightarrow> False | Some prev \<Rightarrow> as_version prev \<noteq> as_version a) new;
          removed = map as_monitor (chosen (\<lambda>key a. map_of new key = None) old)
      in if added = [] \<and> updated = [] \<and> removed = [] then None
         else Some \<lparr> dl_added = added, dl_updated = updated, dl_removed = removed \<rparr>)"

section \<open>The probe's end of the stream\<close>

datatype watch_result = Watching "assignment list" session | Resync

definition snapshot :: "session \<Rightarrow> assignment list" where
  "snapshot s = map snd (ss_assignments s)"

text \<open>
  One update, applied without interruption: chunks are staged and applied with the last one, a
  digest that differs ends the stream, whose reopening brings a full set.
\<close>

definition watch_update ::
  "registry \<Rightarrow> (bytes \<Rightarrow> bytes) \<Rightarrow> instant \<Rightarrow> assignment list \<Rightarrow> session \<Rightarrow> update \<Rightarrow> watch_result" where
  "watch_update reg sha256 now staging s u =
     (case u of
        Up_set chunk final \<Rightarrow>
          if final
          then Watching [] (drain (s \<lparr> ss_watch := full_set_actions reg now (map fst (ss_assignments s))
                 (fst (accept_set reg (staging @ chunk))) (staging @ chunk) \<rparr>))
          else Watching (staging @ chunk) s
      | Up_delta d \<Rightarrow> Watching staging (drain (s \<lparr> ss_watch := delta_actions reg now d \<rparr>))
      | Up_reconcile digest \<Rightarrow>
          if assignment_digest sha256 (snapshot s) = digest then Watching staging s else Resync)"

fun watch_stream ::
  "registry \<Rightarrow> (bytes \<Rightarrow> bytes) \<Rightarrow> instant \<Rightarrow> assignment list \<Rightarrow> session \<Rightarrow> update list \<Rightarrow> watch_result" where
  "watch_stream reg sha256 now staging s [] = Watching staging s"
| "watch_stream reg sha256 now staging s (u # us) =
     (case watch_update reg sha256 now staging s u of
        Watching staging' s' \<Rightarrow> watch_stream reg sha256 now staging' s' us
      | Resync \<Rightarrow> Resync)"

section \<open>Chunks\<close>

lemma chunks_applied:
  "watch_stream reg sha256 now staging s (chunks as) =
     watch_update reg sha256 now staging s (Up_set as True)"
proof (induction as arbitrary: staging rule: chunks.induct)
  case (1 as)
  show ?case
  proof (cases "length as \<le> assignment_chunk_size")
    case True
    then show ?thesis by (simp add: chunks.simps watch_update_def)
  next
    case False
    with 1 show ?thesis by (subst chunks.simps) (simp add: watch_update_def)
  qed
qed

text \<open>Whatever the size of the set, the chunks leave the probe as one whole set would.\<close>

lemma cut_set_is_discarded:
  "k < length (chunks as) \<Longrightarrow> \<exists>staging'. watch_stream reg sha256 now staging s (take k (chunks as)) = Watching staging' s"
proof (induction as arbitrary: staging k rule: chunks.induct)
  case (1 as)
  show ?case
  proof (cases "k = 0 \<or> length as \<le> assignment_chunk_size")
    case True
    have "length as \<le> assignment_chunk_size \<Longrightarrow> chunks as = [Up_set as True]" by (simp add: chunks.simps)
    with 1(2) True have "k = 0" by auto
    then show ?thesis by simp
  next
    case False
    then obtain j where j: "k = Suc j" by (cases k) auto
    have c: "chunks as = Up_set (take assignment_chunk_size as) False # chunks (drop assignment_chunk_size as)"
      using False by (subst chunks.simps) simp
    with 1(1)[of j] 1(2) False show ?thesis by (simp add: j watch_update_def)
  qed
qed

section \<open>In step with the control plane\<close>

definition proper_map :: "(string \<times> assignment) list \<Rightarrow> bool" where
  "proper_map m = (distinct (map fst m) \<and> keyed m \<and> (\<forall>a \<in> snd ` set m. proper_assignment a))"

definition in_step :: "(string \<times> assignment) list \<Rightarrow> (string \<times> assignment) list \<Rightarrow> bool" where
  "in_step m n = (\<forall>k. map_option as_version (map_of m k) = map_option as_version (map_of n k))"

lemma proper_key: "proper_map m \<Longrightarrow> (k, a) \<in> set m \<Longrightarrow> k = id_string (as_monitor a) \<and> length (as_monitor a) = 16"
  by (fastforce simp: proper_map_def keyed_def assignment_key_def proper_assignment_def copy_id_same)

lemma versions_set:
  assumes "proper_map m"
  shows "(i, v) \<in> set (map (\<lambda>a. (as_monitor a, as_version a)) (map snd m)) \<longleftrightarrow>
    length i = 16 \<and> map_option as_version (map_of m (id_string i)) = Some v"
proof
  assume "(i, v) \<in> set (map (\<lambda>a. (as_monitor a, as_version a)) (map snd m))"
  then obtain k a where a: "(k, a) \<in> set m" "i = as_monitor a" "v = as_version a" by auto
  with proper_key[OF assms a(1)] assms show "length i = 16 \<and> map_option as_version (map_of m (id_string i)) = Some v"
    by (auto simp: proper_map_def map_of_is_SomeI)
next
  assume h: "length i = 16 \<and> map_option as_version (map_of m (id_string i)) = Some v"
  then obtain a where a: "(id_string i, a) \<in> set m" "as_version a = v" by (auto dest: map_of_SomeD)
  with proper_key[OF assms a(1)] h have "as_monitor a = i" by (metis id_string_injective)
  with a show "(i, v) \<in> set (map (\<lambda>a. (as_monitor a, as_version a)) (map snd m))" by force
qed

lemma versions_distinct: "proper_map m \<Longrightarrow> distinct (map (\<lambda>a. (as_monitor a, as_version a)) (map snd m))"
proof (induction m)
  case (Cons p m)
  obtain k a where p: "p = (k, a)" by fastforce
  have m: "proper_map m" using Cons.prems by (auto simp: proper_map_def keyed_def)
  have k: "k = id_string (as_monitor a)" using proper_key[OF Cons.prems, of k a] by (simp add: p)
  have "map_of m k = None" using Cons.prems by (simp add: p proper_map_def map_of_eq_None_iff)
  then have "(as_monitor a, as_version a) \<notin> set (map (\<lambda>a. (as_monitor a, as_version a)) (map snd m))"
    unfolding versions_set[OF m] k by simp
  with Cons.IH[OF m] show ?case by (simp add: p)
qed simp

lemma in_step_versions:
  assumes "proper_map m" "proper_map n"
  shows "versions_of (map snd m) = versions_of (map snd n) \<longleftrightarrow> in_step m n"
proof
  assume "versions_of (map snd m) = versions_of (map snd n)"
  then have s: "set (map (\<lambda>a. (as_monitor a, as_version a)) (map snd m)) = set (map (\<lambda>a. (as_monitor a, as_version a)) (map snd n))"
    by (rule mset_eq_setD)
  show "in_step m n" unfolding in_step_def
  proof
    fix k
    have half: "map_option as_version (map_of m' k) = Some v \<Longrightarrow> map_option as_version (map_of n' k) = Some v"
      if "proper_map m'" "proper_map n'" "set (map (\<lambda>a. (as_monitor a, as_version a)) (map snd m')) =
        set (map (\<lambda>a. (as_monitor a, as_version a)) (map snd n'))" for m' n' v
    proof -
      assume v: "map_option as_version (map_of m' k) = Some v"
      then obtain a where "(k, a) \<in> set m'" by (auto dest: map_of_SomeD)
      with proper_key[OF that(1) this] v versions_set[OF that(1), of "as_monitor a" v] versions_set[OF that(2), of "as_monitor a" v] that(3)
      show ?thesis by auto
    qed
    show "map_option as_version (map_of m k) = map_option as_version (map_of n k)"
      using half[OF assms s] half[OF assms(2,1) s[symmetric]]
      by (cases "map_option as_version (map_of m k)"; cases "map_option as_version (map_of n k)") auto
  qed
next
  assume "in_step m n"
  then have "set (map (\<lambda>a. (as_monitor a, as_version a)) (map snd m)) = set (map (\<lambda>a. (as_monitor a, as_version a)) (map snd n))"
    unfolding set_eq_iff split_paired_All versions_set[OF assms(1)] versions_set[OF assms(2)] by (simp add: in_step_def)
  then show "versions_of (map snd m) = versions_of (map snd n)"
    by (rule iffD1[OF set_eq_iff_mset_eq_distinct[OF versions_distinct[OF assms(1)] versions_distinct[OF assms(2)]]])
qed

section \<open>What an update leaves assigned\<close>

lemma set_update_values: "snd ` set (AList.update k a m) \<subseteq> insert a (snd ` set m)"
  by (induction m) auto

lemma proper_update: "proper_map m \<Longrightarrow> proper_assignment a \<Longrightarrow> proper_map (AList.update (assignment_key a) a m)"
  using set_update_values[of "assignment_key a" a m]
  unfolding proper_map_def by (auto simp: keyed_update distinct_update subset_iff Ball_def)

lemma proper_delete: "proper_map m \<Longrightarrow> proper_map (AList.delete key m)"
  unfolding proper_map_def AList.delete_eq keyed_def
  by (auto simp: distinct_map inj_on_def)

lemma drain_actions: "drain (s \<lparr> ss_watch := acts \<rparr>) = fold perform acts (s \<lparr> ss_watch := [] \<rparr>)"
  by (simp add: drain_def)

text \<open>The assignments after a list of actions, and what they are a function of.\<close>

fun effect :: "action \<Rightarrow> (string \<times> assignment) list \<Rightarrow> (string \<times> assignment) list" where
  "effect (Act_swap m rs) n = m"
| "effect (Act_set key a) n = AList.update key a n"
| "effect (Act_remove key) n = AList.delete key n"
| "effect _ n = n"

lemma fold_perform_assignments:
  "ss_assignments (fold perform acts s) = fold effect acts (ss_assignments s)"
proof (induction acts arbitrary: s)
  case (Cons act acts)
  have "ss_assignments (perform act s) = effect act (ss_assignments s)" by (cases act) simp_all
  with Cons show ?case by simp
qed simp

lemma fold_perform_watch: "ss_watch (fold perform acts s) = ss_watch s"
proof (induction acts arbitrary: s)
  case (Cons act acts)
  have "ss_watch (perform act s) = ss_watch s" by (cases act) simp_all
  with Cons show ?case by simp
qed simp

lemma scheduling_has_no_effect: "fold effect (map Act_drop gone) m = m" "fold effect (map (\<lambda>(key, a). Act_push (first_task now key a)) fresh) m = m"
  by (induction gone; simp) (induction fresh; auto)

lemma full_set_assigns:
  "ss_assignments (drain (s \<lparr> ss_watch := full_set_actions reg now gone fresh sent \<rparr>)) = fst (accept_set reg sent)"
  by (simp add: drain_actions fold_perform_assignments full_set_actions_def scheduling_has_no_effect)

definition set_all :: "assignment list \<Rightarrow> (string \<times> assignment) list \<Rightarrow> (string \<times> assignment) list" where
  "set_all as m = fold (\<lambda>a. AList.update (assignment_key a) a) as m"

definition remove_all_keys :: "bytes list \<Rightarrow> (string \<times> assignment) list \<Rightarrow> (string \<times> assignment) list" where
  "remove_all_keys is m = fold (\<lambda>i. AList.delete (id_string (copy_id i))) is m"

lemma delta_assigns:
  assumes "\<forall>a \<in> set (dl_added d) \<union> set (dl_updated d). validate reg a = None"
  shows "ss_assignments (drain (s \<lparr> ss_watch := delta_actions reg now d \<rparr>)) =
    remove_all_keys (dl_removed d) (set_all (dl_updated d) (set_all (dl_added d) (ss_assignments s)))"
proof -
  have "\<forall>a \<in> set as. validate reg a = None \<Longrightarrow> fold effect (concat (map (added_actions reg now) as)) m = set_all as m" for as m
    by (induction as arbitrary: m) (simp_all add: set_all_def added_actions_def)
  moreover have "\<forall>a \<in> set as. validate reg a = None \<Longrightarrow> fold effect (concat (map (updated_actions reg now) as)) m = set_all as m" for as m
    by (induction as arbitrary: m) (simp_all add: set_all_def updated_actions_def Let_def)
  moreover have "fold effect (concat (map removed_actions is)) m = remove_all_keys is m" for "is" m
    by (induction "is" arbitrary: m) (simp_all add: remove_all_keys_def removed_actions_def Let_def)
  ultimately show ?thesis using assms by (simp add: drain_actions fold_perform_assignments delta_actions_def)
qed

lemma set_all_lookup:
  "distinct (map assignment_key as) \<Longrightarrow> map_of (set_all as m) k =
     (case map_of (map (\<lambda>a. (assignment_key a, a)) as) k of None \<Rightarrow> map_of m k | Some a \<Rightarrow> Some a)"
proof (induction as arbitrary: m)
  case (Cons a as)
  have "map_of (map (\<lambda>a. (assignment_key a, a)) as) (assignment_key a) = None"
    using Cons.prems by (auto simp: map_of_eq_None_iff)
  with Cons.IH[of "AList.update (assignment_key a) a m"] Cons.prems show ?case
    by (auto simp: set_all_def update_conv' split: option.splits)
qed (simp add: set_all_def)

lemma remove_all_lookup:
  "map_of (remove_all_keys is m) k = (if k \<in> (\<lambda>i. id_string (copy_id i)) ` set is then None else map_of m k)"
  by (induction "is" arbitrary: m) (auto simp: remove_all_keys_def delete_conv')

lemma set_all_proper: "proper_map m \<Longrightarrow> \<forall>a \<in> set as. proper_assignment a \<Longrightarrow> proper_map (set_all as m)"
  by (induction as arbitrary: m) (simp_all add: set_all_def proper_update)

lemma remove_all_proper: "proper_map m \<Longrightarrow> proper_map (remove_all_keys is m)"
  by (induction "is" arbitrary: m) (simp_all add: remove_all_keys_def proper_delete)

text \<open>A part of a proper map, chosen by its keys: its assignments, and how to look one up.\<close>

lemma chosen_keys:
  assumes "keyed m" shows "map (\<lambda>a. (assignment_key a, a)) (chosen p m) = filter (\<lambda>(key, a). p key a) m"
  using assms by (induction m) (auto simp: chosen_def keyed_def)

lemma map_of_chosen:
  "distinct (map fst m) \<Longrightarrow> map_of (filter (\<lambda>(key, a). p key a) m) k =
     (case map_of m k of None \<Rightarrow> None | Some a \<Rightarrow> if p k a then Some a else None)"
proof (induction m)
  case (Cons q m)
  obtain key a where q: "q = (key, a)" by fastforce
  have "map_of m key = None" using Cons.prems by (simp add: q map_of_eq_None_iff)
  with Cons show ?case by (cases "key = k") (auto simp: q)
qed simp

lemma chosen_lookup:
  assumes "proper_map m"
  shows "map_of (map (\<lambda>a. (assignment_key a, a)) (chosen p m)) k =
      (case map_of m k of None \<Rightarrow> None | Some a \<Rightarrow> if p k a then Some a else None)"
    and "distinct (map assignment_key (chosen p m))" "set (chosen p m) \<subseteq> snd ` set m"
proof -
  have k: "keyed m" "distinct (map fst m)" using assms by (simp_all add: proper_map_def)
  show "map_of (map (\<lambda>a. (assignment_key a, a)) (chosen p m)) k =
      (case map_of m k of None \<Rightarrow> None | Some a \<Rightarrow> if p k a then Some a else None)"
    unfolding chosen_keys[OF k(1)] by (rule map_of_chosen[OF k(2)])
  have "map assignment_key (chosen p m) = map fst (filter (\<lambda>(key, a). p key a) m)"
    unfolding chosen_keys[OF k(1), symmetric] by simp
  then show "distinct (map assignment_key (chosen p m))" using k(2) by (simp add: distinct_map_filter)
qed (auto simp: chosen_def)

lemma diff_parts:
  assumes "diff old new = Some d"
  shows "dl_added d = chosen (\<lambda>key a. map_of old key = None) new"
    and "dl_updated d = chosen (\<lambda>key a. case map_of old key of None \<Rightarrow> False | Some prev \<Rightarrow> as_version prev \<noteq> as_version a) new"
    and "dl_removed d = map as_monitor (chosen (\<lambda>key a. map_of new key = None) old)"
  using assms by (auto simp: diff_def Let_def split: if_splits)

lemma chosen_empty: "chosen p m = [] \<longleftrightarrow> (\<forall>(k, a) \<in> set m. \<not> p k a)"
  by (auto simp: chosen_def filter_empty_conv)

lemma no_diff_in_step:
  assumes "diff old new = None" shows "in_step old new"
  unfolding in_step_def
proof
  fix k
  have e: "chosen (\<lambda>key a. map_of old key = None) new = []" "chosen (\<lambda>key a. map_of new key = None) old = []"
    "chosen (\<lambda>key a. case map_of old key of None \<Rightarrow> False | Some prev \<Rightarrow> as_version prev \<noteq> as_version a) new = []"
    using assms by (simp_all add: diff_def Let_def split: if_splits)
  show "map_option as_version (map_of old k) = map_option as_version (map_of new k)"
  proof (cases "map_of new k")
    case None
    with e(2) map_of_SomeD[of old k] show ?thesis by (cases "map_of old k") (fastforce simp: chosen_empty)+
  next
    case (Some a)
    with e(1,3) map_of_SomeD[OF Some] show ?thesis by (cases "map_of old k") (fastforce simp: chosen_empty)+
  qed
qed

lemma removed_keys:
  assumes "proper_map old"
  shows "(\<lambda>i. id_string (copy_id i)) ` set (map as_monitor (chosen (\<lambda>key a. map_of new key = None) old)) =
    {k. map_of old k \<noteq> None \<and> map_of new k = None}"
proof -
  have "distinct (map fst old)" using assms by (simp add: proper_map_def)
  then have "map_of old k = Some a \<longleftrightarrow> (k, a) \<in> set old" for k a by simp
  moreover have "id_string (copy_id (as_monitor a)) = k" if "(k, a) \<in> set old" for k a
    using proper_key[OF assms that] by (simp add: copy_id_same)
  ultimately show ?thesis by (auto simp: chosen_def image_iff) force
qed

lemma delta_in_step:
  assumes "proper_map old" "proper_map new" "proper_map m" "in_step m old" "diff old new = Some d"
  shows "in_step (remove_all_keys (dl_removed d) (set_all (dl_updated d) (set_all (dl_added d) m))) new"
  unfolding in_step_def
proof
  fix k
  note d = diff_parts[OF assms(5)]
  have m: "map_option as_version (map_of m k) = map_option as_version (map_of old k)"
    using assms(4) by (simp add: in_step_def)
  have l: "map_of (remove_all_keys (dl_removed d) (set_all (dl_updated d) (set_all (dl_added d) m))) k =
      (if map_of old k \<noteq> None \<and> map_of new k = None then None
       else case map_of new k of
         Some a \<Rightarrow> (case map_of old k of None \<Rightarrow> Some a | Some b \<Rightarrow> if as_version b \<noteq> as_version a then Some a else map_of m k)
       | None \<Rightarrow> map_of m k)"
    unfolding remove_all_lookup d removed_keys[OF assms(1)]
    by (cases "map_of old k"; cases "map_of new k"; simp add: set_all_lookup chosen_lookup[OF assms(2)])
  show "map_option as_version (map_of (remove_all_keys (dl_removed d) (set_all (dl_updated d) (set_all (dl_added d) m))) k) =
      map_option as_version (map_of new k)"
    unfolding l using m by (auto split: option.splits)
qed

lemma delta_proper:
  assumes "proper_map new" "proper_map m" "diff old new = Some d"
  shows "proper_map (remove_all_keys (dl_removed d) (set_all (dl_updated d) (set_all (dl_added d) m)))"
  using assms chosen_lookup(3)[OF assms(1)]
  by (intro remove_all_proper set_all_proper) (auto simp: diff_parts[OF assms(3)] proper_map_def)

section \<open>A whole stream\<close>

text \<open>What the control plane sends as its set moves, and the set the probe should then have.\<close>

fun delta_messages :: "(string \<times> assignment) list \<Rightarrow> (string \<times> assignment) list list \<Rightarrow> update list" where
  "delta_messages current [] = []"
| "delta_messages current (new # later) =
     (case diff current new of
        None \<Rightarrow> delta_messages current later
      | Some d \<Rightarrow> Up_delta d # delta_messages new later)"

fun current_after :: "(string \<times> assignment) list \<Rightarrow> (string \<times> assignment) list list \<Rightarrow> (string \<times> assignment) list" where
  "current_after current [] = current"
| "current_after current (new # later) =
     (case diff current new of None \<Rightarrow> current_after current later | Some d \<Rightarrow> current_after new later)"

definition stream_messages ::
  "(bytes \<Rightarrow> bytes) \<Rightarrow> (string \<times> assignment) list \<Rightarrow> (string \<times> assignment) list list \<Rightarrow> update list" where
  "stream_messages sha256 m0 later =
     chunks (map snd m0) @ delta_messages m0 later @
     [Up_reconcile (assignment_digest sha256 (map snd (current_after m0 later)))]"

definition all_valid :: "registry \<Rightarrow> (string \<times> assignment) list \<Rightarrow> bool" where
  "all_valid reg m = (\<forall>a \<in> snd ` set m. validate reg a = None)"

lemma watch_append:
  "watch_stream reg sha256 now staging s (us @ vs) =
     (case watch_stream reg sha256 now staging s us of
        Watching staging' s' \<Rightarrow> watch_stream reg sha256 now staging' s' vs
      | Resync \<Rightarrow> Resync)"
  by (induction us arbitrary: staging s) (auto split: watch_result.splits)

lemma deltas_followed:
  assumes "proper_map m" "list_all proper_map later" "list_all (all_valid reg) later"
    "proper_map (ss_assignments s)" "in_step (ss_assignments s) m"
  shows "\<exists>s'. watch_stream reg sha256 now [] s (delta_messages m later) = Watching [] s' \<and>
    proper_map (ss_assignments s') \<and> in_step (ss_assignments s') (current_after m later) \<and> proper_map (current_after m later)"
  using assms
proof (induction later arbitrary: m s)
  case (Cons new later)
  show ?case
  proof (cases "diff m new")
    case None
    with Cons.IH[of m s] Cons.prems show ?thesis by simp
  next
    case (Some d)
    let ?s = "drain (s \<lparr> ss_watch := delta_actions reg now d \<rparr>)"
    have p: "proper_map new" "all_valid reg new" using Cons.prems(2,3) by simp_all
    have "\<forall>a \<in> set (dl_added d) \<union> set (dl_updated d). validate reg a = None"
    proof
      fix a assume "a \<in> set (dl_added d) \<union> set (dl_updated d)"
      then have "a \<in> snd ` set new" using chosen_lookup(3)[OF p(1)] unfolding diff_parts[OF Some] by (auto dest: subsetD)
      with p(2) show "validate reg a = None" unfolding all_valid_def by (rule bspec)
    qed
    note a = delta_assigns[OF this, where s = s and now = now]
    have "proper_map (ss_assignments ?s)" "in_step (ss_assignments ?s) new"
      unfolding a using delta_proper[OF p(1) Cons.prems(4) Some] delta_in_step[OF Cons.prems(1) p(1) Cons.prems(4,5) Some]
      by blast+
    with Cons.IH[of new ?s] Cons.prems p Some show ?thesis by (simp add: watch_update_def)
  qed
qed simp

lemma accept_valid:
  assumes "proper_map m" "all_valid reg m"
  shows "proper_map (fst (accept_set reg (map snd m))) \<and> in_step (fst (accept_set reg (map snd m))) m"
proof -
  have f: "filter (\<lambda>a. validate reg a = None) (map snd m) = map snd m"
    using assms(2) by (auto simp: all_valid_def intro!: filter_True)
  have e: "fst (accept_set reg (map snd m)) = set_all (map snd m) []"
    unfolding accept_set_def f by (simp add: set_all_def)
  have c: "map snd m = chosen (\<lambda>k a. True) m" by (simp add: chosen_def)
  have "proper_map (set_all (map snd m) [])"
    by (rule set_all_proper) (use assms(1) in \<open>auto simp: proper_map_def keyed_def\<close>)
  moreover have "in_step (set_all (map snd m) []) m"
    unfolding in_step_def c set_all_lookup[OF chosen_lookup(2)[OF assms(1)]] chosen_lookup(1)[OF assms(1)]
    by (simp split: option.splits)
  ultimately show ?thesis by (simp add: e)
qed

section \<open>Properties\<close>

text \<open>C10: While a probe can run everything it is assigned, it stays in step: after the full set in chunks
  and a delta for every change, whatever the changes were, it holds each assigned monitor at its
  current version and nothing else, and the control plane's digest agrees with its own, so that
  reconciling never throws the schedule away.\<close>

theorem stream_stays_in_step:
  assumes "proper_map m0" "list_all proper_map later" "list_all (all_valid reg) (m0 # later)"
  shows "case watch_stream reg sha256 now [] s (stream_messages sha256 m0 later) of
      Watching staging s' \<Rightarrow> staging = [] \<and> in_step (ss_assignments s') (current_after m0 later)
    | Resync \<Rightarrow> False"
proof -
  let ?s = "drain (s \<lparr> ss_watch := full_set_actions reg now (map fst (ss_assignments s))
      (fst (accept_set reg (map snd m0))) (map snd m0) \<rparr>)"
  have first: "watch_stream reg sha256 now [] s (chunks (map snd m0)) = Watching [] ?s"
    by (simp add: chunks_applied watch_update_def)
  have v: "all_valid reg m0" "list_all (all_valid reg) later" using assms(3) by simp_all
  have "proper_map (ss_assignments ?s)" "in_step (ss_assignments ?s) m0"
    using accept_valid[OF assms(1) v(1)] by (simp_all add: full_set_assigns)
  from deltas_followed[OF assms(1,2) v(2) this] obtain s' where
    d: "watch_stream reg sha256 now [] ?s (delta_messages m0 later) = Watching [] s'"
    and p: "proper_map (ss_assignments s')" "proper_map (current_after m0 later)"
    and i: "in_step (ss_assignments s') (current_after m0 later)"
    by metis
  have "versions_of (map snd (ss_assignments s')) = versions_of (map snd (current_after m0 later))"
    using in_step_versions[OF p] i by blast
  then have "assignment_digest sha256 (snapshot s') = assignment_digest sha256 (map snd (current_after m0 later))"
    unfolding snapshot_def by (rule same_versions_same_digest)
  with d i first show ?thesis
    by (simp add: stream_messages_def watch_append watch_update_def)
qed

definition one_map :: "string \<Rightarrow> (string \<times> assignment) list" where
  "one_map v = [(one_key, sample_assignment 1 \<lparr> as_version := v \<rparr>)]"

lemma one_map_proper: "CHR 0x00 \<notin> set v \<Longrightarrow> proper_map (one_map v)"
  by (simp add: proper_map_def one_map_def keyed_def one_key_def assignment_key_def proper_assignment_def sample_assignment_def)

lemma one_map_valid: "all_valid accept_all (one_map v)"
  by (simp add: all_valid_def one_map_def validate_def accept_all_def sample_assignment_def Let_def)

theorem stream_stays_in_step_witness:
  "case watch_stream accept_all (\<lambda>bs. bs) 0 [] (new_session 1) (stream_messages (\<lambda>bs. bs) (one_map ''1'') [one_map ''2'', []]) of
      Watching staging s' \<Rightarrow> staging = [] \<and> in_step (ss_assignments s') (current_after (one_map ''1'') [one_map ''2'', []])
    | Resync \<Rightarrow> False"
  by (rule stream_stays_in_step)
    (simp_all add: one_map_proper one_map_valid, simp_all add: all_valid_def proper_map_def keyed_def)

text \<open>C37: An assignment the probe rejects is never reconciled: it stays in the set the control plane takes
  the digest of and out of the one the probe does, so where SHA-256 does not collide on the two every
  reconciliation ends the stream, and the full set that follows drops and requeues every monitor,
  every fifteen minutes for as long as the one rejected monitor is assigned.\<close>

theorem rejected_assignment_never_reconciles:
  assumes "proper_map m0" "a \<in> snd ` set m0" "validate reg a \<noteq> None"
    and "sha256 (digest_bytes (map snd (fst (accept_set reg (map snd m0))))) = sha256 (digest_bytes (map snd m0)) \<Longrightarrow>
      digest_bytes (map snd (fst (accept_set reg (map snd m0)))) = digest_bytes (map snd m0)"
  shows "watch_stream reg sha256 now [] s (stream_messages sha256 m0 []) = Resync"
proof -
  let ?acc = "fst (accept_set reg (map snd m0))"
  have f: "filter (\<lambda>a. validate reg a = None) (map snd m0) = chosen (\<lambda>k a. validate reg a = None) m0"
    by (induction m0) (auto simp: chosen_def)
  have acc: "?acc = set_all (chosen (\<lambda>k a. validate reg a = None) m0) []"
    unfolding accept_set_def f by (simp add: set_all_def)
  have proper: "proper_map ?acc" unfolding acc f[symmetric]
    by (rule set_all_proper) (use assms(1) in \<open>auto simp: proper_map_def keyed_def\<close>)
  have a: "map_of m0 (assignment_key a) = Some a"
  proof -
    obtain k where k: "(k, a) \<in> set m0" using assms(2) by auto
    with assms(1) have "assignment_key a = k" "distinct (map fst m0)" by (auto simp: proper_map_def keyed_def)
    with k show ?thesis by simp
  qed
  then have "map_of ?acc (assignment_key a) = None"
    using assms(3) unfolding acc set_all_lookup[OF chosen_lookup(2)[OF assms(1)]] chosen_lookup(1)[OF assms(1)] by simp
  moreover have "map_of m0 (assignment_key a) \<noteq> None" using a by simp
  ultimately have "\<not> in_step ?acc m0" unfolding in_step_def by (metis option.map_disc_iff)
  then have "versions_of (map snd ?acc) \<noteq> versions_of (map snd m0)" using in_step_versions[OF proper assms(1)] by blast
  moreover have "\<forall>a \<in> set (map snd ?acc) \<union> set (map snd m0). proper_assignment a"
    using proper assms(1) by (auto simp: proper_map_def)
  ultimately have "assignment_digest sha256 (map snd ?acc) \<noteq> assignment_digest sha256 (map snd m0)"
    using digest_tells_sets_apart[OF _ assms(4)[unfolded digest_bytes_def]] unfolding digest_bytes_def by blast
  then show ?thesis
    by (simp add: stream_messages_def watch_append chunks_applied watch_update_def snapshot_def full_set_assigns)
qed

theorem rejected_assignment_never_reconciles_witness:
  "watch_stream (\<lambda>type. None) (\<lambda>bs. bs) 0 [] (new_session 1) (stream_messages (\<lambda>bs. bs) (one_map ''1'') []) = Resync"
  by (rule rejected_assignment_never_reconciles[of _ "sample_assignment 1 \<lparr> as_version := ''1'' \<rparr>"])
    (simp_all add: one_map_proper, simp_all add: one_map_def validate_def Let_def)

section \<open>No change is missed\<close>

text \<open>
  The control plane's end as it waits for changes. Writers commit to the store and then notify;
  the stream drains its signal, waits for the writes to settle, drains it again, reloads the
  store, and sends the difference. \<open>ws_store\<close> and \<open>ws_sent\<close> are the set as stored and as sent,
  \<open>ws_pending\<close> says whether a write has committed since the last notification.
\<close>

datatype watch_phase = Waiting | Settling | Drained

record watcher =
  ws_store :: "(string \<times> assignment) list"
  ws_pending :: bool
  ws_signal :: bool
  ws_phase :: watch_phase
  ws_sent :: "(string \<times> assignment) list"

datatype watch_event =
  Commit "(string \<times> assignment) list" | Notified | Woken | Settled | Reloaded | Reload_failed

definition send_delta :: "watcher \<Rightarrow> watcher" where
  "send_delta w =
     (case diff (ws_sent w) (ws_store w) of
        None \<Rightarrow> w \<lparr> ws_phase := Waiting \<rparr>
      | Some d \<Rightarrow> w \<lparr> ws_phase := Waiting, ws_sent := ws_store w \<rparr>)"

fun watch_step :: "watcher \<Rightarrow> watch_event \<Rightarrow> watcher" where
  "watch_step w (Commit m) = w \<lparr> ws_store := m, ws_pending := True \<rparr>"
| "watch_step w Notified = w \<lparr> ws_pending := False, ws_signal := True \<rparr>"
| "watch_step w Woken = (if ws_phase w = Waiting \<and> ws_signal w then w \<lparr> ws_signal := False, ws_phase := Settling \<rparr> else w)"
| "watch_step w Settled = (if ws_phase w = Settling then w \<lparr> ws_signal := False, ws_phase := Drained \<rparr> else w)"
| "watch_step w Reloaded = (if ws_phase w = Drained then send_delta w else w)"
| "watch_step w Reload_failed = (if ws_phase w = Drained then w \<lparr> ws_phase := Waiting \<rparr> else w)"

definition open_stream :: "(string \<times> assignment) list \<Rightarrow> watcher" where
  "open_stream m = \<lparr> ws_store = m, ws_pending = False, ws_signal = False, ws_phase = Waiting, ws_sent = m \<rparr>"

definition nothing_missed :: "watcher \<Rightarrow> bool" where
  "nothing_missed w =
     (ws_pending w \<or> ws_signal w \<or> ws_phase w \<noteq> Waiting \<or> in_step (ws_sent w) (ws_store w))"

lemma in_step_refl [simp]: "in_step m m"
  by (simp add: in_step_def)

lemma watch_step_ok: "nothing_missed w \<Longrightarrow> ev \<noteq> Reload_failed \<Longrightarrow> nothing_missed (watch_step w ev)"
  by (cases ev) (auto simp: nothing_missed_def send_delta_def no_diff_in_step split: option.splits)

text \<open>C28: No change is missed while the store can be read: whatever the order of commits, notifications
  and reloads, a stream that is waiting with no signal, and no writer about to give one, has sent
  every monitor at the version the store holds. The signal of depth one and the two drains around
  the settling pause lose nothing.\<close>

theorem settled_stream_missed_nothing:
  assumes "Reload_failed \<notin> set evs"
    and "ws_phase (foldl watch_step (open_stream m) evs) = Waiting"
    and "\<not> ws_signal (foldl watch_step (open_stream m) evs)" "\<not> ws_pending (foldl watch_step (open_stream m) evs)"
  shows "in_step (ws_sent (foldl watch_step (open_stream m) evs)) (ws_store (foldl watch_step (open_stream m) evs))"
proof -
  have "nothing_missed (foldl watch_step (open_stream m) evs)"
    using assms(1)
  proof (induction evs rule: rev_induct)
    case Nil
    show ?case by (simp add: nothing_missed_def open_stream_def)
  next
    case (snoc ev evs)
    then show ?case by (auto intro!: watch_step_ok)
  qed
  with assms(2-4) show ?thesis by (simp add: nothing_missed_def)
qed

theorem settled_stream_missed_nothing_witness:
  "in_step (ws_sent (foldl watch_step (open_stream []) [Commit (one_map ''1''), Notified, Woken, Settled, Reloaded])) (one_map ''1'')"
  using settled_stream_missed_nothing[of "[Commit (one_map ''1''), Notified, Woken, Settled, Reloaded]" "[]"]
  by (simp add: open_stream_def send_delta_def diff_def Let_def one_map_def chosen_def)

text \<open>A reload that fails loses the change that asked for it: the signals were drained before the read,
  so the stream waits again with the change unsent, and as the reconciliation compares what was
  sent, it stays unsent until some later write happens to notify.\<close>

theorem failed_reload_loses_the_change:
  assumes "\<not> in_step m n"
  shows "case foldl watch_step (open_stream m) [Commit n, Notified, Woken, Settled, Reload_failed] of
      w \<Rightarrow> ws_phase w = Waiting \<and> \<not> ws_signal w \<and> \<not> ws_pending w \<and> \<not> in_step (ws_sent w) (ws_store w) \<and>
        foldl watch_step w (replicate k Woken @ replicate j Settled @ replicate i Reloaded) = w"
proof -
  let ?w = "foldl watch_step (open_stream m) [Commit n, Notified, Woken, Settled, Reload_failed]"
  have w: "ws_phase ?w = Waiting" "\<not> ws_signal ?w" "\<not> ws_pending ?w" "\<not> in_step (ws_sent ?w) (ws_store ?w)"
    using assms by (simp_all add: open_stream_def)
  have stuck: "foldl watch_step v (replicate c ev) = v" if "watch_step v ev = v" for v ev c
    using that by (induction c) simp_all
  have "watch_step ?w Woken = ?w" "watch_step ?w Settled = ?w" "watch_step ?w Reloaded = ?w"
    using w by simp_all
  then have "foldl watch_step ?w (replicate k Woken @ replicate j Settled @ replicate i Reloaded) = ?w"
    by (simp only: foldl_append stuck)
  with w show ?thesis by (simp only: simp_thms Let_def)
qed

theorem failed_reload_loses_the_change_witness:
  "case foldl watch_step (open_stream []) [Commit (one_map ''1''), Notified, Woken, Settled, Reload_failed] of
      w \<Rightarrow> \<not> ws_signal w \<and> \<not> in_step (ws_sent w) (ws_store w)"
proof -
  have "\<not> in_step [] (one_map ''1'')" by (auto simp: in_step_def one_map_def)
  from failed_reload_loses_the_change[OF this, of 0 0 0] show ?thesis by simp
qed

end
