(* ===== verification/Paging.thy ===== *)
theory Paging
  imports Prelude "HOL-Library.List_Lexorder" "HOL-Library.Product_Lexorder"
begin

text \<open>
  Keyset pagination as the store's listings do it: newest first, strictly before the cursor, one
  row more than the page to learn whether there is another (\<open>internal/store/sqlite\<close>). A
  listing is an interface; what a client sees who follows the cursors is proved once.
\<close>

section \<open>Pages\<close>

definition before :: "'k::linorder option \<Rightarrow> 'k \<Rightarrow> bool" where
  "before cursor k = (case cursor of None \<Rightarrow> True | Some c \<Rightarrow> k < c)"

definition newest_first :: "('a \<Rightarrow> 'k::linorder) \<Rightarrow> 'a list \<Rightarrow> 'a list" where
  "newest_first key rows = rev (sort_key key rows)"

text \<open>\<open>LIMIT limit + 1\<close>, and the extra row only says that there is more.\<close>

definition keyset_page ::
  "('a \<Rightarrow> 'k::linorder) \<Rightarrow> 'a list \<Rightarrow> 'k option \<Rightarrow> nat \<Rightarrow> 'a list \<times> bool" where
  "keyset_page key rows cursor limit =
     (let found = take (limit + 1) (newest_first key (filter (\<lambda>r. before cursor (key r)) rows))
      in (take limit found, limit < length found))"

section \<open>Following the cursors\<close>

lemma newest_first_filter: "newest_first key (filter p rows) = filter p (newest_first key rows)"
  by (simp only: newest_first_def rev_filter[symmetric] filter_sort)

lemma newest_first_length [simp]: "length (newest_first key rows) = length rows"
  by (simp add: newest_first_def)

lemma newest_first_set [simp]: "set (newest_first key rows) = set rows"
  by (simp add: newest_first_def)

lemma newest_first_descends:
  assumes "distinct (map key rows)"
  shows "sorted_wrt (\<lambda>a b. key b < key a) (newest_first key rows)"
proof -
  have "sorted (map key (sort_key key rows))" "distinct (map key (sort_key key rows))"
    using assms by (simp_all add: distinct_map inj_on_def) 
  then have "sorted_wrt (<) (map key (sort_key key rows))" by (simp add: strict_sorted_iff)
  then show ?thesis by (simp add: newest_first_def sorted_wrt_rev sorted_wrt_map)
qed

text \<open>In a strictly descending list, the rows before one of its rows are those after it.\<close>

lemma descending_before:
  assumes "sorted_wrt (\<lambda>a b. key b < (key a :: 'k::linorder)) xs" "i < length xs"
  shows "filter (\<lambda>r. key r < key (xs ! i)) xs = drop (Suc i) xs"
proof -
  have "filter (\<lambda>r. key r < key (xs ! i)) (take (Suc i) xs) = []"
  proof (rule filter_False, rule ballI)
    fix r assume "r \<in> set (take (Suc i) xs)"
    then obtain j where j: "j \<le> i" "r = xs ! j" by (auto simp: in_set_conv_nth less_Suc_eq_le)
    show "\<not> key r < key (xs ! i)"
      using sorted_wrt_nth_less[OF assms(1), of j i] j assms(2) by (cases "j = i") auto
  qed
  moreover have "filter (\<lambda>r. key r < key (xs ! i)) (drop (Suc i) xs) = drop (Suc i) xs"
  proof (rule filter_True, rule ballI)
    fix r assume "r \<in> set (drop (Suc i) xs)"
    then obtain j where "j < length (drop (Suc i) xs)" "drop (Suc i) xs ! j = r" by (auto simp only: in_set_conv_nth)
    then have j: "Suc i + j < length xs" "r = xs ! (Suc i + j)" by auto
    show "key r < key (xs ! i)" using sorted_wrt_nth_less[OF assms(1), of i "Suc i + j"] j by simp
  qed
  ultimately show ?thesis by (metis append_Nil append_take_drop_id filter_append)
qed

locale listing =
  fixes page :: "'d \<Rightarrow> 'k::linorder option \<Rightarrow> nat \<Rightarrow> 'a list \<times> bool"
    and key :: "'a \<Rightarrow> 'k"
    and rows :: "'d \<Rightarrow> 'a list"
    and ok :: "'d \<Rightarrow> bool"
  assumes keys_distinct: "ok db \<Longrightarrow> distinct (map key (rows db))"
    and page_rows: "fst (page db cursor limit) = take limit (filter (\<lambda>r. before cursor (key r)) (newest_first key (rows db)))"
    and page_more: "snd (page db cursor limit) = (limit < length (filter (\<lambda>r. before cursor (key r)) (rows db)))"
begin

abbreviation remaining :: "'d \<Rightarrow> 'k option \<Rightarrow> 'a list" where
  "remaining db cursor \<equiv> filter (\<lambda>r. before cursor (key r)) (newest_first key (rows db))"

text \<open>A client that asks for \<open>n\<close> pages at most, each with the cursor of the last row it saw.\<close>

fun follow :: "'d \<Rightarrow> nat \<Rightarrow> nat \<Rightarrow> 'k option \<Rightarrow> 'a list" where
  "follow db 0 limit cursor = []"
| "follow db (Suc n) limit cursor =
     (case page db cursor limit of
        (p, True) \<Rightarrow> p @ follow db n limit (Some (key (last p)))
      | (p, False) \<Rightarrow> p)"

lemma remaining_length: "length (remaining db cursor) = length (filter (\<lambda>r. before cursor (key r)) (rows db))"
  unfolding newest_first_filter[symmetric] by simp

lemma remaining_descends: "ok db \<Longrightarrow> sorted_wrt (\<lambda>a b. key b < key a) (remaining db cursor)"
  by (rule sorted_wrt_filter[OF newest_first_descends[OF keys_distinct]])

lemma remaining_after:
  assumes "ok db" "0 < limit" "limit < length (remaining db cursor)"
  shows "remaining db (Some (key (last (take limit (remaining db cursor))))) = drop limit (remaining db cursor)"
proof -
  let ?r = "remaining db cursor"
  have l: "last (take limit ?r) = ?r ! (limit - 1)"
    using assms by (subst last_conv_nth) (auto simp: min_def)
  have "filter (\<lambda>r. key r < key (?r ! (limit - 1))) ?r = drop limit ?r"
    using descending_before[OF remaining_descends[OF assms(1)], of "limit - 1" cursor] assms by simp
  moreover have "before cursor (key (?r ! (limit - 1)))"
    using assms nth_mem[of "limit - 1" ?r] by auto
  then have "key r < key (?r ! (limit - 1)) \<and> before cursor (key r) \<longleftrightarrow> key r < key (?r ! (limit - 1))" for r
    by (auto simp: before_def split: option.splits)
  ultimately show ?thesis unfolding l by (simp add: before_def[of "Some c" for c] conj_commute)
qed

lemma follow_covers: "ok db \<Longrightarrow> 0 < limit \<Longrightarrow> length (remaining db cursor) \<le> n * limit \<Longrightarrow> follow db n limit cursor = remaining db cursor"
proof (induction n arbitrary: cursor)
  case (Suc n)
  have p: "page db cursor limit = (take limit (remaining db cursor), limit < length (remaining db cursor))"
    by (rule prod_eqI) (simp_all only: fst_conv snd_conv page_rows page_more remaining_length)
  show ?case
  proof (cases "limit < length (remaining db cursor)")
    case True
    note r = remaining_after[OF Suc.prems(1,2) True]
    have "follow db n limit (Some (key (last (take limit (remaining db cursor))))) = drop limit (remaining db cursor)"
      using Suc.IH[of "Some (key (last (take limit (remaining db cursor))))"] Suc.prems unfolding r by simp
    with True p show ?thesis by simp
  qed (simp add: p)
qed simp

lemma follow_all: "ok db \<Longrightarrow> 0 < limit \<Longrightarrow> length (rows db) \<le> n * limit \<Longrightarrow> follow db n limit None = newest_first key (rows db)"
  using follow_covers[of db limit None n] by (simp add: before_def)

end

lemma keyset_page_parts:
  "fst (keyset_page key rows cursor limit) = take limit (filter (\<lambda>r. before cursor (key r)) (newest_first key rows))"
  "snd (keyset_page key rows cursor limit) = (limit < length (filter (\<lambda>r. before cursor (key r)) rows))"
  by (auto simp: keyset_page_def Let_def newest_first_filter[symmetric] min_def)

end
