(* ===== verification/Webhooks.thy ===== *)
theory Webhooks
  imports Paging HeartbeatStore MaintenanceStore
begin

text \<open>
  Webhook subscriptions and their delivery log (\<open>internal/model/webhook.go\<close>,
  \<open>internal/store/sqlite/webhooks.go\<close>): the two tables as lists of rows, a row in its stored form,
  one definition per store operation. The events column stands as the list its JSON denotes; the
  headers and the secret are sealed bytes.
\<close>

section \<open>Subscriptions and deliveries\<close>

record webhook =
  wh_id :: ident
  wh_org :: ident
  wh_name :: string
  wh_url :: string
  wh_events :: "string list"
  wh_enabled :: bool
  wh_secret :: bytes
  wh_secret_prefix :: string
  wh_verify_tls :: bool
  wh_failures :: nat
  wh_disabled_at :: "instant option"
  wh_created_at :: instant
  wh_updated_at :: instant
  wh_last_delivery_at :: "instant option"
  wh_last_outcome :: string

record webhook_delivery =
  wd_id :: ident
  wd_webhook :: ident
  wd_org :: ident
  wd_event_id :: ident
  wd_event_type :: string
  wd_outcome :: string
  wd_attempt :: nat
  wd_request_body :: string
  wd_status :: "int option"
  wd_response_body :: string
  wd_error :: string
  wd_duration_ms :: "rat option"
  wd_next_retry :: "instant option"
  wd_created_at :: instant

definition wants_event :: "string list \<Rightarrow> string \<Rightarrow> bool" where
  "wants_event events type =
     (if events = [] then type = ''monitor.up'' \<or> type = ''monitor.down'' else type \<in> set events)"

definition webhook_wants :: "webhook \<Rightarrow> string \<Rightarrow> bool" where
  "webhook_wants h type = wants_event (wh_events h) type"

definition delivery_succeeded :: string where "delivery_succeeded = ''succeeded''"
definition delivery_failed :: string where "delivery_failed = ''failed''"

section \<open>Rows\<close>

record hook_row =
  hr_id :: ident
  hr_org :: ident
  hr_name :: string
  hr_url :: string
  hr_events :: "string list"
  hr_enabled :: int
  hr_headers :: "bytes option"
  hr_secret :: "bytes option"
  hr_prefix :: "string option"
  hr_verify_tls :: int
  hr_failures :: nat
  hr_disabled_at :: "int option"
  hr_created_at :: int
  hr_updated_at :: int

record delivery_row =
  dr_id :: ident
  dr_webhook :: ident
  dr_org :: ident
  dr_event_id :: ident
  dr_event_type :: string
  dr_outcome :: string
  dr_attempt :: nat
  dr_request_body :: "string option"
  dr_status :: "int option"
  dr_response_body :: "string option"
  dr_error :: "string option"
  dr_duration_ms :: "rat option"
  dr_next_retry :: "int option"
  dr_created_at :: int

record hook_db =
  hk_hooks :: "hook_row list"
  hk_deliveries :: "delivery_row list"

definition null_bytes :: "bytes \<Rightarrow> bytes option" where
  "null_bytes b = (if b = [] then None else Some b)"

definition bool_int :: "bool \<Rightarrow> int" where "bool_int b = (if b then 1 else 0)"

definition row_of_webhook :: "webhook \<Rightarrow> bytes \<Rightarrow> hook_row" where
  "row_of_webhook h headers =
     \<lparr> hr_id = wh_id h, hr_org = wh_org h, hr_name = wh_name h, hr_url = wh_url h, hr_events = wh_events h,
       hr_enabled = bool_int (wh_enabled h), hr_headers = null_bytes headers, hr_secret = null_bytes (wh_secret h),
       hr_prefix = null_string (wh_secret_prefix h), hr_verify_tls = bool_int (wh_verify_tls h),
       hr_failures = wh_failures h, hr_disabled_at = map_option ms_of (wh_disabled_at h),
       hr_created_at = ms_of (wh_created_at h), hr_updated_at = ms_of (wh_updated_at h) \<rparr>"

definition or_empty :: "'a list option \<Rightarrow> 'a list" where
  "or_empty s = (case s of None \<Rightarrow> [] | Some x \<Rightarrow> x)"

definition scan_webhook :: "hook_row \<Rightarrow> webhook \<times> bytes" where
  "scan_webhook r =
     (\<lparr> wh_id = copy_id (hr_id r), wh_org = copy_id (hr_org r), wh_name = hr_name r, wh_url = hr_url r,
        wh_events = hr_events r, wh_enabled = (hr_enabled r = 1), wh_secret = or_empty (hr_secret r),
        wh_secret_prefix = or_empty (hr_prefix r), wh_verify_tls = (hr_verify_tls r = 1),
        wh_failures = hr_failures r, wh_disabled_at = map_option of_ms (hr_disabled_at r),
        wh_created_at = of_ms (hr_created_at r), wh_updated_at = of_ms (hr_updated_at r),
        wh_last_delivery_at = None, wh_last_outcome = '''' \<rparr>, or_empty (hr_headers r))"

definition row_of_delivery :: "webhook_delivery \<Rightarrow> delivery_row" where
  "row_of_delivery d =
     \<lparr> dr_id = wd_id d, dr_webhook = wd_webhook d, dr_org = wd_org d, dr_event_id = wd_event_id d,
       dr_event_type = wd_event_type d, dr_outcome = wd_outcome d, dr_attempt = wd_attempt d,
       dr_request_body = null_string (wd_request_body d), dr_status = wd_status d,
       dr_response_body = null_string (wd_response_body d), dr_error = null_string (wd_error d),
       dr_duration_ms = wd_duration_ms d, dr_next_retry = map_option ms_of (wd_next_retry d),
       dr_created_at = ms_of (wd_created_at d) \<rparr>"

definition scan_delivery :: "delivery_row \<Rightarrow> webhook_delivery" where
  "scan_delivery r =
     \<lparr> wd_id = copy_id (dr_id r), wd_webhook = copy_id (dr_webhook r), wd_org = copy_id (dr_org r),
       wd_event_id = copy_id (dr_event_id r), wd_event_type = dr_event_type r, wd_outcome = dr_outcome r,
       wd_attempt = dr_attempt r, wd_request_body = or_empty (dr_request_body r), wd_status = dr_status r,
       wd_response_body = or_empty (dr_response_body r), wd_error = or_empty (dr_error r),
       wd_duration_ms = dr_duration_ms r, wd_next_retry = map_option of_ms (dr_next_retry r),
       wd_created_at = of_ms (dr_created_at r) \<rparr>"

section \<open>Operations\<close>

datatype hook_error = Hook_not_found | Hook_database

definition create_webhook :: "hook_db \<Rightarrow> webhook \<Rightarrow> bytes \<Rightarrow> hook_error + hook_db" where
  "create_webhook db h headers =
     (if wh_id h \<in> hr_id ` set (hk_hooks db) then Inl Hook_database
      else Inr (db \<lparr> hk_hooks := hk_hooks db @ [row_of_webhook h headers] \<rparr>))"

text \<open>The secret, its prefix and the creation time are not rewritten.\<close>

definition rewrite_hook :: "webhook \<Rightarrow> bytes \<Rightarrow> hook_row \<Rightarrow> hook_row" where
  "rewrite_hook h headers r = r
     \<lparr> hr_name := wh_name h, hr_url := wh_url h, hr_events := wh_events h, hr_enabled := bool_int (wh_enabled h),
       hr_headers := null_bytes headers, hr_verify_tls := bool_int (wh_verify_tls h), hr_failures := wh_failures h,
       hr_disabled_at := map_option ms_of (wh_disabled_at h), hr_updated_at := ms_of (wh_updated_at h) \<rparr>"

definition update_webhook :: "hook_db \<Rightarrow> webhook \<Rightarrow> bytes \<Rightarrow> hook_error + hook_db" where
  "update_webhook db h headers =
     (if wh_id h \<notin> hr_id ` set (hk_hooks db) then Inl Hook_not_found
      else Inr (db \<lparr> hk_hooks := map (\<lambda>r. if hr_id r = wh_id h then rewrite_hook h headers r else r) (hk_hooks db) \<rparr>))"

text \<open>The latest attempt of a webhook; of several in one millisecond, the first the query returns.\<close>

definition last_delivery :: "delivery_row list \<Rightarrow> ident \<Rightarrow> (int \<times> string) option" where
  "last_delivery ds i =
     (let own = filter (\<lambda>d. dr_webhook d = i) ds in
      if own = [] then None
      else let latest = Max (set (map dr_created_at own)) in
           map_option (\<lambda>d. (dr_created_at d, dr_outcome d)) (find (\<lambda>d. dr_created_at d = latest) own))"

definition load_last_delivery :: "hook_db \<Rightarrow> webhook \<Rightarrow> webhook" where
  "load_last_delivery db h =
     (case last_delivery (hk_deliveries db) (wh_id h) of
        None \<Rightarrow> h
      | Some (ms, outcome) \<Rightarrow> h \<lparr> wh_last_delivery_at := Some (of_ms ms), wh_last_outcome := outcome \<rparr>)"

definition get_webhook :: "hook_db \<Rightarrow> ident \<Rightarrow> hook_error + webhook \<times> bytes" where
  "get_webhook db i =
     (case find (\<lambda>r. hr_id r = i) (hk_hooks db) of
        None \<Rightarrow> Inl Hook_not_found
      | Some r \<Rightarrow> (case scan_webhook r of (h, headers) \<Rightarrow> Inr (load_last_delivery db h, headers)))"

definition hook_key :: "hook_row \<Rightarrow> int \<times> ident" where
  "hook_key r = (hr_updated_at r, hr_id r)"

definition list_hook_rows :: "hook_db \<Rightarrow> (int \<times> ident) option \<Rightarrow> nat \<Rightarrow> hook_row list \<times> bool" where
  "list_hook_rows db cursor limit =
     keyset_page hook_key (filter (\<lambda>r. hr_org r = sentinel_org) (hk_hooks db)) cursor limit"

definition list_webhooks :: "hook_db \<Rightarrow> (int \<times> ident) option \<Rightarrow> nat \<Rightarrow> webhook list \<times> bool" where
  "list_webhooks db cursor limit =
     (case list_hook_rows db cursor limit of
        (rows, again) \<Rightarrow> (map (\<lambda>r. load_last_delivery db (fst (scan_webhook r))) rows, again))"

definition delete_webhook :: "hook_db \<Rightarrow> ident \<Rightarrow> hook_error + hook_db" where
  "delete_webhook db i =
     (if i \<notin> hr_id ` set (hk_hooks db) then Inl Hook_not_found
      else Inr \<lparr> hk_hooks = filter (\<lambda>r. hr_id r \<noteq> i) (hk_hooks db),
                 hk_deliveries = filter (\<lambda>d. dr_webhook d \<noteq> i) (hk_deliveries db) \<rparr>)"

definition enabled_webhooks :: "hook_db \<Rightarrow> (webhook \<times> bytes) list" where
  "enabled_webhooks db =
     map scan_webhook (filter (\<lambda>r. hr_org r = sentinel_org \<and> hr_enabled r = 1 \<and> hr_disabled_at r = None) (hk_hooks db))"

text \<open>The attempt and the counter it moves, in one transaction. The row must name a webhook that is there.\<close>

definition count_outcome :: "nat \<Rightarrow> instant \<Rightarrow> string \<Rightarrow> hook_row \<Rightarrow> hook_row" where
  "count_outcome max_failures at_time outcome r =
     (if outcome = delivery_succeeded then r \<lparr> hr_failures := 0 \<rparr>
      else if outcome = delivery_failed
      then r \<lparr> hr_failures := hr_failures r + 1,
               hr_disabled_at := (if max_failures \<le> hr_failures r + 1 then Some (ms_of at_time) else hr_disabled_at r) \<rparr>
      else r)"

definition record_delivery :: "nat \<Rightarrow> instant \<Rightarrow> hook_db \<Rightarrow> webhook_delivery \<Rightarrow> hook_error + hook_db" where
  "record_delivery max_failures at_time db d =
     (if wd_webhook d \<notin> hr_id ` set (hk_hooks db) \<or> wd_id d \<in> dr_id ` set (hk_deliveries db) \<or>
         wd_outcome d \<notin> {''succeeded'', ''failed'', ''pending''}
      then Inl Hook_database
      else Inr \<lparr> hk_hooks = map (\<lambda>r. if hr_id r = wd_webhook d then count_outcome max_failures at_time (wd_outcome d) r else r)
                   (hk_hooks db),
                 hk_deliveries = hk_deliveries db @ [row_of_delivery d] \<rparr>)"

text \<open>One page of attempts: before an instant alone, newest first.\<close>

definition list_deliveries ::
  "hook_db \<Rightarrow> ident \<Rightarrow> instant option \<Rightarrow> nat \<Rightarrow> string \<Rightarrow> webhook_delivery list \<times> bool" where
  "list_deliveries db i prior limit outcome =
     (let rows = filter (\<lambda>d. dr_webhook d = i \<and> (outcome \<noteq> '''' \<longrightarrow> dr_outcome d = outcome) \<and>
                        (case prior of None \<Rightarrow> True | Some t \<Rightarrow> dr_created_at d < ms_of t)) (hk_deliveries db);
          found = take (limit + 1) (newest_first (\<lambda>d. (dr_created_at d, dr_id d)) rows)
      in (map scan_delivery (take limit found), limit < length found))"

definition get_delivery :: "hook_db \<Rightarrow> ident \<Rightarrow> hook_error + webhook_delivery" where
  "get_delivery db i =
     (case find (\<lambda>d. dr_id d = i) (hk_deliveries db) of
        None \<Rightarrow> Inl Hook_not_found
      | Some d \<Rightarrow> Inr (scan_delivery d))"

section \<open>The tables stay consistent\<close>

definition hook_db_ok :: "hook_db \<Rightarrow> bool" where
  "hook_db_ok db =
     (distinct (map hr_id (hk_hooks db)) \<and> distinct (map dr_id (hk_deliveries db)) \<and>
      (\<forall>d \<in> set (hk_deliveries db). dr_webhook d \<in> hr_id ` set (hk_hooks db)))"

lemma rewrite_hook_id [simp]: "hr_id (rewrite_hook h headers r) = hr_id r"
  by (simp add: rewrite_hook_def)

lemma count_outcome_id [simp]: "hr_id (count_outcome n t outcome r) = hr_id r"
  by (simp add: count_outcome_def)

lemma same_ids_ok:
  assumes "hook_db_ok db" "map hr_id rows = map hr_id (hk_hooks db)"
  shows "hook_db_ok (db \<lparr> hk_hooks := rows \<rparr>)"
proof -
  have "hr_id ` set rows = hr_id ` set (hk_hooks db)" using arg_cong[OF assms(2), of set] by (simp only: set_map)
  moreover have "hk_hooks (db \<lparr> hk_hooks := rows \<rparr>) = rows" "hk_deliveries (db \<lparr> hk_hooks := rows \<rparr>) = hk_deliveries db"
    by simp_all
  ultimately show ?thesis using assms unfolding hook_db_ok_def by (simp only: simp_thms) blast
qed

lemma logged_ok:
  "hook_db_ok db \<Longrightarrow> dr_webhook d \<in> hr_id ` set (hk_hooks db) \<Longrightarrow> dr_id d \<notin> dr_id ` set (hk_deliveries db) \<Longrightarrow>
     hook_db_ok (db \<lparr> hk_deliveries := hk_deliveries db @ [d] \<rparr>)"
  by (auto simp: hook_db_ok_def)

lemma hook_ops_keep_ok:
  assumes "hook_db_ok db"
  shows "create_webhook db h headers = Inr db' \<Longrightarrow> hook_db_ok db'"
    and "update_webhook db h headers = Inr db' \<Longrightarrow> hook_db_ok db'"
    and "delete_webhook db i = Inr db' \<Longrightarrow> hook_db_ok db'"
    and "record_delivery n t db d = Inr db' \<Longrightarrow> hook_db_ok db'"
proof -
  show "hook_db_ok db'" if "create_webhook db h headers = Inr db'"
    using assms that by (auto simp: create_webhook_def hook_db_ok_def row_of_webhook_def split: if_splits)
  show "hook_db_ok db'" if u: "update_webhook db h headers = Inr db'"
  proof -
    have "db' = db \<lparr> hk_hooks := map (\<lambda>r. if hr_id r = wh_id h then rewrite_hook h headers r else r) (hk_hooks db) \<rparr>"
      using u by (simp add: update_webhook_def split: if_splits)
    then show ?thesis using same_ids_ok[OF assms] by simp
  qed
  show "hook_db_ok db'" if "delete_webhook db i = Inr db'"
    using assms that by (fastforce simp: delete_webhook_def hook_db_ok_def distinct_map_filter image_iff split: if_splits)
  show "hook_db_ok db'" if r: "record_delivery n t db d = Inr db'"
  proof -
    let ?db = "db \<lparr> hk_deliveries := hk_deliveries db @ [row_of_delivery d] \<rparr>"
    have "hook_db_ok ?db"
      by (rule logged_ok[OF assms]) (use r in \<open>auto simp: record_delivery_def row_of_delivery_def split: if_splits\<close>)
    moreover have "db' = ?db \<lparr> hk_hooks := map (\<lambda>r. if hr_id r = wd_webhook d then count_outcome n t (wd_outcome d) r else r) (hk_hooks db) \<rparr>"
      using r by (cases db) (auto simp: record_delivery_def split: if_splits)
    ultimately show ?thesis using same_ids_ok[of ?db] by simp
  qed
qed

definition own_rows :: "hook_db \<Rightarrow> hook_row list" where
  "own_rows db = filter (\<lambda>r. hr_org r = sentinel_org) (hk_hooks db)"

interpretation hook_pages: listing list_hook_rows hook_key own_rows hook_db_ok
proof
  show "distinct (map hook_key (own_rows db))" if "hook_db_ok db" for db
  proof -
    have "distinct (map hr_id (own_rows db))" using that by (simp add: hook_db_ok_def own_rows_def distinct_map_filter)
    then show ?thesis by (auto simp: distinct_map inj_on_def hook_key_def)
  qed
qed (simp_all add: list_hook_rows_def keyset_page_parts own_rows_def)

section \<open>Switching itself off\<close>

text \<open>The trailing run of failures, and whether some run reached the bound.\<close>

fun trailing_failures :: "nat \<Rightarrow> bool list \<Rightarrow> nat" where
  "trailing_failures n [] = n"
| "trailing_failures n (failed # rest) = trailing_failures (if failed then n + 1 else 0) rest"

fun run_reaches :: "nat \<Rightarrow> nat \<Rightarrow> bool list \<Rightarrow> bool" where
  "run_reaches bound n [] = False"
| "run_reaches bound n (failed # rest) =
     ((failed \<and> bound \<le> n + 1) \<or> run_reaches bound (if failed then n + 1 else 0) rest)"

fun record_all :: "nat \<Rightarrow> (instant \<times> webhook_delivery) list \<Rightarrow> hook_db \<Rightarrow> hook_error + hook_db" where
  "record_all n [] db = Inr db"
| "record_all n ((t, d) # entries) db = and_then (record_delivery n t db d) (record_all n entries)"

definition own_failures :: "ident \<Rightarrow> (instant \<times> webhook_delivery) list \<Rightarrow> bool list" where
  "own_failures i entries = map (\<lambda>(t, d). wd_outcome d = delivery_failed) (filter (\<lambda>(t, d). wd_webhook d = i) entries)"

lemma count_outcome_step:
  assumes "oc = delivery_succeeded \<or> oc = delivery_failed"
  shows "hr_failures (count_outcome n t oc r) = (if oc = delivery_failed then hr_failures r + 1 else 0)"
    "(hr_disabled_at (count_outcome n t oc r) \<noteq> None) =
       (hr_disabled_at r \<noteq> None \<or> (oc = delivery_failed \<and> n \<le> hr_failures r + 1))"
proof -
  have "delivery_succeeded \<noteq> delivery_failed" by (simp add: delivery_succeeded_def delivery_failed_def)
  with assms show "hr_failures (count_outcome n t oc r) = (if oc = delivery_failed then hr_failures r + 1 else 0)"
    "(hr_disabled_at (count_outcome n t oc r) \<noteq> None) =
       (hr_disabled_at r \<noteq> None \<or> (oc = delivery_failed \<and> n \<le> hr_failures r + 1))"
    by (auto simp: count_outcome_def)
qed

lemma record_all_row:
  assumes "record_all n entries db = Inr db'" "r \<in> set (hk_hooks db)"
    and "\<forall>(t, d) \<in> set entries. wd_outcome d = delivery_succeeded \<or> wd_outcome d = delivery_failed"
  shows "\<exists>r' \<in> set (hk_hooks db'). hr_id r' = hr_id r \<and> hr_enabled r' = hr_enabled r \<and>
    hr_failures r' = trailing_failures (hr_failures r) (own_failures (hr_id r) entries) \<and>
    (hr_disabled_at r' \<noteq> None) = (hr_disabled_at r \<noteq> None \<or> run_reaches n (hr_failures r) (own_failures (hr_id r) entries))"
  using assms
proof (induction entries arbitrary: db r)
  case Nil
  then show ?case by (auto simp: own_failures_def)
next
  case (Cons e entries)
  obtain t d where e: "e = (t, d)" by fastforce
  obtain db1 where db1: "record_delivery n t db d = Inr db1" "record_all n entries db1 = Inr db'"
    using Cons.prems(1) by (auto simp: e and_then_Inr)
  let ?r = "if hr_id r = wd_webhook d then count_outcome n t (wd_outcome d) r else r"
  have r: "?r \<in> set (hk_hooks db1)"
    using db1(1) Cons.prems(2) by (auto simp: record_delivery_def split: if_splits)
  have o: "wd_outcome d = delivery_succeeded \<or> wd_outcome d = delivery_failed"
    "\<forall>(t, d) \<in> set entries. wd_outcome d = delivery_succeeded \<or> wd_outcome d = delivery_failed"
    using Cons.prems(3) by (simp_all add: e)
  have en: "hr_enabled ?r = hr_enabled r" "hr_id ?r = hr_id r" by (simp_all add: count_outcome_def)
  from Cons.IH[OF db1(2) r o(2)] show ?case
    using count_outcome_step[OF o(1), of n t r] unfolding en
    by (cases "hr_id r = wd_webhook d") (auto simp: e own_failures_def)
qed

text \<open>A subscription switches itself off exactly when it should: after any attempts, its own and others'
  interleaved, its counter is the length of its trailing run of failures, and it is disabled, and
  so no longer dispatched to, if and only if some run of its failures reached the bound.\<close>

theorem webhook_switches_itself_off:
  assumes "record_all n entries db = Inr db'" "r \<in> set (hk_hooks db)" "hr_failures r = 0" "hr_disabled_at r = None"
    and "\<forall>(t, d) \<in> set entries. wd_outcome d = delivery_succeeded \<or> wd_outcome d = delivery_failed"
  shows "\<exists>r' \<in> set (hk_hooks db'). hr_id r' = hr_id r \<and>
    hr_failures r' = trailing_failures 0 (own_failures (hr_id r) entries) \<and>
    (hr_disabled_at r' \<noteq> None) = run_reaches n 0 (own_failures (hr_id r) entries)"
  using record_all_row[OF assms(1,2,5)] assms(3,4) by auto

definition sample_hook_row :: hook_row where
  "sample_hook_row =
     \<lparr> hr_id = [1], hr_org = [0], hr_name = ''w'', hr_url = ''u'', hr_events = [], hr_enabled = 1, hr_headers = None,
       hr_secret = None, hr_prefix = None, hr_verify_tls = 1, hr_failures = 0, hr_disabled_at = None,
       hr_created_at = 0, hr_updated_at = 0 \<rparr>"

definition sample_delivery :: "8 word \<Rightarrow> instant \<Rightarrow> webhook_delivery" where
  "sample_delivery i t =
     \<lparr> wd_id = copy_id [i], wd_webhook = [1], wd_org = [0], wd_event_id = [5], wd_event_type = ''monitor.down'',
       wd_outcome = delivery_failed, wd_attempt = 1, wd_request_body = ''x'', wd_status = None, wd_response_body = '''',
       wd_error = ''e'', wd_duration_ms = None, wd_next_retry = None, wd_created_at = t \<rparr>"

definition two_failures :: "(instant \<times> webhook_delivery) list" where
  "two_failures = [(0, sample_delivery 1 0), (0, sample_delivery 2 0)]"

definition logged :: "(instant \<times> webhook_delivery) list \<Rightarrow> hook_db" where
  "logged entries = projr (record_all 2 entries \<lparr> hk_hooks = [sample_hook_row], hk_deliveries = [] \<rparr>)"

lemma logged_two:
  "record_all 2 two_failures \<lparr> hk_hooks = [sample_hook_row], hk_deliveries = [] \<rparr> = Inr (logged two_failures)"
  by (simp add: logged_def two_failures_def record_delivery_def sample_hook_row_def sample_delivery_def delivery_failed_def
      row_of_delivery_def copy_id_def)

theorem webhook_switches_itself_off_witness:
  "\<exists>r' \<in> set (hk_hooks (logged two_failures)). hr_id r' = [1] \<and> hr_disabled_at r' \<noteq> None"
proof -
  have f: "own_failures [1] two_failures = [True, True]"
    by (simp add: own_failures_def two_failures_def sample_delivery_def)
  have "\<forall>(t, d) \<in> set two_failures. wd_outcome d = delivery_succeeded \<or> wd_outcome d = delivery_failed"
    by (simp add: two_failures_def sample_delivery_def)
  from webhook_switches_itself_off[OF logged_two _ _ _ this, of sample_hook_row] show ?thesis
    by (auto simp: f sample_hook_row_def)
qed

section \<open>Pages\<close>

text \<open>Following the cursors of the subscription list, a client sees every subscription of the
  organisation exactly once, newest first, whatever the size of its pages.\<close>

lemma webhook_pages_cover:
  "hook_db_ok db \<Longrightarrow> 0 < limit \<Longrightarrow> length (own_rows db) \<le> n * limit \<Longrightarrow>
     hook_pages.follow db n limit None = newest_first hook_key (own_rows db)"
  by (rule hook_pages.follow_all)

text \<open>The pages of the delivery log skip attempts. They go on from the last row's time alone, to the
  millisecond: an attempt that shares it with the last row of a page but is not on the page is on
  no page after it either.\<close>

theorem delivery_pages_skip_ties:
  assumes "d \<in> set (hk_deliveries db)" "dr_webhook d = i"
    and "list_deliveries db i None limit '''' = (page, True)" "scan_delivery d \<notin> set page"
    and "of_ms (dr_created_at d) = wd_created_at (last page)"
  shows "scan_delivery d \<notin> set page \<union> set (fst (list_deliveries db i (Some (wd_created_at (last page))) n ''''))"
proof -
  let ?t = "wd_created_at (last page)"
  have "x \<noteq> scan_delivery d" if "x \<in> set (fst (list_deliveries db i (Some ?t) n ''''))" for x
  proof -
    note x = that
    obtain r where r: "x = scan_delivery r" "dr_created_at r < ms_of ?t"
      using x by (auto simp: list_deliveries_def Let_def split: if_splits dest!: in_set_takeD)
    have "dr_created_at r \<noteq> dr_created_at d" using r(2) unfolding assms(5)[symmetric] by (simp add: ms_of_def of_ms_def)
    then show ?thesis unfolding r(1) by (auto simp: scan_delivery_def of_ms_def)
  qed
  with assms(4) show ?thesis by blast
qed

theorem delivery_pages_skip_ties_witness:
  "scan_delivery (row_of_delivery (sample_delivery 1 0)) \<notin>
     set (fst (list_deliveries (logged two_failures) [1] None 1 '''')) \<union>
     set (fst (list_deliveries (logged two_failures) [1] (Some 0) 5 ''''))"
proof -
  have l: "hk_deliveries (logged two_failures) = [row_of_delivery (sample_delivery 1 0), row_of_delivery (sample_delivery 2 0)]"
    by (simp add: logged_def two_failures_def record_delivery_def sample_hook_row_def sample_delivery_def delivery_failed_def
      row_of_delivery_def copy_id_def)
  have p: "list_deliveries (logged two_failures) [1] None 1 '''' = ([scan_delivery (row_of_delivery (sample_delivery 2 0))], True)"
    by (simp add: list_deliveries_def l newest_first_def row_of_delivery_def sample_delivery_def ms_of_def copy_id_def)
  have n: "scan_delivery (row_of_delivery (sample_delivery 1 0)) \<notin> set [scan_delivery (row_of_delivery (sample_delivery 2 0))]"
    by (simp add: scan_delivery_def row_of_delivery_def sample_delivery_def copy_id_def)
  have t: "wd_created_at (last [scan_delivery (row_of_delivery (sample_delivery 2 0))]) = 0"
    "of_ms (dr_created_at (row_of_delivery (sample_delivery 1 0))) = wd_created_at (last [scan_delivery (row_of_delivery (sample_delivery 2 0))])"
    by (simp_all add: scan_delivery_def row_of_delivery_def sample_delivery_def ms_of_def of_ms_def)
  have "row_of_delivery (sample_delivery 1 0) \<in> set (hk_deliveries (logged two_failures))"
    "dr_webhook (row_of_delivery (sample_delivery 1 0)) = [1]"
    by (simp_all add: l row_of_delivery_def sample_delivery_def copy_id_def)
  from delivery_pages_skip_ties[OF this p n t(2), of 5] show ?thesis
    unfolding t(1) p by simp
qed

end
