(* ===== verification/Outbound.thy ===== *)
theory Outbound
  imports Webhooks Ident
begin

text \<open>
  The webhook dispatcher (\<open>internal/outbound/outbound.go\<close>): fanning an event out to the
  subscriptions that want it, one delivery attempt, the retry it is owed, and redelivery. The
  HTTP exchange, the vault, HMAC and the JSON of the sealed headers are parameters; the body is
  the rendered envelope.
\<close>

section \<open>Bounds and headers\<close>

definition queue_depth :: nat where "queue_depth = 4096"
definition max_attempts :: nat where "max_attempts = 5"
definition max_failures :: nat where "max_failures = 10"
definition max_response_body :: nat where "max_response_body = 2048"

definition signature_header :: string where "signature_header = ''X-Cairn-Signature''"
definition event_id_header :: string where "event_id_header = ''X-Cairn-Event-Id''"
definition event_type_header :: string where "event_type_header = ''X-Cairn-Event''"
definition delivery_header :: string where "delivery_header = ''X-Cairn-Delivery-Id''"
definition timestamp_header :: string where "timestamp_header = ''X-Cairn-Timestamp''"

text \<open>The names of headers are canonical: each word capitalised, unless a character is not a token's.\<close>

definition is_lower :: "char \<Rightarrow> bool" where "is_lower c = (97 \<le> code_of c \<and> code_of c \<le> 122)"
definition is_upper :: "char \<Rightarrow> bool" where "is_upper c = (65 \<le> code_of c \<and> code_of c \<le> 90)"

definition token_char :: "char \<Rightarrow> bool" where
  "token_char c = (is_lower c \<or> is_upper c \<or> is_digit c \<or>
     code_of c \<in> {33, 35, 36, 37, 38, 39, 42, 43, 45, 46, 94, 95, 96, 124, 126})"

definition shift_char :: "int \<Rightarrow> char \<Rightarrow> char" where
  "shift_char d c = char_of (nat (code_of c + d))"

fun capitalise :: "bool \<Rightarrow> string \<Rightarrow> string" where
  "capitalise start [] = []"
| "capitalise start (c # cs) =
     (if start \<and> is_lower c then shift_char (- 32) c else if \<not> start \<and> is_upper c then shift_char 32 c else c)
     # capitalise (c = CHR ''-'') cs"

definition canonical_header :: "string \<Rightarrow> string" where
  "canonical_header name = (if list_all token_char name then capitalise True name else name)"

definition header_set :: "string \<Rightarrow> string \<Rightarrow> (string \<rightharpoonup> string) \<Rightarrow> (string \<rightharpoonup> string)" where
  "header_set name v hs = hs(canonical_header name \<mapsto> v)"

section \<open>Jobs and the dispatcher\<close>

record job =
  jb_hook :: webhook
  jb_headers :: "(string \<times> string) list"
  jb_event_id :: ident
  jb_event :: string
  jb_body :: string
  jb_attempt :: nat

record hook_dispatcher =
  hd_queue :: "job list"
  hd_timers :: "(instant \<times> job) list"
  hd_dropped :: nat
  hd_db :: hook_db

record vault =
  va_open :: "ident \<Rightarrow> ident \<Rightarrow> bytes \<Rightarrow> bytes option"
  va_parse_headers :: "bytes \<Rightarrow> (string \<times> string) list option"

definition open_headers :: "vault \<Rightarrow> webhook \<Rightarrow> bytes \<Rightarrow> (string \<times> string) list option" where
  "open_headers v h sealed =
     (if sealed = [] then Some []
      else case va_open v (wh_org h) (wh_id h) sealed of
             None \<Rightarrow> None
           | Some plain \<Rightarrow> va_parse_headers v plain)"

definition open_secret :: "vault \<Rightarrow> webhook \<Rightarrow> bytes option" where
  "open_secret v h = (if wh_secret h = [] then Some [] else va_open v (wh_org h) (wh_id h) (wh_secret h))"

definition enqueue :: "job \<Rightarrow> hook_dispatcher \<Rightarrow> hook_dispatcher" where
  "enqueue j d =
     (if length (hd_queue d) < queue_depth then d \<lparr> hd_queue := hd_queue d @ [j] \<rparr>
      else d \<lparr> hd_dropped := hd_dropped d + 1 \<rparr>)"

text \<open>One event to every subscription that wants it, with one body for all; \<open>body\<close> is nothing if it cannot be rendered.\<close>

fun fan_out_hooks ::
  "vault \<Rightarrow> ident \<Rightarrow> string \<Rightarrow> string option \<Rightarrow> (webhook \<times> bytes) list \<Rightarrow> hook_dispatcher \<Rightarrow> hook_dispatcher" where
  "fan_out_hooks v event_id event body [] d = d"
| "fan_out_hooks v event_id event body ((h, sealed) # hooks) d =
     (if \<not> webhook_wants h event then fan_out_hooks v event_id event body hooks d
      else case body of
             None \<Rightarrow> d
           | Some b \<Rightarrow>
               (case open_headers v h sealed of
                  None \<Rightarrow> fan_out_hooks v event_id event body hooks d
                | Some headers \<Rightarrow>
                    fan_out_hooks v event_id event body hooks
                      (enqueue \<lparr> jb_hook = h, jb_headers = headers, jb_event_id = event_id, jb_event = event,
                                 jb_body = b, jb_attempt = 1 \<rparr> d)))"

definition fan_out :: "vault \<Rightarrow> ident \<Rightarrow> string \<Rightarrow> string option \<Rightarrow> hook_dispatcher \<Rightarrow> hook_dispatcher" where
  "fan_out v event_id event body d = fan_out_hooks v event_id event body (enabled_webhooks (hd_db d)) d"

section \<open>One attempt\<close>

record http_request =
  rq_url :: string
  rq_headers :: "string \<rightharpoonup> string"
  rq_body :: string
  rq_verify :: bool

datatype http_result =
  Http_failed string
| Http_response int string string \<comment> \<open>the status, its text, the body\<close>

definition sign :: "(bytes \<Rightarrow> string \<Rightarrow> bytes) \<Rightarrow> bytes \<Rightarrow> string \<Rightarrow> string" where
  "sign hmac secret body = ''sha256='' @ hex_encode (hmac secret body)"

text \<open>The operator's headers first, then the reserved ones over them, then the signature if there is a secret.\<close>

definition build_request ::
  "vault \<Rightarrow> (bytes \<Rightarrow> string \<Rightarrow> bytes) \<Rightarrow> string \<Rightarrow> ident \<Rightarrow> instant \<Rightarrow> job \<Rightarrow> http_request" where
  "build_request v hmac version delivery_id now j =
     (let operator = fold (\<lambda>(name, x). header_set name x) (jb_headers j) Map.empty;
          reserved = header_set timestamp_header (itoa (unix_sec now))
            (header_set delivery_header (id_string delivery_id)
            (header_set event_type_header (jb_event j)
            (header_set event_id_header (id_string (jb_event_id j))
            (header_set ''User-Agent'' (''uptime-cairn/'' @ version)
            (header_set ''Content-Type'' ''application/json'' operator)))));
          signed = (case open_secret v (jb_hook j) of
                      None \<Rightarrow> reserved
                    | Some secret \<Rightarrow>
                        if secret = [] then reserved
                        else header_set signature_header (sign hmac secret (jb_body j)) reserved)
      in \<lparr> rq_url = wh_url (jb_hook j), rq_headers = signed, rq_body = jb_body j, rq_verify = wh_verify_tls (jb_hook j) \<rparr>)"

text \<open>
  The record of an attempt. \<open>unbuildable\<close> is the error of a request that cannot be built, such
  as one to a malformed URL; \<open>elapsed\<close> is how long the exchange took.
\<close>

definition send ::
  "ident \<Rightarrow> instant \<Rightarrow> string option \<Rightarrow> http_result \<Rightarrow> duration \<Rightarrow> job \<Rightarrow> webhook_delivery" where
  "send delivery_id now unbuildable http elapsed j =
     (let d = \<lparr> wd_id = delivery_id, wd_webhook = wh_id (jb_hook j), wd_org = wh_org (jb_hook j),
                wd_event_id = jb_event_id j, wd_event_type = jb_event j, wd_outcome = delivery_failed,
                wd_attempt = jb_attempt j, wd_request_body = jb_body j, wd_status = None,
                wd_response_body = '''', wd_error = '''', wd_duration_ms = None, wd_next_retry = None,
                wd_created_at = now \<rparr>
      in case unbuildable of
           Some err \<Rightarrow> d \<lparr> wd_error := err \<rparr>
         | None \<Rightarrow>
             let timed = d \<lparr> wd_duration_ms := Some (float_div (float_of_int (go_div elapsed 1000)) 1000) \<rparr>
             in case http of
                  Http_failed err \<Rightarrow> timed \<lparr> wd_error := err \<rparr>
                | Http_response st status_text body \<Rightarrow>
                    let answered = timed \<lparr> wd_status := Some st, wd_response_body := take max_response_body body \<rparr>
                    in if 200 \<le> st \<and> st < 300 then answered \<lparr> wd_outcome := delivery_succeeded \<rparr>
                       else answered \<lparr> wd_error := ''receiver returned '' @ status_text \<rparr>)"

text \<open>1, 4, 16, 64 seconds, and two minutes at most.\<close>

definition webhook_backoff :: "nat \<Rightarrow> duration" where
  "webhook_backoff attempt = min ((((*) 4) ^^ (attempt - 1)) second) (2 * minute)"

definition owed_retry :: "job \<Rightarrow> webhook_delivery \<Rightarrow> webhook_delivery" where
  "owed_retry j d =
     (if wd_outcome d = delivery_failed \<and> jb_attempt j < max_attempts
      then d \<lparr> wd_next_retry := Some (wd_created_at d + webhook_backoff (jb_attempt j)) \<rparr>
      else d)"

text \<open>An attempt that cannot be recorded is logged and otherwise goes on as if it had been.\<close>

definition attempt ::
  "ident \<Rightarrow> instant \<Rightarrow> instant \<Rightarrow> string option \<Rightarrow> http_result \<Rightarrow> duration \<Rightarrow> job \<Rightarrow> hook_dispatcher \<Rightarrow> hook_dispatcher" where
  "attempt delivery_id now later unbuildable http elapsed j d =
     (let dl = owed_retry j (send delivery_id now unbuildable http elapsed j);
          db = (case record_delivery max_failures later (hd_db d) dl of Inl e \<Rightarrow> hd_db d | Inr db' \<Rightarrow> db')
      in d \<lparr> hd_db := db,
             hd_timers := (case wd_next_retry dl of
                             None \<Rightarrow> hd_timers d
                           | Some due \<Rightarrow> hd_timers d @ [(due, j \<lparr> jb_attempt := jb_attempt j + 1 \<rparr>)]) \<rparr>)"

text \<open>A retry whose time has come goes to the back of the queue, if there is room.\<close>

definition timer_fires :: "nat \<Rightarrow> hook_dispatcher \<Rightarrow> hook_dispatcher" where
  "timer_fires i d =
     (if i < length (hd_timers d)
      then enqueue (snd (hd_timers d ! i)) (d \<lparr> hd_timers := take i (hd_timers d) @ drop (Suc i) (hd_timers d) \<rparr>)
      else d)"

definition redeliver ::
  "vault \<Rightarrow> ident \<Rightarrow> instant \<Rightarrow> instant \<Rightarrow> string option \<Rightarrow> http_result \<Rightarrow> duration \<Rightarrow>
     hook_db \<Rightarrow> webhook \<Rightarrow> bytes \<Rightarrow> webhook_delivery \<Rightarrow> hook_error + hook_db \<times> webhook_delivery" where
  "redeliver v delivery_id now later unbuildable http elapsed db h sealed old =
     (case open_headers v h sealed of
        None \<Rightarrow> Inl Hook_database
      | Some headers \<Rightarrow>
          let j = \<lparr> jb_hook = h, jb_headers = headers, jb_event_id = wd_event_id old, jb_event = wd_event_type old,
                    jb_body = wd_request_body old, jb_attempt = wd_attempt old + 1 \<rparr>;
              dl = send delivery_id now unbuildable http elapsed j
          in case record_delivery max_failures later db dl of
               Inl e \<Rightarrow> Inl e
             | Inr db' \<Rightarrow> Inr (db', dl))"

section \<open>The reserved headers win\<close>

lemmas char_classes = token_char_def is_lower_def is_upper_def is_digit_def code_of_def

lemma canonical_reserved [simp]:
  "canonical_header signature_header = signature_header"
  "canonical_header event_id_header = event_id_header"
  "canonical_header event_type_header = event_type_header"
  "canonical_header delivery_header = delivery_header"
  "canonical_header timestamp_header = timestamp_header"
  "canonical_header ''User-Agent'' = ''User-Agent''"
  "canonical_header ''Content-Type'' = ''Content-Type''"
  by (simp_all add: canonical_header_def char_classes signature_header_def event_id_header_def event_type_header_def
      delivery_header_def timestamp_header_def)

lemma reserved_distinct:
  "signature_header \<noteq> event_id_header" "signature_header \<noteq> event_type_header" "signature_header \<noteq> delivery_header"
  "signature_header \<noteq> timestamp_header" "event_id_header \<noteq> event_type_header" "event_id_header \<noteq> delivery_header"
  "event_id_header \<noteq> timestamp_header" "event_type_header \<noteq> delivery_header" "event_type_header \<noteq> timestamp_header"
  "delivery_header \<noteq> timestamp_header"
  by (simp_all add: signature_header_def event_id_header_def event_type_header_def delivery_header_def timestamp_header_def)

lemma reserved_plain:
  "x \<in> {signature_header, event_id_header, event_type_header, delivery_header, timestamp_header} \<Longrightarrow>
     x \<noteq> ''User-Agent'' \<and> x \<noteq> ''Content-Type''"
  by (auto simp: signature_header_def event_id_header_def event_type_header_def delivery_header_def timestamp_header_def)

text \<open>C29: Whatever headers the operator configured, in whatever spelling, a delivery carries the event's own
  id and type, its own delivery id and time, and, with a secret, the signature of exactly the body
  that is sent: what a receiver deduplicates on and verifies cannot be replaced.\<close>

theorem reserved_headers_win:
  assumes "open_secret v (jb_hook j) = Some secret" "secret \<noteq> []"
  shows "rq_headers (build_request v hmac version i now j) event_id_header = Some (id_string (jb_event_id j)) \<and>
    rq_headers (build_request v hmac version i now j) event_type_header = Some (jb_event j) \<and>
    rq_headers (build_request v hmac version i now j) delivery_header = Some (id_string i) \<and>
    rq_headers (build_request v hmac version i now j) timestamp_header = Some (itoa (unix_sec now)) \<and>
    rq_headers (build_request v hmac version i now j) signature_header =
      Some (sign hmac secret (rq_body (build_request v hmac version i now j)))"
  using assms by (simp add: build_request_def Let_def header_set_def reserved_distinct reserved_distinct[symmetric])

definition sample_hook :: webhook where
  "sample_hook =
     \<lparr> wh_id = [1], wh_org = [0], wh_name = ''w'', wh_url = ''http://r'', wh_events = [], wh_enabled = True,
       wh_secret = [7], wh_secret_prefix = ''w'', wh_verify_tls = True, wh_failures = 0, wh_disabled_at = None,
       wh_created_at = 0, wh_updated_at = 0, wh_last_delivery_at = None, wh_last_outcome = '''' \<rparr>"

definition sample_job :: job where
  "sample_job =
     \<lparr> jb_hook = sample_hook, jb_headers = [(''x-cairn-event-id'', ''forged''), (''Authorization'', ''k'')],
       jb_event_id = [9], jb_event = ''monitor.down'', jb_body = ''{}'', jb_attempt = 1 \<rparr>"

definition open_vault :: vault where
  "open_vault = \<lparr> va_open = (\<lambda>org i sealed. Some sealed), va_parse_headers = (\<lambda>plain. Some []) \<rparr>"

theorem reserved_headers_win_witness:
  "rq_headers (build_request open_vault (\<lambda>k b. k) ''1'' [3] 0 sample_job) event_id_header = Some (id_string [9])"
  using reserved_headers_win[of open_vault sample_job "[7]" "\<lambda>k b. k" "''1''" "[3]" 0]
  by (simp add: open_secret_def sample_job_def sample_hook_def open_vault_def)

section \<open>The attempts of one delivery\<close>

record exchange =
  xc_id :: ident
  xc_now :: instant
  xc_unbuildable :: "string option"
  xc_http :: http_result
  xc_elapsed :: duration

definition send_exchange :: "job \<Rightarrow> exchange \<Rightarrow> webhook_delivery" where
  "send_exchange j x = owed_retry j (send (xc_id x) (xc_now x) (xc_unbuildable x) (xc_http x) (xc_elapsed x) j)"

text \<open>The attempts a job makes, one exchange each, for as long as a retry is owed.\<close>

fun attempts_of :: "job \<Rightarrow> exchange list \<Rightarrow> webhook_delivery list" where
  "attempts_of j [] = []"
| "attempts_of j (x # xs) =
     (let d = send_exchange j x in
      d # (case wd_next_retry d of None \<Rightarrow> [] | Some due \<Rightarrow> attempts_of (j \<lparr> jb_attempt := jb_attempt j + 1 \<rparr>) xs))"

lemma send_fields [simp]:
  "wd_event_id (send_exchange j x) = jb_event_id j" "wd_request_body (send_exchange j x) = jb_body j"
  "wd_attempt (send_exchange j x) = jb_attempt j" "wd_webhook (send_exchange j x) = wh_id (jb_hook j)"
  by (auto simp: send_exchange_def owed_retry_def send_def Let_def split: option.splits http_result.splits)

lemma send_outcomes: "wd_outcome (send_exchange j x) = delivery_succeeded \<or> wd_outcome (send_exchange j x) = delivery_failed"
  by (auto simp: send_exchange_def owed_retry_def send_def Let_def split: option.splits http_result.splits)

lemma retry_owed: "wd_next_retry (send_exchange j x) \<noteq> None \<longleftrightarrow>
    wd_outcome (send_exchange j x) = delivery_failed \<and> jb_attempt j < max_attempts"
  by (auto simp: send_exchange_def owed_retry_def send_def Let_def delivery_failed_def delivery_succeeded_def
      split: option.splits http_result.splits if_splits)

lemma attempts_of_job:
  assumes "ds = attempts_of j xs" "jb_attempt j \<le> max_attempts" "max_attempts - jb_attempt j < length xs"
  shows "map wd_attempt ds = [jb_attempt j..<jb_attempt j + length ds] \<and> ds \<noteq> [] \<and>
    length ds \<le> Suc (max_attempts - jb_attempt j) \<and>
    (\<forall>d \<in> set ds. wd_event_id d = jb_event_id j \<and> wd_request_body d = jb_body j) \<and>
    (\<forall>d \<in> set (butlast ds). wd_outcome d = delivery_failed) \<and>
    (wd_outcome (last ds) = delivery_succeeded \<or> length ds = Suc (max_attempts - jb_attempt j))"
  using assms
proof (induction xs arbitrary: j ds)
  case (Cons x xs)
  let ?d = "send_exchange j x" and ?j = "j \<lparr> jb_attempt := jb_attempt j + 1 \<rparr>"
  show ?case
  proof (cases "wd_next_retry ?d")
    case None
    with retry_owed[of j x] send_outcomes[of j x] Cons.prems show ?thesis
      by (auto simp: Let_def)
  next
    case (Some due)
    then have o: "wd_outcome ?d = delivery_failed" "jb_attempt j < max_attempts" using retry_owed[of j x] by auto
    define ds' where "ds' = attempts_of ?j xs"
    have l: "max_attempts - jb_attempt ?j < length xs" "jb_attempt ?j \<le> max_attempts" using o(2) Cons.prems(3) by auto
    note h = Cons.IH[OF ds'_def l(2,1)]
    have ds: "ds = ?d # ds'" using Cons.prems(1) Some by (simp add: ds'_def Let_def)
    obtain n where n: "length ds' = Suc n" using h by (cases ds') auto
    have "[jb_attempt j..<jb_attempt j + length ds] = jb_attempt j # [jb_attempt ?j..<jb_attempt ?j + length ds']"
      by (subst upt_conv_Cons) (simp_all add: ds)
    moreover have "Suc (max_attempts - jb_attempt ?j) = max_attempts - jb_attempt j" using o(2) by simp
    ultimately show ?thesis using h o(1) by (auto simp: ds)
  qed
qed simp

text \<open>Two events that a receiver misses switch a subscription off: their ten attempts are over in
  eighty-five seconds of waiting, not the hour the bound is said to be.\<close>

lemma backoff_of_five: "webhook_backoff 1 + webhook_backoff 2 + webhook_backoff 3 + webhook_backoff 4 = 85 * second"
  by (simp add: webhook_backoff_def duration_units numeral_eq_Suc)

lemma ten_failures_disable: "run_reaches max_failures 0 (replicate (2 * max_attempts) True)"
  by (simp add: max_failures_def max_attempts_def numeral_eq_Suc)

end
