(* ===== verification/Json.thy ===== *)
theory Json
  imports GoStrings "HOL-Library.Finite_Map" "HOL-Library.Sublist"
begin

text \<open>
  JSON documents as \<open>encoding/json\<close> decodes them into \<open>map[string]any\<close>, and the dotted paths into
  them (\<open>internal/model/config.go\<close>). A raw message stands as the value its text denotes. What a
  path sees of a value, \<open>look\<close>, determines the value; the proofs about reading, putting and
  taking go through it.
\<close>

section \<open>Values\<close>

datatype json =
  JNull
| JBool bool
| JNum rat
| JStr string
| JArr "json list"
| JObj "(string, json) fmap"

datatype raw_message = Raw_empty | Raw_invalid | Raw json

type_synonym json_object = "(string, json) fmap"

definition decode_object :: "raw_message \<Rightarrow> json_object option" where
  "decode_object r =
     (case r of
        Raw_empty \<Rightarrow> Some fmempty
      | Raw_invalid \<Rightarrow> None
      | Raw v \<Rightarrow> (case v of JObj m \<Rightarrow> Some m | JNull \<Rightarrow> Some fmempty | _ \<Rightarrow> None))"

definition segments :: "string \<Rightarrow> string list" where
  "segments path = split_on (CHR ''.'') path"

lemma decode_object_simps [simp]:
  "decode_object Raw_empty = Some fmempty" "decode_object Raw_invalid = None"
  "decode_object (Raw (JObj m)) = Some m" "decode_object (Raw JNull) = Some fmempty"
  by (simp_all add: decode_object_def)

lemma segments_nonempty [simp]: "segments path \<noteq> []"
  by (simp add: segments_def split_on_nonempty)

section \<open>Paths\<close>

text \<open>A null, like a value that is not there, is not a value.\<close>

fun read_path :: "json_object \<Rightarrow> string list \<Rightarrow> json option" where
  "read_path m [] = None"
| "read_path m (s # rest) =
     (case fmlookup m s of
        None \<Rightarrow> None
      | Some v \<Rightarrow>
          (case v of
             JNull \<Rightarrow> None
           | JObj sub \<Rightarrow> if rest = [] then Some v else read_path sub rest
           | _ \<Rightarrow> if rest = [] then Some v else None))"

fun drop_path :: "json_object \<Rightarrow> string list \<Rightarrow> json_object" where
  "drop_path m [] = m"
| "drop_path m [s] = fmdrop s m"
| "drop_path m (s # rest) =
     (case fmlookup m s of Some (JObj sub) \<Rightarrow> fmupd s (JObj (drop_path sub rest)) m | _ \<Rightarrow> m)"

definition take_path :: "json_object \<Rightarrow> string list \<Rightarrow> json_object \<times> json option" where
  "take_path m p = (case read_path m p of None \<Rightarrow> (m, None) | Some v \<Rightarrow> (drop_path m p, Some v))"

definition sub_object :: "json_object \<Rightarrow> string \<Rightarrow> json_object" where
  "sub_object m s = (case fmlookup m s of Some (JObj sub) \<Rightarrow> sub | _ \<Rightarrow> fmempty)"

fun put_path :: "json_object \<Rightarrow> string list \<Rightarrow> json \<Rightarrow> json_object" where
  "put_path m [] v = m"
| "put_path m [s] v = fmupd s v m"
| "put_path m (s # rest) v =
     fmupd s (JObj (put_path (sub_object m s) rest v)) m"

text \<open>A deep merge: where both hold an object it recurs, anywhere else the source's value replaces.\<close>

primrec merge_value :: "json \<Rightarrow> json option \<Rightarrow> json" where
  "merge_value JNull = (\<lambda>d. JNull)"
| "merge_value (JBool b) = (\<lambda>d. JBool b)"
| "merge_value (JNum q) = (\<lambda>d. JNum q)"
| "merge_value (JStr s) = (\<lambda>d. JStr s)"
| "merge_value (JArr xs) = (\<lambda>d. JArr xs)"
| "merge_value (JObj m) =
     (\<lambda>d. case d of
            Some (JObj e) \<Rightarrow> JObj (e ++\<^sub>f fmmap_keys (\<lambda>k f. f (fmlookup e k)) (fmmap merge_value m))
          | _ \<Rightarrow> JObj m)"

definition merge_into :: "json_object \<Rightarrow> json_object \<Rightarrow> json_object" where
  "merge_into dst src = dst ++\<^sub>f fmmap_keys (\<lambda>k f. f (fmlookup dst k)) (fmmap merge_value src)"

section \<open>What a path sees\<close>

datatype node = Absent | Object | Leaf json

fun look :: "json \<Rightarrow> string list \<Rightarrow> node" where
  "look v [] = (case v of JObj m \<Rightarrow> Object | _ \<Rightarrow> Leaf v)"
| "look v (s # rest) =
     (case v of
        JObj m \<Rightarrow> (case fmlookup m s of None \<Rightarrow> Absent | Some w \<Rightarrow> look w rest)
      | _ \<Rightarrow> Absent)"

lemma look_not_absent [simp]: "look v [] \<noteq> Absent" "Absent \<noteq> look v []"
  by (cases v; auto)+

lemma look_sub_object: "xs \<noteq> [] \<Longrightarrow> look (JObj m) (s # xs) = look (JObj (sub_object m s)) xs"
  by (cases xs) (auto simp: sub_object_def split: option.splits json.splits)

lemma look_ext: "(\<And>q. look v q = look w q) \<Longrightarrow> v = w"
proof (induction v arbitrary: w)
  case (JObj m)
  from JObj.prems[of "[]"] obtain n where w: "w = JObj n" by (cases w) auto
  have "fmlookup m s = fmlookup n s" for s
  proof (cases "fmlookup m s")
    case None
    with JObj.prems[of "[s]"] show ?thesis
      by (cases "fmlookup n s") (auto simp: w split: json.splits)
  next
    case (Some a)
    with JObj.prems[of "[s]"] obtain b where b: "fmlookup n s = Some b"
      by (cases "fmlookup n s") (auto simp: w split: json.splits)
    have "a = b"
    proof (rule JObj.IH)
      show "a \<in> fmran' m" using Some by (rule fmran'I)
      show "look a q = look b q" for q using JObj.prems[of "s # q"] by (simp add: w Some b)
    qed
    with Some b show ?thesis by simp
  qed
  then show ?case by (auto simp: w intro: fmap_ext)
next
  case JNull
  from JNull[of "[]"] show ?case by (cases w) auto
next
  case (JBool b)
  from JBool[of "[]"] show ?case by (cases w) auto
next
  case (JNum n)
  from JNum[of "[]"] show ?case by (cases w) auto
next
  case (JStr t)
  from JStr[of "[]"] show ?case by (cases w) auto
next
  case (JArr xs)
  from JArr.prems[of "[]"] show ?case by (cases w) auto
qed

lemma object_ext: "(\<And>q. q \<noteq> [] \<Longrightarrow> look (JObj m) q = look (JObj n) q) \<Longrightarrow> m = n"
proof -
  assume same: "\<And>q. q \<noteq> [] \<Longrightarrow> look (JObj m) q = look (JObj n) q"
  have "JObj m = JObj n"
  proof (rule look_ext)
    show "look (JObj m) q = look (JObj n) q" for q using same[of q] by (cases "q = []") simp_all
  qed
  then show "m = n" by simp
qed

lemma read_path_Some:
  "read_path m p = Some v \<Longrightarrow> v \<noteq> JNull \<and> (\<forall>q. look (JObj m) (p @ q) = look v q)"
proof (induction m p rule: read_path.induct)
  case (2 m s rest)
  then show ?case by (auto split: option.splits json.splits if_splits)
qed simp

lemma read_path_parents:
  "read_path m p = Some v \<Longrightarrow> strict_prefix q p \<Longrightarrow> look (JObj m) q = Object"
proof (induction m p arbitrary: q rule: read_path.induct)
  case (2 m s rest)
  show ?case
  proof (cases q)
    case (Cons x xs)
    with 2 show ?thesis by (auto split: option.splits json.splits if_splits)
  qed simp
qed simp

lemma read_path_None:
  "p \<noteq> [] \<Longrightarrow> read_path m p = None \<longleftrightarrow> look (JObj m) p \<in> {Absent, Leaf JNull}"
proof (induction m p rule: read_path.induct)
  case (2 m s rest)
  show ?case
  proof (cases "fmlookup m s")
    case (Some v)
    then show ?thesis
    proof (cases v)
      case (JObj sub)
      with Some 2 show ?thesis by (cases "rest = []") auto
    qed (cases rest; simp)+
  qed simp
qed simp

lemma read_path_eq:
  assumes "p \<noteq> []" "\<And>q. look (JObj m) (p @ q) = look (JObj n) (p @ q)"
  shows "read_path m p = read_path n p"
proof (cases "read_path m p")
  case None
  then show ?thesis using assms(2)[of "[]"] read_path_None[OF assms(1), of m] read_path_None[OF assms(1), of n] by simp
next
  case (Some v)
  then have "read_path n p \<noteq> None"
    using assms(2)[of "[]"] read_path_None[OF assms(1), of m] read_path_None[OF assms(1), of n] by auto
  then obtain w where w: "read_path n p = Some w" by blast
  have "v = w" using read_path_Some[OF Some] read_path_Some[OF w] assms(2) by (intro look_ext) metis
  with Some w show ?thesis by simp
qed

lemma look_put:
  "p \<noteq> [] \<Longrightarrow> look (JObj (put_path m p v)) q =
     (if prefix p q then look v (drop (length p) q) else if strict_prefix q p then Object else look (JObj m) q)"
proof (induction m p v arbitrary: q rule: put_path.induct)
  case (2 m s v)
  then show ?case by (cases q) auto
next
  case (3 m s t rest v)
  show ?case
  proof (cases q)
    case (Cons x xs)
    show ?thesis
    proof (cases "x = s")
      case True
      then have "look (JObj (put_path m (s # t # rest) v)) q = look (JObj (put_path (sub_object m s) (t # rest) v)) xs"
        by (simp add: Cons)
      also have "\<dots> = (if prefix (t # rest) xs then look v (drop (length (t # rest)) xs)
          else if strict_prefix xs (t # rest) then Object else look (JObj (sub_object m s)) xs)"
        using "3.IH" by simp
      also have "\<dots> = (if prefix (s # t # rest) q then look v (drop (length (s # t # rest)) q)
          else if strict_prefix q (s # t # rest) then Object else look (JObj m) q)"
        unfolding Cons True by (cases "xs = []") (simp_all add: look_sub_object del: look.simps(2))
      finally show ?thesis .
    qed (simp add: Cons)
  qed simp
qed simp

lemma look_drop:
  "read_path m p = Some v \<Longrightarrow> q \<noteq> [] \<Longrightarrow>
     look (JObj (drop_path m p)) q = (if prefix p q then Absent else look (JObj m) q)"
proof (induction m p arbitrary: q rule: drop_path.induct)
  case (2 m s)
  then show ?case by (cases q) auto
next
  case (3 m s t rest)
  from "3.prems"(1) obtain sub where n: "fmlookup m s = Some (JObj sub)" "read_path sub (t # rest) = Some v"
    by (auto split: option.splits json.splits if_splits)
  show ?case
  proof (cases q)
    case (Cons x xs)
    show ?thesis unfolding Cons using "3.IH"[OF n(1) refl n(2), of xs] n(1) by (cases xs) auto
  qed (use "3.prems" in simp)
qed simp

end
