(* ===== verification/ConfigSecrets.thy ===== *)
theory ConfigSecrets
  imports Json Model Paging "HOL-Library.Char_ord"
begin

text \<open>
  A monitor's credentials (\<open>internal/model/config.go\<close>, \<open>internal/secrets/vault.go\<close>): the config is split
  into a half stored in the clear and a half sealed in the vault, put together again in memory,
  masked when it is read, and the masks that come back with an edit stand for what is stored. The
  handlers are those of \<open>internal/api/monitors.go\<close>, \<open>internal/api/monitor_writes.go\<close> and
  the startup pass of \<open>internal/app/app.go\<close>. The cipher, the checkers' validation and what they name as the
  target are parameters.
\<close>

section \<open>Splitting and merging\<close>

definition split_one :: "string \<Rightarrow> json_object \<times> json_object \<Rightarrow> json_object \<times> json_object" where
  "split_one path = (\<lambda>(whole, held).
     case take_path whole (segments path) of
       (whole', None) \<Rightarrow> (whole', held)
     | (whole', Some v) \<Rightarrow> (whole', put_path held (segments path) v))"

definition split_config :: "raw_message \<Rightarrow> string list \<Rightarrow> (raw_message \<times> raw_message) option" where
  "split_config config paths =
     (if config = Raw_empty \<or> paths = [] then Some (config, Raw_empty)
      else case decode_object config of
             None \<Rightarrow> None
           | Some whole \<Rightarrow>
               (case fold split_one paths (whole, fmempty) of
                  (public, held) \<Rightarrow>
                    Some (Raw (JObj public), if held = fmempty then Raw_empty else Raw (JObj held))))"

definition merge_config :: "raw_message \<Rightarrow> raw_message \<Rightarrow> raw_message option" where
  "merge_config public secret =
     (if secret = Raw_empty then Some public
      else case decode_object public of
             None \<Rightarrow> None
           | Some whole \<Rightarrow>
               (case decode_object secret of
                  None \<Rightarrow> None
                | Some held \<Rightarrow> Some (Raw (JObj (merge_into whole held)))))"

section \<open>Masks\<close>

definition redacted :: string where "redacted = ''__redacted__''"

fun mask :: "json \<Rightarrow> json" where
  "mask (JObj m) = JObj (fmmap (\<lambda>v. JStr redacted) m)"
| "mask (JArr xs) = JArr (map (\<lambda>v. JStr redacted) xs)"
| "mask v = JStr redacted"

fun holds_marker :: "json \<Rightarrow> bool" where
  "holds_marker (JStr s) = (s = redacted)"
| "holds_marker (JObj m) = (m \<noteq> fmempty \<and> fmpred (\<lambda>k v. v = JStr redacted) m)"
| "holds_marker (JArr xs) = (xs \<noteq> [] \<and> list_all (\<lambda>v. v = JStr redacted) xs)"
| "holds_marker v = False"

definition marked :: "json_object \<Rightarrow> string \<Rightarrow> bool" where
  "marked m path = (case read_path m (segments path) of None \<Rightarrow> False | Some v \<Rightarrow> holds_marker v)"

definition redact_one :: "json_object \<Rightarrow> string \<Rightarrow> json_object \<Rightarrow> json_object" where
  "redact_one held path whole =
     (case read_path held (segments path) of
        None \<Rightarrow> whole
      | Some v \<Rightarrow> put_path whole (segments path) (mask v))"

definition redact_config :: "raw_message \<Rightarrow> raw_message \<Rightarrow> string list \<Rightarrow> raw_message option" where
  "redact_config public secret paths =
     (if secret = Raw_empty then Some public
      else case decode_object public of
             None \<Rightarrow> None
           | Some whole \<Rightarrow>
               (case decode_object secret of
                  None \<Rightarrow> None
                | Some held \<Rightarrow> Some (Raw (JObj (fold (redact_one held) paths whole)))))"

definition find_redacted :: "raw_message \<Rightarrow> string list \<Rightarrow> string list" where
  "find_redacted config paths =
     (case decode_object config of None \<Rightarrow> [] | Some whole \<Rightarrow> sort (filter (marked whole) paths))"

definition strip_one :: "string \<Rightarrow> json_object \<times> bool \<Rightarrow> json_object \<times> bool" where
  "strip_one path = (\<lambda>(whole, changed).
     if marked whole path then (fst (take_path whole (segments path)), True) else (whole, changed))"

definition strip_redacted :: "raw_message \<Rightarrow> string list \<Rightarrow> raw_message option" where
  "strip_redacted config paths =
     (if config = Raw_empty then Some config
      else case decode_object config of
             None \<Rightarrow> None
           | Some whole \<Rightarrow>
               (case fold strip_one paths (whole, False) of
                  (stripped, changed) \<Rightarrow> Some (if changed then Raw (JObj stripped) else config)))"

text \<open>A mask gives way to what is stored at its path, or goes if nothing is.\<close>

definition preserve_one :: "json_object \<Rightarrow> string \<Rightarrow> json_object \<times> bool \<Rightarrow> json_object \<times> bool" where
  "preserve_one source path = (\<lambda>(target, changed).
     if \<not> marked target path then (target, changed)
     else (case read_path source (segments path) of
             Some kept \<Rightarrow> put_path target (segments path) kept
           | None \<Rightarrow> fst (take_path target (segments path)), True))"

definition preserve_redacted :: "raw_message \<Rightarrow> raw_message \<Rightarrow> string list \<Rightarrow> raw_message option" where
  "preserve_redacted stored incoming paths =
     (if incoming = Raw_empty \<or> paths = [] then Some incoming
      else case decode_object incoming of
             None \<Rightarrow> None
           | Some target \<Rightarrow>
               (case decode_object stored of
                  None \<Rightarrow> None
                | Some source \<Rightarrow>
                    (case fold (preserve_one source) paths (target, False) of
                       (kept, changed) \<Rightarrow> Some (if changed then Raw (JObj kept) else incoming))))"

section \<open>The vault\<close>

record 'a config_vault =
  cv_encrypt :: "ident \<Rightarrow> ident \<Rightarrow> 'a \<Rightarrow> bytes option"
  cv_decrypt :: "ident \<Rightarrow> ident \<Rightarrow> bytes \<Rightarrow> 'a option"

definition vault_seal :: "raw_message config_vault \<Rightarrow> ident \<Rightarrow> ident \<Rightarrow> raw_message \<Rightarrow> bytes option" where
  "vault_seal v org row plain = (if plain = Raw_empty then Some [] else cv_encrypt v org row plain)"

definition vault_open :: "raw_message config_vault \<Rightarrow> ident \<Rightarrow> ident \<Rightarrow> bytes \<Rightarrow> raw_message option" where
  "vault_open v org row envelope = (if envelope = [] then Some Raw_empty else cv_decrypt v org row envelope)"

section \<open>Monitors with credentials\<close>

text \<open>What these handlers touch of a monitor.\<close>

record configured =
  cf_id :: ident
  cf_org :: ident
  cf_type :: string
  cf_name :: string
  cf_config :: raw_message
  cf_secrets :: bytes
  cf_target :: string

definition secret_fields :: "string \<Rightarrow> string list" where
  "secret_fields type =
     (if type = ''http'' then [''auth.password'', ''auth.token'']
      else if type = ''docker'' then [''tls.ca_cert'', ''tls.client_cert'', ''tls.client_key'']
      else if type = ''grpc'' then [''metadata'']
      else [])"

datatype config_problem = Config_unreadable | Config_unassembled | Config_invalid | Config_redacted | Config_internal

definition seal_monitor :: "raw_message config_vault \<Rightarrow> configured \<Rightarrow> config_problem + configured" where
  "seal_monitor v m =
     (if secret_fields (cf_type m) = [] then Inr m
      else case split_config (cf_config m) (secret_fields (cf_type m)) of
             None \<Rightarrow> Inl Config_internal
           | Some (public, secret) \<Rightarrow>
               (case vault_seal v (cf_org m) (cf_id m) secret of
                  None \<Rightarrow> Inl Config_internal
                | Some sealed \<Rightarrow> Inr (m \<lparr> cf_config := public, cf_secrets := sealed \<rparr>)))"

definition render_config :: "raw_message config_vault \<Rightarrow> configured \<Rightarrow> raw_message option" where
  "render_config v m =
     (if secret_fields (cf_type m) = [] \<or> cf_secrets m = [] then Some (cf_config m)
      else case vault_open v (cf_org m) (cf_id m) (cf_secrets m) of
             None \<Rightarrow> None
           | Some secret \<Rightarrow> redact_config (cf_config m) secret (secret_fields (cf_type m)))"

text \<open>The config with its credentials, as a probe is given it.\<close>

definition open_config :: "raw_message config_vault \<Rightarrow> configured \<Rightarrow> raw_message option" where
  "open_config v m =
     (if cf_secrets m = [] then Some (cf_config m)
      else case vault_open v (cf_org m) (cf_id m) (cf_secrets m) of
             None \<Rightarrow> None
           | Some secret \<Rightarrow> merge_config (cf_config m) secret)"

text \<open>A patch replaces top-level keys.\<close>

definition shallow_merge :: "raw_message \<Rightarrow> raw_message \<Rightarrow> raw_message option" where
  "shallow_merge base patch =
     (case decode_object base of
        None \<Rightarrow> None
      | Some merged \<Rightarrow>
          if patch = Raw_empty then None
          else (case decode_object patch of
                  None \<Rightarrow> None
                | Some incoming \<Rightarrow> Some (Raw (JObj (merged ++\<^sub>f incoming)))))"

text \<open>
  \<open>validate\<close> is the checker's validation of a type's config (the push monitor's own for a push monitor),
  \<open>target\<close> what the checker names as its target, nothing if it names none.
\<close>

record config_rules =
  cr_validate :: "string \<Rightarrow> raw_message \<Rightarrow> bool"
  cr_target :: "string \<Rightarrow> raw_message \<Rightarrow> string option"

definition settle_config :: "config_rules \<Rightarrow> raw_message \<Rightarrow> configured \<Rightarrow> config_problem + configured" where
  "settle_config rules config m =
     (if \<not> cr_validate rules (cf_type m) config then Inl Config_invalid
      else Inr (m \<lparr> cf_config := config,
                    cf_target := (case cr_target rules (cf_type m) config of None \<Rightarrow> cf_target m | Some t \<Rightarrow> t) \<rparr>))"

definition assemble :: "raw_message config_vault \<Rightarrow> configured \<Rightarrow> config_problem + raw_message" where
  "assemble v stored =
     (if cf_secrets stored = [] then Inr (cf_config stored)
      else case vault_open v (cf_org stored) (cf_id stored) (cf_secrets stored) of
             None \<Rightarrow> Inl Config_unreadable
           | Some secret \<Rightarrow>
               (case merge_config (cf_config stored) secret of
                  None \<Rightarrow> Inl Config_unassembled
                | Some full \<Rightarrow> Inr full))"

definition apply_config_change ::
  "raw_message config_vault \<Rightarrow> config_rules \<Rightarrow> configured \<Rightarrow> configured \<Rightarrow> raw_message \<Rightarrow> config_problem + configured" where
  "apply_config_change v rules m stored patch =
     (case assemble v stored of
        Inl e \<Rightarrow> Inl e
      | Inr full \<Rightarrow>
          (case preserve_redacted full patch (secret_fields (cf_type stored)) of
             None \<Rightarrow> Inl Config_invalid
           | Some resolved \<Rightarrow>
               (case shallow_merge full resolved of
                  None \<Rightarrow> Inl Config_invalid
                | Some config \<Rightarrow> settle_config rules config m)))"

text \<open>An edit: its config, if it has one, is applied; then the monitor is sealed, whether it has or not.\<close>

definition update_monitor ::
  "raw_message config_vault \<Rightarrow> config_rules \<Rightarrow> configured \<Rightarrow> string option \<Rightarrow> raw_message \<Rightarrow> config_problem + configured" where
  "update_monitor v rules stored name patch =
     (let m = (case name of None \<Rightarrow> stored | Some n \<Rightarrow> stored \<lparr> cf_name := n \<rparr>)
      in case (if patch = Raw_empty then Inr m else apply_config_change v rules m stored patch) of
           Inl e \<Rightarrow> Inl e
         | Inr m' \<Rightarrow> seal_monitor v m')"

definition create_monitor :: "raw_message config_vault \<Rightarrow> config_rules \<Rightarrow> configured \<Rightarrow> config_problem + configured" where
  "create_monitor v rules m =
     (if cf_config m = Raw_empty then Inl Config_invalid
      else if find_redacted (cf_config m) (secret_fields (cf_type m)) \<noteq> [] then Inl Config_redacted
      else case settle_config rules (cf_config m) m of
             Inl e \<Rightarrow> Inl e
           | Inr m' \<Rightarrow> seal_monitor v m')"

text \<open>Startup: what an older version stored in the clear is sealed with what is sealed already.\<close>

definition reseal :: "raw_message config_vault \<Rightarrow> configured \<Rightarrow> config_problem + configured" where
  "reseal v m =
     (if secret_fields (cf_type m) = [] then Inr m
      else case split_config (cf_config m) (secret_fields (cf_type m)) of
             None \<Rightarrow> Inl Config_internal
           | Some (public, secret) \<Rightarrow>
               if secret = Raw_empty then Inr m
               else (case vault_open v (cf_org m) (cf_id m) (cf_secrets m) of
                       None \<Rightarrow> Inl Config_internal
                     | Some existing \<Rightarrow>
                         (case merge_config existing secret of
                            None \<Rightarrow> Inl Config_internal
                          | Some combined \<Rightarrow>
                              (case vault_seal v (cf_org m) (cf_id m) combined of
                                 None \<Rightarrow> Inl Config_internal
                               | Some sealed \<Rightarrow> Inr (m \<lparr> cf_config := public, cf_secrets := sealed \<rparr>)))))"

end
