(* ===== verification/ConfigFacts.thy ===== *)
theory ConfigFacts
  imports ConfigSecrets
begin

text \<open>
  What becomes of a monitor's credentials: splitting and merging are inverse, an edit that sends
  back what a read showed changes nothing, and two ways in which an edit loses or spoils
  credentials.
\<close>

section \<open>Paths apart\<close>

definition prefix_free :: "string list set \<Rightarrow> bool" where
  "prefix_free P = (\<forall>p \<in> P. \<forall>q \<in> P. prefix p q \<longrightarrow> p = q)"

lemma prefix_free_comparable:
  "prefix_free P \<Longrightarrow> p \<in> P \<Longrightarrow> q \<in> P \<Longrightarrow> prefix p x \<Longrightarrow> prefix q x \<Longrightarrow> p = q"
  unfolding prefix_free_def using prefix_same_cases by blast

lemma prefix_free_subset: "prefix_free P \<Longrightarrow> Q \<subseteq> P \<Longrightarrow> prefix_free Q"
  unfolding prefix_free_def by blast

text \<open>
  \<open>patched c A f x\<close>: below each path of \<open>A\<close> the object \<open>x\<close> is what \<open>f\<close> says, and
  everywhere else it is \<open>c\<close>.
\<close>

definition patched :: "json_object \<Rightarrow> string list set \<Rightarrow> (string list \<Rightarrow> string list \<Rightarrow> node) \<Rightarrow> json_object \<Rightarrow> bool" where
  "patched c A f x =
     ((\<forall>p \<in> A. \<forall>r. look (JObj x) (p @ r) = f p r) \<and>
      (\<forall>q. q \<noteq> [] \<longrightarrow> (\<forall>p \<in> A. \<not> prefix p q) \<longrightarrow> look (JObj x) q = look (JObj c) q))"

lemma patched_nothing: "patched c {} f c"
  by (simp add: patched_def)

lemma patched_back: "patched c A (\<lambda>p r. look (JObj c) (p @ r)) x \<Longrightarrow> x = c"
  unfolding patched_def by (rule object_ext) (metis prefix_def)

lemma patched_cong: "patched c A f x \<Longrightarrow> (\<And>p r. p \<in> A \<Longrightarrow> f p r = g p r) \<Longrightarrow> patched c A g x"
  by (simp add: patched_def)

lemma patched_put:
  assumes "patched c A f x" "prefix_free (insert p A)" "p \<noteq> []" "read_path c p = Some w"
  shows "patched c (insert p A) (f(p := look v)) (put_path x p v)"
  unfolding patched_def
proof (intro conjI ballI allI impI)
  fix p' r assume p': "p' \<in> insert p A"
  show "look (JObj (put_path x p v)) (p' @ r) = (f(p := look v)) p' r"
  proof (cases "p' = p")
    case False
    then have "\<not> prefix p (p' @ r)" "\<not> strict_prefix (p' @ r) p"
      using prefix_free_comparable[OF assms(2), of p p' "p' @ r"] prefix_free_comparable[OF assms(2), of p' p p] p'
      by (auto simp: strict_prefix_def) (meson append_prefixD)
    then show ?thesis using False p' assms(1,3) by (simp add: look_put patched_def)
  qed (simp add: look_put assms(3))
next
  fix q :: "string list" assume q: "q \<noteq> []" "\<forall>p' \<in> insert p A. \<not> prefix p' q"
  show "look (JObj (put_path x p v)) q = look (JObj c) q"
    using q assms(1,3) read_path_parents[OF assms(4), of q] by (auto simp: look_put patched_def)
qed

lemma patched_drop:
  assumes "patched c A f x" "prefix_free (insert p A)" "p \<noteq> []" "read_path x p = Some w"
  shows "patched c (insert p A) (f(p := (\<lambda>r. Absent))) (drop_path x p)"
  unfolding patched_def
proof (intro conjI ballI allI impI)
  fix p' r assume p': "p' \<in> insert p A"
  have "p' @ r \<noteq> []" if "p' \<noteq> p" using that p' assms(2,3) unfolding prefix_free_def by auto
  moreover have "\<not> prefix p (p' @ r)" if "p' \<noteq> p"
    using that prefix_free_comparable[OF assms(2), of p p' "p' @ r"] p' by auto
  ultimately show "look (JObj (drop_path x p)) (p' @ r) = (f(p := (\<lambda>r. Absent))) p' r"
    using p' assms(1,3) by (cases "p' = p") (simp_all add: look_drop[OF assms(4)] patched_def)
next
  fix q :: "string list" assume q: "q \<noteq> []" "\<forall>p' \<in> insert p A. \<not> prefix p' q"
  then show "look (JObj (drop_path x p)) q = look (JObj c) q"
    using assms(1) by (simp add: look_drop[OF assms(4)] patched_def)
qed

text \<open>A path apart from those patched reads as it did.\<close>

lemma patched_read:
  assumes "patched c A f x" "prefix_free (insert p A)" "p \<notin> A" "p \<noteq> []"
  shows "read_path x p = read_path c p"
proof (rule read_path_eq[OF assms(4)])
  fix r
  have "\<forall>p' \<in> A. \<not> prefix p' (p @ r)"
    using prefix_free_comparable[OF assms(2), of _ p "p @ r"] assms(3) by auto
  then show "look (JObj x) (p @ r) = look (JObj c) (p @ r)" using assms(1,4) by (simp add: patched_def)
qed

section \<open>Merging\<close>

lemma fmlookup_merge_into:
  "fmlookup (merge_into e m) s =
     (case fmlookup m s of None \<Rightarrow> fmlookup e s | Some v \<Rightarrow> Some (merge_value v (fmlookup e s)))"
  by (simp add: merge_into_def fmlookup_dom_iff split: option.split)

lemma merge_value_object [simp]:
  "merge_value (JObj m) (Some (JObj e)) = JObj (merge_into e m)" "merge_value v None = v"
  by (simp add: merge_into_def) (cases v; simp)

declare merge_value.simps(6) [simp del]

lemma merge_into_empty [simp]: "merge_into e fmempty = e"
  by (rule fmap_ext) (simp add: fmlookup_merge_into)

text \<open>Room in the sealed half for what the path will bring.\<close>

fun fits :: "json_object \<Rightarrow> string list \<Rightarrow> bool" where
  "fits h [] = False"
| "fits h [s] = (fmlookup h s = None)"
| "fits h (s # rest) =
     ((case fmlookup h s of None \<Rightarrow> True | Some (JObj m) \<Rightarrow> True | _ \<Rightarrow> False) \<and> fits (sub_object h s) rest)"

lemma fits_empty: "p \<noteq> [] \<Longrightarrow> fits fmempty p"
  by (induction "fmempty :: json_object" p rule: fits.induct) (simp_all add: sub_object_def)

lemma fits_unread: "fits h p \<Longrightarrow> read_path h p = None"
  by (induction h p rule: fits.induct) (auto simp: sub_object_def split: option.splits json.splits)

lemma sub_object_put: "sub_object (put_path h (s # t # rest) v) s = put_path (sub_object h s) (t # rest) v"
  by (simp add: sub_object_def[of "fmupd x y z" for x y z])

lemma fits_put: "fits h q \<Longrightarrow> \<not> prefix p q \<Longrightarrow> \<not> prefix q p \<Longrightarrow> fits (put_path h p v) q"
proof (induction h q arbitrary: p rule: fits.induct)
  case (2 h s)
  then show ?case by (cases "(h, p, v)" rule: put_path.cases) auto
next
  case (3 h s t rest)
  show ?case
  proof (cases "(h, p, v)" rule: put_path.cases)
    case (2 m x w)
    with 3 show ?thesis by (auto simp: sub_object_def)
  next
    case (3 m x y more w)
    then have p: "m = h" "w = v" "p = x # y # more" by simp_all
    show ?thesis
    proof (cases "x = s")
      case True
      have "fits (put_path (sub_object h s) (y # more) v) (t # rest)"
        using "3.IH" "3.prems" by (simp add: p True)
      then show ?thesis by (simp add: p True sub_object_put del: put_path.simps) (simp)
    qed (use "3.prems" in \<open>simp add: p sub_object_def\<close>)
  qed (use "3.prems" in simp)
qed simp

text \<open>Moving a value from the one half to the other does not change the whole.\<close>

lemma merge_moved:
  "read_path x p = Some v \<Longrightarrow> fits h p \<Longrightarrow> merge_into (drop_path x p) (put_path h p v) = merge_into x h"
proof (induction x p arbitrary: h rule: drop_path.induct)
  case (2 x s)
  then show ?case
    by (intro fmap_ext) (auto simp: fmlookup_merge_into split: option.splits json.splits)
next
  case (3 x s t rest)
  from "3.prems"(1) obtain sub where s: "fmlookup x s = Some (JObj sub)" "read_path sub (t # rest) = Some v"
    by (auto split: option.splits json.splits if_splits)
  have "merge_into (drop_path sub (t # rest)) (put_path (sub_object h s) (t # rest) v) = merge_into sub (sub_object h s)"
    using "3.IH"[OF s(1) refl s(2)] "3.prems"(2) by simp
  with s(1) "3.prems"(2) show ?case
    by (intro fmap_ext) (auto simp: fmlookup_merge_into sub_object_def split: option.splits json.splits)
qed simp

section \<open>Splitting\<close>

lemma read_path_look:
  assumes "p \<noteq> []" "v \<noteq> JNull" "\<And>r. look (JObj m) (p @ r) = look v r"
  shows "read_path m p = Some v"
proof -
  have "read_path m p \<noteq> None"
    using assms(3)[of "[]"] assms(2) read_path_None[OF assms(1), of m] by (cases v) auto
  then obtain w where w: "read_path m p = Some w" by blast
  have "w = v" using read_path_Some[OF w] assms(3) by (intro look_ext) metis
  with w show ?thesis by simp
qed

lemma read_put_same: "p \<noteq> [] \<Longrightarrow> v \<noteq> JNull \<Longrightarrow> read_path (put_path m p v) p = Some v"
  by (rule read_path_look) (simp_all add: look_put)

lemma read_put_apart:
  assumes "p \<noteq> []" "q \<noteq> []" "\<not> prefix p q" "\<not> prefix q p"
  shows "read_path (put_path m p v) q = read_path m q"
proof (rule read_path_eq[OF assms(2)])
  fix r
  have "\<not> prefix p (q @ r)" using assms(3,4) prefix_same_cases[of p "q @ r" q] by auto
  moreover have "\<not> strict_prefix (q @ r) p" using assms(4) by (auto simp: strict_prefix_def dest: append_prefixD)
  ultimately show "look (JObj (put_path m p v)) (q @ r) = look (JObj m) (q @ r)" by (simp add: look_put assms(1))
qed

definition apart :: "string list set \<Rightarrow> string list \<Rightarrow> bool" where
  "apart S q = (q \<noteq> [] \<and> (\<forall>p \<in> S. \<not> prefix p q \<and> \<not> prefix q p))"

lemma prefix_free_apart: "prefix_free P \<Longrightarrow> S \<subseteq> P \<Longrightarrow> p \<in> P \<Longrightarrow> p \<notin> S \<Longrightarrow> p \<noteq> [] \<Longrightarrow> apart S p"
  unfolding prefix_free_def apart_def by blast

definition split_state :: "json_object \<Rightarrow> string list set \<Rightarrow> json_object \<times> json_object \<Rightarrow> bool" where
  "split_state c S = (\<lambda>(public, held).
     patched c S (\<lambda>p r. Absent) public \<and> merge_into public held = c \<and> (S = {} \<longrightarrow> held = fmempty) \<and>
     (\<forall>p \<in> S. read_path held p = read_path c p) \<and> (\<forall>q. apart S q \<longrightarrow> fits held q))"

definition present :: "json_object \<Rightarrow> string list \<Rightarrow> string list set" where
  "present c paths = {p \<in> segments ` set paths. read_path c p \<noteq> None}"

lemma split_state_start: "split_state c {} (c, fmempty)"
  by (simp add: split_state_def patched_nothing fits_empty apart_def)

lemma split_one_state:
  assumes "split_state c S st" "prefix_free P" "S \<subseteq> P" "segments path \<in> P"
  shows "split_state c (S \<union> present c [path]) (split_one path st)"
proof -
  let ?p = "segments path"
  obtain x h where st: "st = (x, h)" by fastforce
  note state = assms(1)[unfolded split_state_def st, simplified]
  have ind: "prefix_free (insert ?p S)" using assms(2-4) by (auto intro: prefix_free_subset)
  show ?thesis
  proof (cases "?p \<in> S")
    case True
    have "look (JObj x) (?p @ []) = Absent" using state True unfolding patched_def by blast
    then have "read_path x ?p = None" by (simp add: read_path_None)
    moreover have "S \<union> present c [path] = S" using True by (auto simp: present_def)
    ultimately show ?thesis using assms(1) by (simp add: split_one_def st take_path_def)
  next
    case False
    have same: "read_path x ?p = read_path c ?p"
      using patched_read[of c S "\<lambda>p r. Absent" x ?p] state ind False by simp
    show ?thesis
    proof (cases "read_path c ?p")
      case None
      then have "S \<union> present c [path] = S" by (auto simp: present_def)
      then show ?thesis using assms(1) same None by (simp add: split_one_def st take_path_def)
    next
      case (Some v)
      have S: "S \<union> present c [path] = insert ?p S" using Some by (auto simp: present_def)
      have ap: "apart S ?p" using prefix_free_apart[OF assms(2-4) False] by simp
      have null: "v \<noteq> JNull" using read_path_Some[OF Some] by simp
      have "patched c (insert ?p S) (\<lambda>p r. Absent) (drop_path x ?p)"
        using patched_drop[OF _ ind _ same[unfolded Some], of c "\<lambda>p r. Absent"] state
        by (simp add: fun_upd_idem[of "\<lambda>p r. Absent"])
      moreover have "merge_into (drop_path x ?p) (put_path h ?p v) = c"
        using merge_moved[of x ?p v h] same Some state ap by simp
      moreover have "read_path (put_path h ?p v) p = read_path c p" if "p \<in> insert ?p S" for p
      proof (cases "p = ?p")
        case False
        then have "p \<in> S" using that by simp
        moreover from this have "p \<noteq> []" "\<not> prefix ?p p" "\<not> prefix p ?p" using ap by (auto simp: apart_def)
        ultimately show ?thesis using state by (simp add: read_put_apart)
      qed (simp add: read_put_same null Some)
      moreover have "fits (put_path h ?p v) q" if "apart (insert ?p S) q" for q
        using that state by (simp add: fits_put apart_def)
      ultimately show ?thesis
        by (simp add: split_one_def st take_path_def same Some S split_state_def)
    qed
  qed
qed

lemma present_append: "present c (path # paths) = present c [path] \<union> present c paths"
  by (auto simp: present_def)

lemma split_fold_state:
  assumes "split_state c S st" "prefix_free P" "S \<subseteq> P" "segments ` set paths \<subseteq> P"
  shows "split_state c (S \<union> present c paths) (fold split_one paths st)"
  using assms(1,3,4)
proof (induction paths arbitrary: S st)
  case Nil
  then show ?case by (simp add: present_def)
next
  case (Cons path paths)
  have "split_state c (S \<union> present c [path]) (split_one path st)"
    using split_one_state[OF Cons.prems(1) assms(2)] Cons.prems(2,3) by simp
  moreover have "S \<union> present c [path] \<subseteq> P" using Cons.prems(2,3) by (auto simp: present_def)
  ultimately have "split_state c ((S \<union> present c [path]) \<union> present c paths) (fold split_one paths (split_one path st))"
    using Cons.prems(3) by (intro Cons.IH) simp_all
  then show ?case by (simp add: present_append[of c path paths] Un_assoc)
qed

text \<open>What splitting yields of a config that decodes.\<close>

lemma split_config_parts:
  assumes "decode_object config = Some c" "config \<noteq> Raw_empty" "paths \<noteq> []" "prefix_free (segments ` set paths)"
  shows "\<exists>public held. split_config config paths =
      Some (Raw (JObj public), if held = fmempty then Raw_empty else Raw (JObj held)) \<and>
    split_state c (present c paths) (public, held)"
proof -
  obtain public held where f: "fold split_one paths (c, fmempty) = (public, held)" by fastforce
  have "split_state c ({} \<union> present c paths) (fold split_one paths (c, fmempty))"
    by (rule split_fold_state[OF split_state_start assms(4)]) simp_all
  with f assms show ?thesis
    by (intro exI[of _ public] exI[of _ held]) (simp add: split_config_def)
qed

section \<open>Masks and what they stand for\<close>

lemma mask_not_null [simp]: "mask v \<noteq> JNull" "JNull \<noteq> mask v"
  by (cases v; simp)+

lemma read_path_empty [simp]: "read_path fmempty p = None"
  by (cases p) simp_all

text \<open>A mask without a marker is of an empty value, and is that value.\<close>

lemma mask_holds: "holds_marker (mask v) \<or> mask v = v"
proof (cases v)
  case (JObj m)
  show ?thesis
  proof (cases "m = fmempty")
    case False
    then obtain k w where "fmlookup m k = Some w"
      by (metis fmap_ext fmempty_lookup not_None_eq)
    then have "fmmap (\<lambda>v. JStr redacted) m \<noteq> fmempty" by (metis fmempty_lookup fmlookup_map option.map_disc_iff option.distinct(1))
    then show ?thesis by (auto simp: JObj fmpred_iff)
  qed (simp add: JObj)
qed (auto simp: list_all_iff)

definition mask_of :: "json_object \<Rightarrow> string list \<Rightarrow> string list \<Rightarrow> node" where
  "mask_of c p = look (mask (the (read_path c p)))"

definition value_of :: "json_object \<Rightarrow> string list \<Rightarrow> string list \<Rightarrow> node" where
  "value_of c p = look (the (read_path c p))"

lemma redact_fold:
  assumes "split_state c S (public, held)" "patched c S g x" "prefix_free P" "S \<subseteq> P" "segments ` set paths \<subseteq> P"
    and "\<And>p. p \<in> S \<Longrightarrow> read_path c p \<noteq> None"
  shows "patched c S (\<lambda>p. if p \<in> segments ` set paths then mask_of c p else g p) (fold (redact_one held) paths x)"
  using assms(2,5)
proof (induction paths arbitrary: g x)
  case Nil
  then show ?case by simp
next
  case (Cons path paths)
  let ?p = "segments path"
  have "patched c S (if ?p \<in> S then g(?p := mask_of c ?p) else g) (redact_one held path x)"
  proof (cases "?p \<in> S")
    case True
    then obtain w where w: "read_path c ?p = Some w" using assms(6) by blast
    have "read_path held ?p = Some w" using True w assms(1) by (simp add: split_state_def)
    moreover have "prefix_free (insert ?p S)" using True assms(3,4) by (simp add: insert_absorb prefix_free_subset)
    ultimately show ?thesis
      using patched_put[OF Cons.prems(1) _ segments_nonempty w, of "mask w"] True w
      by (simp add: redact_one_def insert_absorb mask_of_def)
  next
    case False
    have "apart S ?p" using prefix_free_apart[OF assms(3,4) _ False] Cons.prems(2) by simp
    then have "read_path held ?p = None" using assms(1) by (simp add: split_state_def fits_unread)
    then show ?thesis using False Cons.prems(1) by (simp add: redact_one_def)
  qed
  from Cons.IH[OF this] Cons.prems(2)
  have "patched c S (\<lambda>p. if p \<in> segments ` set paths then mask_of c p else (if ?p \<in> S then g(?p := mask_of c ?p) else g) p)
      (fold (redact_one held) paths (redact_one held path x))" by simp
  then show ?case unfolding fold_Cons comp_def by (rule patched_cong) (auto simp: image_iff)
qed

lemma preserve_fold:
  assumes "patched c S g x" "prefix_free P" "S \<subseteq> P" "segments ` set paths \<subseteq> P"
    and "\<And>p. p \<in> S \<Longrightarrow> read_path c p \<noteq> None"
    and "\<And>p. p \<in> P - S \<Longrightarrow> read_path c p = None"
    and "\<And>p. p \<in> S \<Longrightarrow> g p = mask_of c p \<or> g p = value_of c p"
  shows "patched c S (\<lambda>p. if p \<in> segments ` set paths then value_of c p else g p) (fst (fold (preserve_one c) paths (x, b)))"
  using assms(1,4,7)
proof (induction paths arbitrary: g x b)
  case Nil
  then show ?case by simp
next
  case (Cons path paths)
  let ?p = "segments path"
  obtain y b' where y: "preserve_one c path (x, b) = (y, b')" by fastforce
  have "patched c S (if ?p \<in> S then g(?p := value_of c ?p) else g) y"
  proof (cases "?p \<in> S")
    case True
    then obtain w where w: "read_path c ?p = Some w" using assms(5) by blast
    have pf: "prefix_free (insert ?p S)" using True assms(2,3) by (simp add: insert_absorb prefix_free_subset)
    have put: "patched c S (g(?p := value_of c ?p)) (put_path x ?p w)"
      using patched_put[OF Cons.prems(1) pf segments_nonempty w, of w] True
      by (simp add: insert_absorb value_of_def w)
    obtain u where u: "g ?p = look u" "u = mask w \<or> u = w"
      using Cons.prems(3)[OF True] by (auto simp: mask_of_def value_of_def w)
    have "read_path x ?p = Some u"
    proof (rule read_path_look)
      show "u \<noteq> JNull" using u(2) read_path_Some[OF w] by auto
      show "look (JObj x) (?p @ r) = look u r" for r
        using Cons.prems(1) True u(1) by (simp add: patched_def)
    qed simp
    then have m: "marked x path = holds_marker u" by (simp add: marked_def)
    show ?thesis
    proof (cases "holds_marker u")
      case True
      with y m w put \<open>?p \<in> S\<close> show ?thesis by (auto simp: preserve_one_def)
    next
      case False
      then have "u = w" using u(2) mask_holds[of w] by auto
      then have "g(?p := value_of c ?p) = g" using u(1) by (auto simp: value_of_def w)
      with y m False Cons.prems(1) \<open>?p \<in> S\<close> show ?thesis by (simp add: preserve_one_def)
    qed
  next
    case False
    then have "read_path x ?p = None"
      using patched_read[OF Cons.prems(1) _ False segments_nonempty] assms(2,3,6) Cons.prems(2)
        prefix_free_subset[OF assms(2), of "insert ?p S"] by simp
    then have "y = x" using y by (simp add: preserve_one_def marked_def)
    with False Cons.prems(1) show ?thesis by simp
  qed
  then have "patched c S (\<lambda>p. if p \<in> segments ` set paths then value_of c p else (if ?p \<in> S then g(?p := value_of c ?p) else g) p)
      (fst (fold (preserve_one c) paths (y, b')))"
    by (rule Cons.IH) (use Cons.prems(2,3) in auto)
  then have "patched c S (\<lambda>p. if p \<in> segments ` set paths then value_of c p else (if ?p \<in> S then g(?p := value_of c ?p) else g) p)
      (fst (fold (preserve_one c) (path # paths) (x, b)))" by (simp add: y)
  then show ?case by (rule patched_cong) (auto simp: image_iff)
qed

lemma preserve_unchanged: "fold (preserve_one c) paths (x, b) = (y, False) \<Longrightarrow> y = x \<and> \<not> b"
proof (induction paths arbitrary: x b)
  case (Cons path paths)
  obtain z b' where z: "preserve_one c path (x, b) = (z, b')" by fastforce
  with Cons.prems have "y = z \<and> \<not> b'" by (intro Cons.IH) simp
  with z show ?case by (auto simp: preserve_one_def split: if_splits)
qed simp

text \<open>What a read shows of a split config stands for the config.\<close>

lemma redacted_read_preserved:
  assumes "decode_object config = Some c" "config \<noteq> Raw_empty" "paths \<noteq> []" "prefix_free (segments ` set paths)"
    and "split_config config paths = Some (public, secret)"
  shows "\<exists>shown resolved. redact_config public secret paths = Some shown \<and> shown \<noteq> Raw_empty \<and>
    preserve_redacted (Raw (JObj c)) shown paths = Some resolved \<and> resolved \<noteq> Raw_empty \<and> decode_object resolved = Some c"
proof -
  let ?P = "segments ` set paths" and ?S = "present c paths"
  obtain m held where parts: "public = Raw (JObj m)" "secret = (if held = fmempty then Raw_empty else Raw (JObj held))"
      and state: "split_state c ?S (m, held)"
    using split_config_parts[OF assms(1-4)] assms(5) by auto
  have sub: "?S \<subseteq> ?P" and here: "\<And>p. p \<in> ?S \<Longrightarrow> read_path c p \<noteq> None"
    and gone: "\<And>p. p \<in> ?P - ?S \<Longrightarrow> read_path c p = None" by (auto simp: present_def)
  have start: "patched c ?S (\<lambda>p r. Absent) m" using state by (simp add: split_state_def)
  define x where "x = (if held = fmempty then m else fold (redact_one held) paths m)"
  have shown: "redact_config public secret paths = Some (Raw (JObj x))"
    by (simp add: redact_config_def parts x_def)
  have masked: "patched c ?S (mask_of c) x"
  proof (cases "held = fmempty")
    case True
    have "?S = {}" using state True here by (force simp: split_state_def)
    then show ?thesis using start True by (simp add: x_def patched_def)
  next
    case False
    have "patched c ?S (\<lambda>p. if p \<in> ?P then mask_of c p else (\<lambda>r. Absent)) (fold (redact_one held) paths m)"
      by (rule redact_fold[OF state start assms(4) sub order_refl here])
    then show ?thesis using False sub by (auto simp: x_def intro!: patched_cong[of c ?S _ _ "mask_of c"] split: if_splits)
  qed
  obtain y b where y: "fold (preserve_one c) paths (x, False) = (y, b)" by fastforce
  have "patched c ?S (\<lambda>p. if p \<in> ?P then value_of c p else mask_of c p) y"
    using preserve_fold[OF masked assms(4) sub order_refl here gone, of False] by (simp add: y)
  then have "patched c ?S (\<lambda>p r. look (JObj c) (p @ r)) y"
  proof (rule patched_cong)
    fix p r assume p: "p \<in> ?S"
    then obtain w where "read_path c p = Some w" using here by blast
    with p sub read_path_Some[of c p w] show "(if p \<in> ?P then value_of c p else mask_of c p) r = look (JObj c) (p @ r)"
      by (auto simp: value_of_def)
  qed
  then have "y = c" by (rule patched_back)
  moreover have "\<not> b \<Longrightarrow> y = x" using preserve_unchanged[of c paths x False y] y by simp
  ultimately have "preserve_redacted (Raw (JObj c)) (Raw (JObj x)) paths = Some (Raw (JObj c))"
    using y assms(3) by (auto simp: preserve_redacted_def)
  with shown show ?thesis by auto
qed

section \<open>Monitors\<close>

definition config_of :: "raw_message config_vault \<Rightarrow> configured \<Rightarrow> json_object option" where
  "config_of v m = (case open_config v m of None \<Rightarrow> None | Some r \<Rightarrow> decode_object r)"

text \<open>What is relied on of the cipher: an envelope is not empty and opens to what was sealed.\<close>

definition faithful_vault :: "raw_message config_vault \<Rightarrow> bool" where
  "faithful_vault v = (\<forall>org row plain b. cv_encrypt v org row plain = Some b \<longrightarrow> b \<noteq> [] \<and> cv_decrypt v org row b = Some plain)"

lemma faithful_open: "faithful_vault v \<Longrightarrow> vault_seal v org row plain = Some b \<Longrightarrow>
    vault_open v org row b = Some plain \<and> (b = [] \<longleftrightarrow> plain = Raw_empty)"
  by (auto simp: faithful_vault_def vault_seal_def vault_open_def split: if_splits)

lemma secret_fields_prefix_free: "prefix_free (segments ` set (secret_fields type))"
  by (simp add: secret_fields_def segments_def prefix_free_def)

lemma seal_monitor_parts:
  assumes "faithful_vault v" "cf_config m \<noteq> Raw_empty" "decode_object (cf_config m) = Some c"
    and "secret_fields (cf_type m) \<noteq> []" "seal_monitor v m = Inr stored"
  shows "\<exists>public held sealed. split_state c (present c (secret_fields (cf_type m))) (public, held) \<and>
    split_config (cf_config m) (secret_fields (cf_type m)) =
      Some (Raw (JObj public), if held = fmempty then Raw_empty else Raw (JObj held)) \<and>
    stored = m \<lparr> cf_config := Raw (JObj public), cf_secrets := sealed \<rparr> \<and>
    vault_seal v (cf_org m) (cf_id m) (if held = fmempty then Raw_empty else Raw (JObj held)) = Some sealed \<and>
    vault_open v (cf_org m) (cf_id m) sealed = Some (if held = fmempty then Raw_empty else Raw (JObj held)) \<and>
    (sealed = [] \<longleftrightarrow> held = fmempty)"
proof -
  obtain public held where s: "split_config (cf_config m) (secret_fields (cf_type m)) =
      Some (Raw (JObj public), if held = fmempty then Raw_empty else Raw (JObj held))"
    "split_state c (present c (secret_fields (cf_type m))) (public, held)"
    using split_config_parts[OF assms(3,2,4) secret_fields_prefix_free] by blast
  with assms(4,5) obtain sealed where sealed:
    "vault_seal v (cf_org m) (cf_id m) (if held = fmempty then Raw_empty else Raw (JObj held)) = Some sealed"
    "stored = m \<lparr> cf_config := Raw (JObj public), cf_secrets := sealed \<rparr>"
    by (auto simp: seal_monitor_def split: option.splits)
  show ?thesis using s sealed faithful_open[OF assms(1) sealed(1)]
    by (intro exI[of _ public] exI[of _ held] exI[of _ sealed]) simp
qed

lemma merge_parts:
  "split_state c S (public, held) \<Longrightarrow>
     merge_config (Raw (JObj public)) (if held = fmempty then Raw_empty else Raw (JObj held)) = Some (Raw (JObj c))"
  by (auto simp: merge_config_def split_state_def)

lemma merge_held:
  "split_state c S (public, held) \<Longrightarrow> held \<noteq> fmempty \<Longrightarrow>
     merge_config (Raw (JObj public)) (Raw (JObj held)) = Some (Raw (JObj c))"
  "split_state c S (public, fmempty) \<Longrightarrow> public = c"
  by (auto simp: merge_config_def split_state_def)

lemma public_unread:
  assumes "split_state c (present c paths) (public, held)" "prefix_free (segments ` set paths)" "path \<in> set paths"
  shows "read_path public (segments path) = None"
proof (cases "segments path \<in> present c paths")
  case True
  then have "look (JObj public) (segments path @ []) = Absent"
    using assms(1) unfolding split_state_def patched_def by blast
  then show ?thesis by (simp add: read_path_None)
next
  case False
  then have "read_path c (segments path) = None" using assms(3) by (simp add: present_def)
  moreover have "prefix_free (insert (segments path) (present c paths))"
    using prefix_free_subset[OF assms(2)] assms(3) by (simp add: present_def subset_iff)
  ultimately show ?thesis using patched_read[OF _ _ False segments_nonempty, of c "\<lambda>p r. Absent" public] assms(1)
    by (simp add: split_state_def)
qed

lemma sealed_config_of:
  assumes "faithful_vault v" "cf_config m \<noteq> Raw_empty" "decode_object (cf_config m) = Some c" "cf_secrets m = []"
    and "seal_monitor v m = Inr stored"
  shows "config_of v stored = Some c"
proof (cases "secret_fields (cf_type m) = []")
  case True
  with assms show ?thesis by (simp add: seal_monitor_def config_of_def open_config_def)
next
  case False
  from seal_monitor_parts[OF assms(1-3) False assms(5)] obtain public held sealed
    where p: "split_state c (present c (secret_fields (cf_type m))) (public, held)"
      "stored = m \<lparr> cf_config := Raw (JObj public), cf_secrets := sealed \<rparr>"
      "vault_open v (cf_org m) (cf_id m) sealed = Some (if held = fmempty then Raw_empty else Raw (JObj held))"
      "sealed = [] \<longleftrightarrow> held = fmempty" by blast
  then show ?thesis using merge_held[of c _ public]
    by (cases "held = fmempty") (auto simp: config_of_def open_config_def)
qed

text \<open>C30: A monitor's credentials leave its stored config and are never lost: what is stored in the clear holds
  nothing at any secret path of its type, and put together with what the vault opens it is the
  config that was given, whatever it is.\<close>

theorem credentials_sealed_and_whole:
  assumes "faithful_vault v" "cf_config m \<noteq> Raw_empty" "decode_object (cf_config m) = Some c" "cf_secrets m = []"
    and "seal_monitor v m = Inr stored" "path \<in> set (secret_fields (cf_type m))"
  shows "config_of v stored = Some c \<and>
    (\<exists>public. decode_object (cf_config stored) = Some public \<and> read_path public (segments path) = None)"
proof -
  have "secret_fields (cf_type m) \<noteq> []" using assms(6) by auto
  from seal_monitor_parts[OF assms(1-3) this assms(5)] sealed_config_of[OF assms(1-5)] show ?thesis
    using public_unread[OF _ secret_fields_prefix_free assms(6)] by auto
qed

text \<open>C7: A form that sends back what a read showed it changes nothing: the masks stand for the credentials
  they hide, and after the edit the config is what it was.\<close>

theorem echoed_read_changes_nothing:
  assumes "faithful_vault v" "cf_config m \<noteq> Raw_empty" "decode_object (cf_config m) = Some c" "cf_secrets m = []"
    and "seal_monitor v m = Inr stored" "cr_validate rules (cf_type m) (Raw (JObj c))"
  shows "config_of v stored = Some c \<and>
    (\<exists>shown updated. render_config v stored = Some shown \<and> update_monitor v rules stored None shown = Inr updated \<and>
       config_of v updated = Some c)"
proof (cases "secret_fields (cf_type m) = []")
  case True
  then have s: "stored = m" using assms(5) by (simp add: seal_monitor_def)
  have same: "c ++\<^sub>f c = c" by (rule fmap_ext) simp
  have "update_monitor v rules m None (cf_config m) =
      Inr (m \<lparr> cf_config := Raw (JObj c),
               cf_target := (case cr_target rules (cf_type m) (Raw (JObj c)) of None \<Rightarrow> cf_target m | Some t \<Rightarrow> t) \<rparr>)"
    using assms(2-4,6) True
    by (simp add: update_monitor_def apply_config_change_def assemble_def preserve_redacted_def shallow_merge_def settle_config_def
        seal_monitor_def same)
  then show ?thesis unfolding s using True assms(2-4) by (simp add: render_config_def config_of_def open_config_def)
next
  case False
  let ?fields = "secret_fields (cf_type m)"
  obtain public held sealed where p: "split_state c (present c ?fields) (public, held)"
    and split: "split_config (cf_config m) ?fields = Some (Raw (JObj public), if held = fmempty then Raw_empty else Raw (JObj held))"
    and stored: "stored = m \<lparr> cf_config := Raw (JObj public), cf_secrets := sealed \<rparr>"
    and seals: "vault_seal v (cf_org m) (cf_id m) (if held = fmempty then Raw_empty else Raw (JObj held)) = Some sealed"
    and opened: "vault_open v (cf_org m) (cf_id m) sealed = Some (if held = fmempty then Raw_empty else Raw (JObj held))"
    and nil: "sealed = [] \<longleftrightarrow> held = fmempty"
    using seal_monitor_parts[OF assms(1-3) False assms(5)] by blast
  obtain shown resolved where shown: "redact_config (Raw (JObj public)) (if held = fmempty then Raw_empty else Raw (JObj held)) ?fields = Some shown"
    "shown \<noteq> Raw_empty" "preserve_redacted (Raw (JObj c)) shown ?fields = Some resolved" "resolved \<noteq> Raw_empty" "decode_object resolved = Some c"
    using redacted_read_preserved[OF assms(3,2) False secret_fields_prefix_free split] by auto
  have render: "render_config v stored = Some shown"
    using shown(1) opened nil by (auto simp: render_config_def stored False redact_config_def)
  have same: "c ++\<^sub>f c = c" by (rule fmap_ext) simp
  have whole: "assemble v stored = Inr (Raw (JObj c))"
    using merge_held[of c _ public] opened nil p by (cases "held = fmempty") (auto simp: assemble_def stored)
  define m' where "m' = stored \<lparr> cf_config := Raw (JObj c),
      cf_target := (case cr_target rules (cf_type m) (Raw (JObj c)) of None \<Rightarrow> cf_target m | Some t \<Rightarrow> t) \<rparr>"
  have changed: "apply_config_change v rules stored stored shown = Inr m'"
    using whole shown assms(6) same
    by (cases "cr_target rules (cf_type m) (Raw (JObj c))")
      (simp_all add: apply_config_change_def stored shallow_merge_def settle_config_def m'_def)
  have again: "split_config (Raw (JObj c)) ?fields = Some (Raw (JObj public), if held = fmempty then Raw_empty else Raw (JObj held))"
    using split assms(2,3) False by (simp add: split_config_def)
  have "seal_monitor v m' = Inr (m' \<lparr> cf_config := Raw (JObj public), cf_secrets := sealed \<rparr>)"
    using again seals False by (simp add: seal_monitor_def m'_def stored)
  then have "update_monitor v rules stored None shown = Inr (m' \<lparr> cf_config := Raw (JObj public), cf_secrets := sealed \<rparr>)"
    using changed shown(2) by (simp add: update_monitor_def)
  moreover have "config_of v (m' \<lparr> cf_config := Raw (JObj public), cf_secrets := sealed \<rparr>) = Some c"
    using merge_held[of c _ public] opened nil p
    by (cases "held = fmempty") (auto simp: config_of_def open_config_def m'_def stored)
  ultimately show ?thesis using render sealed_config_of[OF assms(1-5)] by blast
qed

section \<open>How an edit loses or spoils credentials\<close>

text \<open>C38: An edit that leaves the config alone drops its credentials. The monitor is sealed again on every
  edit; the stored half holds nothing at the secret paths any more, so there is nothing to seal, and
  the envelope that held the credentials is overwritten with nothing.\<close>

theorem edit_without_config_drops_credentials:
  assumes "faithful_vault v" "cf_config m \<noteq> Raw_empty" "decode_object (cf_config m) = Some c" "cf_secrets m = []"
    and "seal_monitor v m = Inr stored" "path \<in> set (secret_fields (cf_type m))" "read_path c (segments path) = Some w"
  shows "config_of v stored = Some c \<and>
    (\<exists>updated d. update_monitor v rules stored (Some name) Raw_empty = Inr updated \<and> cf_secrets updated = [] \<and>
       config_of v updated = Some d \<and> read_path d (segments path) = None)"
proof -
  let ?fields = "secret_fields (cf_type m)"
  have f: "?fields \<noteq> []" using assms(6) by auto
  obtain public held sealed where p: "split_state c (present c ?fields) (public, held)"
      "stored = m \<lparr> cf_config := Raw (JObj public), cf_secrets := sealed \<rparr>"
    using seal_monitor_parts[OF assms(1-3) f assms(5)] by blast
  have gone: "read_path public (segments q) = None" if "q \<in> set ?fields" for q
    using public_unread[OF p(1) secret_fields_prefix_free that] .
  obtain public2 held2 where again: "split_config (Raw (JObj public)) ?fields =
      Some (Raw (JObj public2), if held2 = fmempty then Raw_empty else Raw (JObj held2))"
    "split_state public (present public ?fields) (public2, held2)"
    using split_config_parts[of "Raw (JObj public)" public, OF _ _ f secret_fields_prefix_free] by auto
  have "present public ?fields = {}" using gone by (auto simp: present_def)
  then have "held2 = fmempty" "public2 = public" using again(2) by (auto simp: split_state_def)
  then have "update_monitor v rules stored (Some name) Raw_empty =
      Inr (stored \<lparr> cf_name := name, cf_config := Raw (JObj public), cf_secrets := [] \<rparr>)"
    using again(1) f by (simp add: update_monitor_def seal_monitor_def p(2) vault_seal_def)
  moreover have "config_of v (stored \<lparr> cf_name := name, cf_config := Raw (JObj public), cf_secrets := [] \<rparr>) = Some public"
    by (simp add: config_of_def open_config_def)
  ultimately show ?thesis using gone[OF assms(6)] sealed_config_of[OF assms(1-5)] by simp
qed

lemma preserve_one_path:
  "\<not> marked target path \<Longrightarrow> preserve_redacted (Raw (JObj c)) (Raw (JObj target)) [path] = Some (Raw (JObj target))"
  by (simp add: preserve_redacted_def preserve_one_def)

text \<open>A map of which a client changed or added one entry and echoed the others' masks is stored as it
  came: the masks become the values. Only a map that is masks throughout stands for what is stored.
  Here the headers of a gRPC monitor.\<close>

theorem partly_masked_map_is_stored:
  assumes "faithful_vault v" "cf_type stored = ''grpc''" "config_of v stored = Some c"
    and "fmlookup sent k = Some (JStr redacted)" "fmlookup sent k' = Some w" "w \<noteq> JStr redacted"
    and "update_monitor v rules stored None (Raw (JObj (fmupd ''metadata'' (JObj sent) fmempty))) = Inr updated"
  shows "\<exists>d now. config_of v updated = Some d \<and> read_path d [''metadata''] = Some (JObj now) \<and> fmlookup now k = Some (JStr redacted)"
proof -
  let ?patch = "fmupd ''metadata'' (JObj sent) fmempty"
  have fields: "secret_fields ''grpc'' = [''metadata'']" by (simp add: secret_fields_def)
  have seg: "segments ''metadata'' = [''metadata'']" by (simp add: segments_def)
  obtain full where full: "assemble v stored = Inr full" "decode_object full = Some c"
    using assms(3,7)
    by (auto simp: config_of_def open_config_def assemble_def update_monitor_def apply_config_change_def
        split: if_splits option.splits)
  have unmarked: "\<not> marked ?patch ''metadata''"
    using assms(5,6) by (auto simp: marked_def seg fmpred_iff)
  have "fold (preserve_one c) [''metadata''] (?patch, False) = (?patch, False)"
    using unmarked by (simp add: preserve_one_def)
  then have kept: "preserve_redacted full (Raw (JObj ?patch)) [''metadata''] = Some (Raw (JObj ?patch))"
    using full(2) by (simp add: preserve_redacted_def)
  let ?c = "c ++\<^sub>f ?patch"
  obtain m' where m': "settle_config rules (Raw (JObj ?c)) stored = Inr m'" "seal_monitor v m' = Inr updated"
    using assms(7) full kept
    by (auto simp: update_monitor_def apply_config_change_def assms(2) fields shallow_merge_def split: sum.splits)
  have fields_m': "cf_type m' = ''grpc''" "cf_config m' = Raw (JObj ?c)"
    using m'(1) assms(2) by (auto simp: settle_config_def split: if_splits)
  have ne: "secret_fields (cf_type m') \<noteq> []" by (simp add: fields_m' fields)
  from seal_monitor_parts[OF assms(1) _ _ ne m'(2), of ?c] obtain public held sealed
    where p: "split_state ?c (present ?c (secret_fields (cf_type m'))) (public, held)"
      "updated = m' \<lparr> cf_config := Raw (JObj public), cf_secrets := sealed \<rparr>"
      "vault_open v (cf_org m') (cf_id m') sealed = Some (if held = fmempty then Raw_empty else Raw (JObj held))"
      "sealed = [] \<longleftrightarrow> held = fmempty"
    by (auto simp: fields_m')
  then have "config_of v updated = Some ?c" using merge_held[of ?c _ public]
    by (cases "held = fmempty") (auto simp: config_of_def open_config_def)
  moreover have "read_path ?c [''metadata''] = Some (JObj sent)" by simp
  ultimately show ?thesis using assms(4) by blast
qed

section \<open>A monitor with a password, and one with headers\<close>

definition demo_config :: json_object where
  "demo_config =
     fmupd ''url'' (JStr ''http://x'')
       (fmupd ''auth'' (JObj (fmupd ''password'' (JStr ''p'') (fmupd ''username'' (JStr ''u'') fmempty))) fmempty)"

definition demo_public :: json_object where
  "demo_public = fmupd ''url'' (JStr ''http://x'') (fmupd ''auth'' (JObj (fmupd ''username'' (JStr ''u'') fmempty)) fmempty)"

definition demo_held :: json_object where
  "demo_held = fmupd ''auth'' (JObj (fmupd ''password'' (JStr ''p'') fmempty)) fmempty"

definition demo_sent :: json_object where
  "demo_sent = fmupd ''authorization'' (JStr redacted) (fmupd ''x-tenant'' (JStr ''acme'') fmempty)"

definition demo_vault :: "raw_message config_vault" where
  "demo_vault =
     \<lparr> cv_encrypt = (\<lambda>org row plain. if plain = Raw (JObj demo_held) then Some [1]
                        else if plain = Raw (JObj (fmupd ''metadata'' (JObj demo_sent) fmempty)) then Some [2] else None),
       cv_decrypt = (\<lambda>org row b. if b = [1] then Some (Raw (JObj demo_held))
                        else if b = [2] then Some (Raw (JObj (fmupd ''metadata'' (JObj demo_sent) fmempty))) else None) \<rparr>"

definition demo_rules :: config_rules where
  "demo_rules = \<lparr> cr_validate = (\<lambda>type config. True), cr_target = (\<lambda>type config. None) \<rparr>"

definition http_monitor :: configured where
  "http_monitor =
     \<lparr> cf_id = [1], cf_org = [0], cf_type = ''http'', cf_name = ''m'', cf_config = Raw (JObj demo_config),
       cf_secrets = [], cf_target = ''x'' \<rparr>"

definition grpc_monitor :: configured where
  "grpc_monitor = http_monitor \<lparr> cf_type := ''grpc'', cf_config := Raw (JObj fmempty) \<rparr>"

definition http_stored :: configured where
  "http_stored = http_monitor \<lparr> cf_config := Raw (JObj demo_public), cf_secrets := [1] \<rparr>"

definition grpc_updated :: configured where
  "grpc_updated = grpc_monitor \<lparr> cf_config := Raw (JObj fmempty), cf_secrets := [2] \<rparr>"

lemma fmupd_not_empty [simp]: "fmupd k v m \<noteq> fmempty" "fmempty \<noteq> fmupd k v m"
  by (metis fmempty_lookup fmupd_lookup option.distinct(1))+

lemma demo_vault_faithful: "faithful_vault demo_vault"
  by (auto simp: faithful_vault_def demo_vault_def demo_held_def split: if_splits)

lemmas demo_paths = segments_def secret_fields_def split_one_def take_path_def sub_object_def fmdrop_fmupd

lemma demo_public_order:
  "fmupd ''auth'' (JObj (fmupd ''username'' (JStr ''u'') fmempty))
     (fmupd ''url'' (JStr ''http://x'') (fmupd ''auth'' v fmempty)) =
   fmupd ''url'' (JStr ''http://x'') (fmupd ''auth'' (JObj (fmupd ''username'' (JStr ''u'') fmempty)) fmempty)"
  by (rule fmap_ext) auto

lemma http_sealed: "seal_monitor demo_vault http_monitor = Inr http_stored"
  by (simp add: seal_monitor_def http_monitor_def http_stored_def demo_paths split_config_def demo_config_def demo_public_def
      demo_held_def vault_seal_def demo_vault_def demo_public_order)

theorem credentials_sealed_and_whole_witness:
  "config_of demo_vault http_stored = Some demo_config \<and>
    (\<exists>public. decode_object (cf_config http_stored) = Some public \<and> read_path public (segments ''auth.password'') = None)"
  using credentials_sealed_and_whole[OF demo_vault_faithful _ _ _ http_sealed, of demo_config "''auth.password''"]
  by (simp add: http_monitor_def secret_fields_def)

theorem echoed_read_changes_nothing_witness:
  "\<exists>shown updated. render_config demo_vault http_stored = Some shown \<and>
     update_monitor demo_vault demo_rules http_stored None shown = Inr updated \<and> config_of demo_vault updated = Some demo_config"
  using echoed_read_changes_nothing[OF demo_vault_faithful _ _ _ http_sealed, of demo_config demo_rules]
  by (simp add: http_monitor_def demo_rules_def)

theorem edit_without_config_drops_credentials_witness:
  "config_of demo_vault http_stored = Some demo_config \<and>
    (\<exists>updated d. update_monitor demo_vault demo_rules http_stored (Some ''n'') Raw_empty = Inr updated \<and> cf_secrets updated = [] \<and>
       config_of demo_vault updated = Some d \<and> read_path d (segments ''auth.password'') = None)"
  using edit_without_config_drops_credentials[OF demo_vault_faithful _ _ _ http_sealed, of demo_config "''auth.password''"
      "JStr ''p''" demo_rules "''n''"]
  by (simp add: http_monitor_def secret_fields_def demo_config_def segments_def)

lemma grpc_update:
  "update_monitor demo_vault demo_rules grpc_monitor None (Raw (JObj (fmupd ''metadata'' (JObj demo_sent) fmempty))) = Inr grpc_updated"
proof -
  have "\<not> fmpred (\<lambda>k v. v = JStr redacted) demo_sent"
  proof
    assume "fmpred (\<lambda>k v. v = JStr redacted) demo_sent"
    moreover have "fmlookup demo_sent ''x-tenant'' = Some (JStr ''acme'')" by (simp add: demo_sent_def)
    ultimately have "JStr ''acme'' = JStr redacted" unfolding fmpred_iff by blast
    then show False by (simp add: redacted_def)
  qed
  then have "\<not> marked (fmupd ''metadata'' (JObj demo_sent) fmempty) ''metadata''"
    by (simp add: marked_def segments_def)
  then have "preserve_redacted (Raw (JObj fmempty)) (Raw (JObj (fmupd ''metadata'' (JObj demo_sent) fmempty))) [''metadata''] =
      Some (Raw (JObj (fmupd ''metadata'' (JObj demo_sent) fmempty)))" by (rule preserve_one_path)
  moreover have "fmlookup demo_held ''auth'' \<noteq> fmlookup (fmupd ''metadata'' (JObj demo_sent) fmempty) ''auth''"
    by (simp add: demo_held_def)
  then have "fmupd ''metadata'' (JObj demo_sent) fmempty \<noteq> demo_held" by metis
  ultimately show ?thesis
    by (simp add: update_monitor_def apply_config_change_def assemble_def grpc_monitor_def http_monitor_def grpc_updated_def
        shallow_merge_def settle_config_def demo_rules_def seal_monitor_def split_config_def demo_paths vault_seal_def demo_vault_def)
qed

theorem partly_masked_map_is_stored_witness:
  "\<exists>d now. config_of demo_vault grpc_updated = Some d \<and> read_path d [''metadata''] = Some (JObj now) \<and>
     fmlookup now ''authorization'' = Some (JStr redacted)"
  by (rule partly_masked_map_is_stored[OF demo_vault_faithful _ _ _ _ _ grpc_update, of fmempty _ "''x-tenant''" "JStr ''acme''"])
    (simp_all add: grpc_monitor_def http_monitor_def config_of_def open_config_def demo_sent_def redacted_def)

end
