(* ===== verification/MonitorWrites.thy ===== *)
theory MonitorWrites
  imports Ident GoTime
begin

text \<open>
  What the API accepts of a monitor's fields (\<open>internal/api/monitors.go\<close>,
  \<open>internal/api/monitor_writes.go\<close>, \<open>internal/api/probes.go\<close>, \<open>internal/api/taxonomy.go\<close>): creating and
  editing, each problem reported with its field, and the walk that keeps dependencies from looping.
  Problems stand as pointer and code; their messages are left out. The config and its
  credentials are the subject of another theory.
\<close>

section \<open>Requests\<close>

text \<open>A field of an edit: left out, not of its type, null, or given.\<close>

datatype 'a supplied = Left_out | Malformed | Cleared | Given 'a

record monitor_edit =
  me_name :: "string option"
  me_description :: "string option"
  me_enabled :: "bool option"
  me_interval :: "int option"
  me_timeout :: "int option"
  me_retries :: "int option"
  me_retry_interval :: "int supplied"
  me_resend_after :: "int option"
  me_upside_down :: "bool option"
  me_notify_on_recovery :: "bool option"
  me_group :: "string supplied"
  me_parent :: "string supplied"
  me_probe :: "string supplied"
  me_slo_target :: "rat supplied"

record editable =
  ed_id :: ident
  ed_type :: string
  ed_name :: string
  ed_description :: string
  ed_enabled :: bool
  ed_interval :: duration
  ed_timeout :: duration
  ed_retries :: int
  ed_retry_interval :: duration
  ed_resend_after :: int
  ed_upside_down :: bool
  ed_notify_on_recovery :: bool
  ed_group :: "ident option"
  ed_parent :: "ident option"
  ed_probe :: "ident option"
  ed_slo_target :: "rat option"

type_synonym problem = "string \<times> string"
type_synonym edit = "problem list \<times> editable"

text \<open>What the store answers while a request is checked.\<close>

datatype 'a answer = Missing | Unanswered | Found 'a

record lookups =
  lk_parent :: "ident \<Rightarrow> ident option answer"
  lk_group :: "ident \<Rightarrow> unit answer"
  lk_probe :: "ident \<Rightarrow> bool answer"
  lk_probe_count :: "nat option"
  lk_probes :: "(ident \<times> bool) list option"

section \<open>Numbers and names\<close>

definition bad :: "string \<Rightarrow> string \<Rightarrow> edit \<Rightarrow> edit" where
  "bad pointer code e = (fst e @ [(pointer, code)], snd e)"

definition ranged :: "string \<Rightarrow> int \<Rightarrow> int \<Rightarrow> int \<Rightarrow> (editable \<Rightarrow> editable) \<Rightarrow> edit \<Rightarrow> edit" where
  "ranged pointer lo hi v change e =
     (if v < lo then bad pointer ''below_minimum'' e
      else if hi < v then bad pointer ''above_maximum'' e
      else (fst e, change (snd e)))"

definition set_name :: "string \<Rightarrow> edit \<Rightarrow> edit" where
  "set_name name e =
     (if name = '''' then bad ''/name'' ''required'' e
      else if 200 < length name then bad ''/name'' ''too_long'' e
      else (fst e, (snd e) \<lparr> ed_name := name \<rparr>))"

definition set_interval :: "int option \<Rightarrow> edit \<Rightarrow> edit" where
  "set_interval v e =
     (case v of None \<Rightarrow> e
      | Some s \<Rightarrow> ranged ''/interval_seconds'' 20 86400 s (\<lambda>m. m \<lparr> ed_interval := s * second \<rparr>) e)"

definition set_timeout :: "int option \<Rightarrow> edit \<Rightarrow> edit" where
  "set_timeout v e =
     (case v of None \<Rightarrow> e
      | Some s \<Rightarrow> ranged ''/timeout_seconds'' 1 300 s (\<lambda>m. m \<lparr> ed_timeout := s * second \<rparr>) e)"

definition check_timeout :: "edit \<Rightarrow> edit" where
  "check_timeout e =
     (if ed_interval (snd e) \<le> ed_timeout (snd e) then bad ''/timeout_seconds'' ''not_less_than_interval'' e else e)"

definition set_retries :: "int option \<Rightarrow> edit \<Rightarrow> edit" where
  "set_retries v e =
     (case v of None \<Rightarrow> e | Some n \<Rightarrow> ranged ''/retries'' 0 20 n (\<lambda>m. m \<lparr> ed_retries := n \<rparr>) e)"

definition set_retry_interval :: "int supplied \<Rightarrow> edit \<Rightarrow> edit" where
  "set_retry_interval v e =
     (case v of
        Left_out \<Rightarrow> e
      | Malformed \<Rightarrow> bad ''/retry_interval_seconds'' ''invalid'' e
      | Cleared \<Rightarrow> (fst e, (snd e) \<lparr> ed_retry_interval := 0 \<rparr>)
      | Given s \<Rightarrow> ranged ''/retry_interval_seconds'' 20 86400 s (\<lambda>m. m \<lparr> ed_retry_interval := s * second \<rparr>) e)"

definition set_resend_after :: "int option \<Rightarrow> edit \<Rightarrow> edit" where
  "set_resend_after v e =
     (case v of None \<Rightarrow> e
      | Some n \<Rightarrow> if n < 0 then bad ''/resend_after'' ''below_minimum'' e
                 else (fst e, (snd e) \<lparr> ed_resend_after := n \<rparr>))"

text \<open>A hundred per cent is refused: its error budget is nothing.\<close>

definition set_slo_target :: "rat option \<Rightarrow> edit \<Rightarrow> edit" where
  "set_slo_target v e =
     (case v of None \<Rightarrow> e
      | Some q \<Rightarrow> if q < 0 \<or> 100 \<le> q then bad ''/slo_target_percent'' ''invalid'' e
                 else (fst e, (snd e) \<lparr> ed_slo_target := Some q \<rparr>))"

definition apply_slo_target :: "rat supplied \<Rightarrow> edit \<Rightarrow> edit" where
  "apply_slo_target v e =
     (case v of
        Left_out \<Rightarrow> e
      | Cleared \<Rightarrow> (fst e, (snd e) \<lparr> ed_slo_target := None \<rparr>)
      | Malformed \<Rightarrow> set_slo_target (Some (- 1)) e
      | Given q \<Rightarrow> set_slo_target (Some q) e)"

section \<open>Dependencies, groups and pins\<close>

definition max_dependency_depth :: nat where "max_dependency_depth = 10"

text \<open>Up the chain of parents: nothing if it ends within the depth without meeting a monitor twice.\<close>

fun parent_walk :: "lookups \<Rightarrow> nat \<Rightarrow> ident list \<Rightarrow> ident option \<Rightarrow> string option" where
  "parent_walk lk n seen None = None"
| "parent_walk lk 0 seen (Some c) = Some ''too_deep''"
| "parent_walk lk (Suc n) seen (Some c) =
     (if c \<in> set seen then Some ''cycle''
      else case lk_parent lk c of
             Missing \<Rightarrow> Some ''not_found''
           | Unanswered \<Rightarrow> Some ''unavailable''
           | Found p \<Rightarrow> parent_walk lk n (c # seen) p)"

definition resolve_parent :: "lookups \<Rightarrow> string option \<Rightarrow> edit \<Rightarrow> edit" where
  "resolve_parent lk raw e =
     (case raw of
        None \<Rightarrow> e
      | Some r \<Rightarrow>
          if r = '''' then e
          else case parse_id r of
                 None \<Rightarrow> bad ''/parent_monitor_id'' ''invalid'' e
               | Some p \<Rightarrow>
                   if p = ed_id (snd e) then bad ''/parent_monitor_id'' ''cycle'' e
                   else case parent_walk lk max_dependency_depth [ed_id (snd e)] (Some p) of
                          Some code \<Rightarrow> bad ''/parent_monitor_id'' code e
                        | None \<Rightarrow> (fst e, (snd e) \<lparr> ed_parent := Some p \<rparr>))"

definition apply_parent_change :: "lookups \<Rightarrow> string supplied \<Rightarrow> edit \<Rightarrow> edit" where
  "apply_parent_change lk v e =
     (case v of
        Left_out \<Rightarrow> e
      | Malformed \<Rightarrow> bad ''/parent_monitor_id'' ''invalid'' e
      | Cleared \<Rightarrow> (fst e, (snd e) \<lparr> ed_parent := None \<rparr>)
      | Given r \<Rightarrow> if r = '''' then (fst e, (snd e) \<lparr> ed_parent := None \<rparr>) else resolve_parent lk (Some r) e)"

definition resolve_group :: "lookups \<Rightarrow> string option \<Rightarrow> edit \<Rightarrow> edit" where
  "resolve_group lk raw e =
     (case raw of
        None \<Rightarrow> e
      | Some r \<Rightarrow>
          if r = '''' then e
          else case parse_id r of
                 None \<Rightarrow> bad ''/group_id'' ''invalid'' e
               | Some i \<Rightarrow>
                   (case lk_group lk i of
                      Missing \<Rightarrow> bad ''/group_id'' ''not_found'' e
                    | Unanswered \<Rightarrow> bad ''/group_id'' ''unavailable'' e
                    | Found u \<Rightarrow> (fst e, (snd e) \<lparr> ed_group := Some i \<rparr>)))"

definition apply_group_change :: "lookups \<Rightarrow> string supplied \<Rightarrow> edit \<Rightarrow> edit" where
  "apply_group_change lk v e =
     (case v of
        Left_out \<Rightarrow> e
      | Malformed \<Rightarrow> bad ''/group_id'' ''invalid'' e
      | Cleared \<Rightarrow> (fst e, (snd e) \<lparr> ed_group := None \<rparr>)
      | Given r \<Rightarrow> if r = '''' then (fst e, (snd e) \<lparr> ed_group := None \<rparr>) else resolve_group lk (Some r) e)"

definition host_local :: "string \<Rightarrow> bool" where "host_local type = (type = ''docker'')"

text \<open>A pin: named, given up, or, for a type only one host can answer, the only enabled probe there is.\<close>

definition place :: "lookups \<Rightarrow> edit \<Rightarrow> edit" where
  "place lk e =
     (if ed_probe (snd e) \<noteq> None \<or> \<not> host_local (ed_type (snd e)) then e
      else case lk_probe_count lk of
             None \<Rightarrow> bad ''/probe_id'' ''invalid'' e
           | Some n \<Rightarrow>
               if n \<noteq> 1 then bad ''/probe_id'' ''required'' e
               else case lk_probes lk of
                      None \<Rightarrow> bad ''/probe_id'' ''invalid'' e
                    | Some ps \<Rightarrow>
                        if ps = [] then bad ''/probe_id'' ''invalid'' e
                        else (case find snd ps of
                                None \<Rightarrow> e
                              | Some (i, u) \<Rightarrow> (fst e, (snd e) \<lparr> ed_probe := Some i \<rparr>)))"

definition resolve_pin :: "lookups \<Rightarrow> string option \<Rightarrow> bool \<Rightarrow> edit \<Rightarrow> edit" where
  "resolve_pin lk raw present e =
     (if present \<and> raw \<noteq> None \<and> raw \<noteq> Some ''''
      then case parse_id (the raw) of
             None \<Rightarrow> bad ''/probe_id'' ''invalid'' e
           | Some i \<Rightarrow>
               (case lk_probe lk i of
                  Missing \<Rightarrow> bad ''/probe_id'' ''not_found'' e
                | Unanswered \<Rightarrow> bad ''/probe_id'' ''invalid'' e
                | Found enabled \<Rightarrow>
                    if \<not> enabled then bad ''/probe_id'' ''unavailable'' e
                    else (fst e, (snd e) \<lparr> ed_probe := Some i \<rparr>))
      else place lk (if present then (fst e, (snd e) \<lparr> ed_probe := None \<rparr>) else e))"

definition apply_pin_change :: "lookups \<Rightarrow> string supplied \<Rightarrow> edit \<Rightarrow> edit" where
  "apply_pin_change lk v e =
     (case v of
        Left_out \<Rightarrow> resolve_pin lk None False e
      | Malformed \<Rightarrow> bad ''/probe_id'' ''invalid'' e
      | Cleared \<Rightarrow> resolve_pin lk None True e
      | Given r \<Rightarrow> resolve_pin lk (Some r) True e)"

section \<open>Editing and creating\<close>

definition or_kept :: "'a option \<Rightarrow> ('a \<Rightarrow> editable \<Rightarrow> editable) \<Rightarrow> edit \<Rightarrow> edit" where
  "or_kept v change e = (case v of None \<Rightarrow> e | Some x \<Rightarrow> (fst e, change x (snd e)))"

definition edit_plain :: "monitor_edit \<Rightarrow> edit \<Rightarrow> edit" where
  "edit_plain b e =
     or_kept (me_notify_on_recovery b) (\<lambda>x m. m \<lparr> ed_notify_on_recovery := x \<rparr>)
       (or_kept (me_upside_down b) (\<lambda>x m. m \<lparr> ed_upside_down := x \<rparr>)
         (or_kept (me_enabled b) (\<lambda>x m. m \<lparr> ed_enabled := x \<rparr>)
           (or_kept (me_description b) (\<lambda>x m. m \<lparr> ed_description := x \<rparr>) e)))"

definition edit_numbers :: "monitor_edit \<Rightarrow> edit \<Rightarrow> edit" where
  "edit_numbers b e =
     set_resend_after (me_resend_after b)
       (set_retry_interval (me_retry_interval b)
         (set_retries (me_retries b)
           (check_timeout (set_timeout (me_timeout b) (set_interval (me_interval b) e)))))"

definition apply_monitor_update :: "lookups \<Rightarrow> editable \<Rightarrow> monitor_edit \<Rightarrow> edit" where
  "apply_monitor_update lk stored b =
     apply_slo_target (me_slo_target b)
       (apply_pin_change lk (me_probe b)
         (apply_parent_change lk (me_parent b)
           (apply_group_change lk (me_group b)
             (edit_numbers b
               (edit_plain b
                 ((case me_name b of None \<Rightarrow> id | Some n \<Rightarrow> set_name n) ([], stored)))))))"

record instance_defaults =
  df_interval :: "int option"
  df_timeout :: "int option"
  df_retries :: "int option"

definition new_monitor :: "ident \<Rightarrow> string \<Rightarrow> instance_defaults \<Rightarrow> editable" where
  "new_monitor i type df =
     \<lparr> ed_id = i, ed_type = type, ed_name = '''', ed_description = '''', ed_enabled = True,
       ed_interval = (case df_interval df of None \<Rightarrow> 60 * second | Some s \<Rightarrow> wrap64 (s * second)),
       ed_timeout = (case df_timeout df of None \<Rightarrow> 30 * second | Some s \<Rightarrow> wrap64 (s * second)),
       ed_retries = (case df_retries df of None \<Rightarrow> 0 | Some n \<Rightarrow> n),
       ed_retry_interval = 0, ed_resend_after = 0, ed_upside_down = False, ed_notify_on_recovery = True,
       ed_group = None, ed_parent = None, ed_probe = None, ed_slo_target = None \<rparr>"

definition given :: "'a supplied \<Rightarrow> 'a option" where
  "given v = (case v of Given x \<Rightarrow> Some x | _ \<Rightarrow> None)"

text \<open>A creation's fields are plain pointers, so one left out and one that is null are the same.\<close>

definition build_monitor :: "ident \<Rightarrow> string \<Rightarrow> instance_defaults \<Rightarrow> monitor_edit \<Rightarrow> edit" where
  "build_monitor i type df b =
     edit_numbers (b \<lparr> me_retry_interval := (case given (me_retry_interval b) of None \<Rightarrow> Left_out | Some s \<Rightarrow> Given s) \<rparr>)
       (edit_plain b
         (set_name (case me_name b of None \<Rightarrow> '''' | Some n \<Rightarrow> n) ([], new_monitor i type df)))"

definition create_checked :: "lookups \<Rightarrow> ident \<Rightarrow> string \<Rightarrow> instance_defaults \<Rightarrow> monitor_edit \<Rightarrow> edit" where
  "create_checked lk i type df b =
     set_slo_target (given (me_slo_target b))
       (resolve_pin lk (given (me_probe b)) True
         (resolve_group lk (given (me_group b))
           (resolve_parent lk (given (me_parent b)) (build_monitor i type df b))))"

section \<open>Writing what was accepted\<close>

text \<open>
  The monitors of the store. An edit is checked against what is stored and then written; the two
  are separate steps, with no transaction around them.
\<close>

type_synonym monitors = "editable list"

definition stored_monitor :: "monitors \<Rightarrow> ident \<Rightarrow> editable option" where
  "stored_monitor db i = find (\<lambda>m. ed_id m = i) db"

definition parents_in :: "monitors \<Rightarrow> lookups \<Rightarrow> lookups" where
  "parents_in db lk = lk \<lparr> lk_parent := (\<lambda>i. case stored_monitor db i of None \<Rightarrow> Missing | Some m \<Rightarrow> Found (ed_parent m)) \<rparr>"

datatype monitor_write =
  Create_monitor ident string instance_defaults monitor_edit
| Update_monitor ident monitor_edit
| Delete_monitor ident

definition put_monitor :: "editable \<Rightarrow> monitors \<Rightarrow> monitors" where
  "put_monitor m db = map (\<lambda>x. if ed_id x = ed_id m then m else x) db"

text \<open>A monitor that others depend on cannot be deleted.\<close>

fun write_monitor :: "lookups \<Rightarrow> monitors \<Rightarrow> monitor_write \<Rightarrow> monitors" where
  "write_monitor lk db (Create_monitor i type df b) =
     (case create_checked (parents_in db lk) i type df b of
        (problems, m) \<Rightarrow> if problems = [] \<and> i \<notin> ed_id ` set db then db @ [m] else db)"
| "write_monitor lk db (Update_monitor i b) =
     (case stored_monitor db i of
        None \<Rightarrow> db
      | Some stored \<Rightarrow>
          (case apply_monitor_update (parents_in db lk) stored b of
             (problems, m) \<Rightarrow> if problems = [] then put_monitor m db else db))"
| "write_monitor lk db (Delete_monitor i) =
     (if \<exists>m \<in> set db. ed_parent m = Some i then db else filter (\<lambda>m. ed_id m \<noteq> i) db)"

end
