(* ===== verification/MonitorWriteFacts.thy ===== *)
theory MonitorWriteFacts
  imports MonitorWrites
begin

text \<open>
  What an accepted request guarantees: fields within their bounds, and dependencies that do not
  loop as long as edits come one after the other.
\<close>

section \<open>Bounds\<close>

definition in_range :: "editable \<Rightarrow> bool" where
  "in_range m =
     (20 * second \<le> ed_interval m \<and> ed_interval m \<le> 86400 * second \<and>
      second \<le> ed_timeout m \<and> ed_timeout m \<le> 300 * second \<and>
      0 \<le> ed_retries m \<and> ed_retries m \<le> 20 \<and>
      (ed_retry_interval m = 0 \<or> (20 * second \<le> ed_retry_interval m \<and> ed_retry_interval m \<le> 86400 * second)) \<and>
      0 \<le> ed_resend_after m \<and>
      (case ed_slo_target m of None \<Rightarrow> True | Some q \<Rightarrow> 0 \<le> q \<and> q < 100))"

definition well_named :: "editable \<Rightarrow> bool" where
  "well_named m = (ed_name m \<noteq> '''' \<and> length (ed_name m) \<le> 200)"

definition spaced :: "editable \<Rightarrow> bool" where
  "spaced m = (ed_timeout m < ed_interval m)"

text \<open>A step is sound if it drops no problem and, finding none, keeps what it is to keep.\<close>

definition sound_step :: "(editable \<Rightarrow> bool) \<Rightarrow> (edit \<Rightarrow> edit) \<Rightarrow> bool" where
  "sound_step P f = (\<forall>e. fst (f e) = [] \<longrightarrow> fst e = [] \<and> (P (snd e) \<longrightarrow> P (snd (f e))))"

lemma sound_stepD: "sound_step P f \<Longrightarrow> fst (f e) = [] \<Longrightarrow> fst e = [] \<and> (P (snd e) \<longrightarrow> P (snd (f e)))"
  unfolding sound_step_def by blast

lemma bad_not_accepted [simp]: "fst (bad p c e) \<noteq> []" "[] \<noteq> fst (bad p c e)"
  by (simp_all add: bad_def)

lemma sound_step_comp: "sound_step P f \<Longrightarrow> sound_step P g \<Longrightarrow> sound_step P (\<lambda>e. f (g e))"
  unfolding sound_step_def by blast

lemma sound_step_if: "sound_step P f \<Longrightarrow> sound_step P g \<Longrightarrow> sound_step P (\<lambda>e. if b then f e else g e)"
  by (cases b) simp_all

lemma sound_step_change: "(\<And>m. P m \<Longrightarrow> P (c m)) \<Longrightarrow> sound_step P (\<lambda>e. (fst e, c (snd e)))"
  by (simp add: sound_step_def)

lemma sound_step_bad: "sound_step P (bad p c)"
  by (simp add: sound_step_def)

lemma sound_step_none: "sound_step P (\<lambda>e. e)"
  by (simp add: sound_step_def)

lemmas edit_steps = ranged_def set_interval_def set_timeout_def check_timeout_def set_retries_def
  set_retry_interval_def set_resend_after_def set_slo_target_def apply_slo_target_def or_kept_def

lemma numbers_sound:
  "sound_step in_range (set_interval i)" "sound_step in_range (set_timeout i)" "sound_step in_range check_timeout"
  "sound_step in_range (set_retries i)" "sound_step in_range (set_retry_interval s)" "sound_step in_range (set_resend_after i)"
  by (auto simp: sound_step_def edit_steps in_range_def second_def split: option.splits supplied.splits if_splits)

lemma slo_sound:
  "sound_step in_range (set_slo_target q)" "sound_step in_range (apply_slo_target t)"
  by (auto simp: sound_step_def edit_steps in_range_def split: option.splits supplied.splits if_splits)

text \<open>The steps that only place a monitor keep whatever does not speak of its places.\<close>

definition placeless :: "(editable \<Rightarrow> bool) \<Rightarrow> bool" where
  "placeless P = ((\<forall>m g. P (m \<lparr> ed_group := g \<rparr>) = P m) \<and> (\<forall>m g. P (m \<lparr> ed_parent := g \<rparr>) = P m) \<and>
     (\<forall>m g. P (m \<lparr> ed_probe := g \<rparr>) = P m))"

lemma resolve_group_keeps: "placeless P \<Longrightarrow> sound_step P (resolve_group lk u)"
  by (auto simp: sound_step_def placeless_def resolve_group_def split: option.splits answer.splits)

lemma resolve_parent_keeps: "placeless P \<Longrightarrow> sound_step P (resolve_parent lk u)"
  by (auto simp: sound_step_def placeless_def resolve_parent_def split: option.splits)

lemma place_keeps: "placeless P \<Longrightarrow> sound_step P (place lk)"
  by (auto simp: sound_step_def placeless_def place_def split: option.splits if_splits)

lemma resolve_pin_keeps:
  assumes "placeless P"
  shows "sound_step P (resolve_pin lk u b)"
proof (cases "b \<and> u \<noteq> None \<and> u \<noteq> Some ''''")
  case True
  then show ?thesis using assms
    by (auto simp: sound_step_def resolve_pin_def placeless_def split: option.splits answer.splits)
next
  case False
  then have "resolve_pin lk u b = (\<lambda>e. place lk (if b then (fst e, (snd e) \<lparr> ed_probe := None \<rparr>) else e))"
    by (intro ext) (auto simp: resolve_pin_def)
  moreover have "sound_step P (\<lambda>e. (fst e, (snd e) \<lparr> ed_probe := None \<rparr>))"
    using assms by (simp add: sound_step_def placeless_def)
  ultimately show ?thesis
    using sound_step_comp[OF place_keeps[OF assms, of lk], of "\<lambda>e. (fst e, (snd e) \<lparr> ed_probe := None \<rparr>)"] place_keeps[OF assms, of lk]
    by (cases b) simp_all
qed

lemma apply_group_keeps: "placeless P \<Longrightarrow> sound_step P (apply_group_change lk t)"
  using resolve_group_keeps[of P lk "Some r" for r] sound_step_change[of P "\<lambda>m. m \<lparr> ed_group := None \<rparr>"]
  by (cases t; simp add: apply_group_change_def[abs_def] sound_step_if sound_step_none sound_step_bad placeless_def)

lemma apply_parent_keeps: "placeless P \<Longrightarrow> sound_step P (apply_parent_change lk t)"
  using resolve_parent_keeps[of P lk "Some r" for r] sound_step_change[of P "\<lambda>m. m \<lparr> ed_parent := None \<rparr>"]
  by (cases t; simp add: apply_parent_change_def[abs_def] sound_step_if sound_step_none sound_step_bad placeless_def)

lemma apply_pin_keeps: "placeless P \<Longrightarrow> sound_step P (apply_pin_change lk t)"
  using resolve_pin_keeps[of P lk]
  by (cases t; simp add: apply_pin_change_def[abs_def] sound_step_bad)

lemmas places_keep = apply_group_keeps apply_parent_keeps apply_pin_keeps resolve_group_keeps resolve_parent_keeps resolve_pin_keeps

lemma placeless_bounds [simp]: "placeless in_range" "placeless spaced" "placeless well_named"
  by (simp_all add: placeless_def in_range_def spaced_def well_named_def)

lemma others_keep_spacing:
  "sound_step spaced (set_retries i)" "sound_step spaced (set_retry_interval s)" "sound_step spaced (set_resend_after i)"
  "sound_step spaced (set_slo_target q)" "sound_step spaced (apply_slo_target t)"
  by (auto simp: sound_step_def edit_steps spaced_def split: option.splits supplied.splits if_splits)

lemma timeout_checked: "fst (check_timeout e) = [] \<Longrightarrow> fst e = [] \<and> check_timeout e = e \<and> spaced (snd e)"
  by (auto simp: check_timeout_def spaced_def split: if_splits)

lemma set_name_sound: "fst (set_name n e) = [] \<Longrightarrow> fst e = [] \<and> snd (set_name n e) = (snd e) \<lparr> ed_name := n \<rparr> \<and> n \<noteq> '''' \<and> length n \<le> 200"
  by (auto simp: set_name_def split: if_splits)

lemma plain_keeps:
  "fst (edit_plain b e) = fst e" "in_range (snd (edit_plain b e)) = in_range (snd e)"
  "ed_name (snd (edit_plain b e)) = ed_name (snd e)"
  by (auto simp: edit_plain_def or_kept_def in_range_def split: option.splits)

lemma numbers_accepted:
  assumes "fst (edit_numbers b e) = []"
  shows "fst e = [] \<and> (in_range (snd e) \<longrightarrow> in_range (snd (edit_numbers b e))) \<and> spaced (snd (edit_numbers b e))"
proof -
  let ?e1 = "set_interval (me_interval b) e"
  let ?e2 = "set_timeout (me_timeout b) ?e1"
  let ?e3 = "check_timeout ?e2"
  let ?e4 = "set_retries (me_retries b) ?e3"
  let ?e5 = "set_retry_interval (me_retry_interval b) ?e4"
  have "fst (set_resend_after (me_resend_after b) ?e5) = []" using assms by (simp add: edit_numbers_def)
  note a6 = sound_stepD[OF numbers_sound(6) this] sound_stepD[OF others_keep_spacing(3) this]
  note a5 = sound_stepD[OF numbers_sound(5) conjunct1[OF a6(1)]] sound_stepD[OF others_keep_spacing(2) conjunct1[OF a6(1)]]
  note a4 = sound_stepD[OF numbers_sound(4) conjunct1[OF a5(1)]] sound_stepD[OF others_keep_spacing(1) conjunct1[OF a5(1)]]
  note a3 = timeout_checked[OF conjunct1[OF a4(1)]]
  note a2 = sound_stepD[OF numbers_sound(2) conjunct1[OF a3]]
  note a1 = sound_stepD[OF numbers_sound(1) conjunct1[OF a2]]
  show ?thesis unfolding edit_numbers_def using a1 a2 a3 a4 a5 a6 by simp
qed

definition within_bounds :: "editable \<Rightarrow> bool" where
  "within_bounds m = (in_range m \<and> spaced m \<and> well_named m)"

lemma steps_keep_name [simp]:
  "ed_name (snd (set_interval i e)) = ed_name (snd e)" "ed_name (snd (set_timeout i e)) = ed_name (snd e)"
  "ed_name (snd (check_timeout e)) = ed_name (snd e)" "ed_name (snd (set_retries i e)) = ed_name (snd e)"
  "ed_name (snd (set_retry_interval s e)) = ed_name (snd e)" "ed_name (snd (set_resend_after i e)) = ed_name (snd e)"
  by (simp_all add: edit_steps bad_def split: option.splits supplied.splits)

lemma numbers_keep_name: "ed_name (snd (edit_numbers b e)) = ed_name (snd e)"
  by (simp add: edit_numbers_def)

lemma slo_keeps_name: "sound_step well_named (set_slo_target q)" "sound_step well_named (apply_slo_target t)"
  by (auto simp: sound_step_def edit_steps well_named_def split: option.splits supplied.splits if_splits)

lemma placed_accepted:
  assumes "sound_step in_range f" "sound_step spaced f" "sound_step well_named f" "fst (f e) = []"
  shows "fst e = [] \<and> (within_bounds (snd e) \<longrightarrow> within_bounds (snd (f e)))"
  using sound_stepD[OF assms(1,4)] sound_stepD[OF assms(2,4)] sound_stepD[OF assms(3,4)] by (simp add: within_bounds_def)


section \<open>Dependencies\<close>

definition depends_on :: "monitors \<Rightarrow> (ident \<times> ident) set" where
  "depends_on db = {(ed_id m, p) |m p. m \<in> set db \<and> ed_parent m = Some p}"

definition forest :: "monitors \<Rightarrow> bool" where
  "forest db = (distinct (map ed_id db) \<and> acyclic (depends_on db))"

definition same_place :: "editable \<Rightarrow> editable \<Rightarrow> bool" where
  "same_place m m' = (ed_id m' = ed_id m \<and> ed_parent m' = ed_parent m)"

lemma steps_keep_place:
  "same_place (snd e) (snd (set_interval i e))" "same_place (snd e) (snd (set_timeout i e))"
  "same_place (snd e) (snd (check_timeout e))" "same_place (snd e) (snd (set_retries i e))"
  "same_place (snd e) (snd (set_retry_interval s e))" "same_place (snd e) (snd (set_resend_after i e))"
  "same_place (snd e) (snd (set_slo_target q e))" "same_place (snd e) (snd (apply_slo_target t e))"
  "same_place (snd e) (snd (set_name n e))"
  by (simp_all add: same_place_def edit_steps bad_def set_name_def split: option.splits supplied.splits)

lemma plain_keeps_place: "same_place (snd e) (snd (edit_plain b e))"
  by (simp add: same_place_def edit_plain_def or_kept_def split: option.splits)

lemma group_keeps_place: "same_place (snd e) (snd (resolve_group lk u e))"
  by (auto simp: same_place_def resolve_group_def bad_def split: option.splits answer.splits)

lemma apply_group_keeps_place: "same_place (snd e) (snd (apply_group_change lk t e))"
  using group_keeps_place by (cases t) (auto simp: same_place_def apply_group_change_def bad_def)

lemma place_keeps_place: "same_place (snd e) (snd (place lk e))"
  by (auto simp: same_place_def place_def bad_def split: option.splits)

lemma pin_keeps_place: "same_place (snd e) (snd (resolve_pin lk u c e))"
  using place_keeps_place[of "(fst e, (snd e) \<lparr> ed_probe := None \<rparr>)" lk] place_keeps_place[of e lk]
  by (auto simp: same_place_def resolve_pin_def bad_def split: option.splits answer.splits)

lemma apply_pin_keeps_place: "same_place (snd e) (snd (apply_pin_change lk t e))"
  using pin_keeps_place by (cases t) (auto simp: same_place_def apply_pin_change_def bad_def)

lemma same_place_trans: "same_place a b \<Longrightarrow> same_place b c \<Longrightarrow> same_place a c"
  by (simp add: same_place_def)

lemma numbers_keep_place: "same_place (snd e) (snd (edit_numbers b e))"
  unfolding edit_numbers_def by (meson same_place_trans steps_keep_place)

text \<open>Where an accepted parent comes from.\<close>

definition rightful :: "lookups \<Rightarrow> editable \<Rightarrow> editable \<Rightarrow> bool" where
  "rightful lk m m' = (ed_id m' = ed_id m \<and> (ed_parent m' = ed_parent m \<or> ed_parent m' = None \<or>
     (\<exists>p. ed_parent m' = Some p \<and> parent_walk lk max_dependency_depth [ed_id m] (Some p) = None)))"

lemma resolve_parent_rightful: "rightful lk (snd e) (snd (resolve_parent lk u e))"
  by (auto simp: rightful_def resolve_parent_def bad_def split: option.splits)

lemma apply_parent_rightful: "rightful lk (snd e) (snd (apply_parent_change lk t e))"
  using resolve_parent_rightful by (cases t) (auto simp: apply_parent_change_def rightful_def bad_def)

lemma rightful_between: "same_place a b \<Longrightarrow> rightful lk b c \<Longrightarrow> same_place c d \<Longrightarrow> rightful lk a d"
  by (auto simp: rightful_def same_place_def)

lemma update_rightful: "rightful lk stored (snd (apply_monitor_update lk stored b))"
proof -
  let ?e1 = "(case me_name b of None \<Rightarrow> id | Some n \<Rightarrow> set_name n) ([], stored)"
  have "same_place stored (snd ?e1)"
    using steps_keep_place(9)[of "([], stored)"] by (auto simp: same_place_def split: option.splits)
  then have "same_place stored (snd (apply_group_change lk (me_group b) (edit_numbers b (edit_plain b ?e1))))"
    by (meson same_place_trans apply_group_keeps_place numbers_keep_place plain_keeps_place)
  then show ?thesis unfolding apply_monitor_update_def
    by (rule rightful_between[OF _ apply_parent_rightful])
      (rule same_place_trans[OF apply_pin_keeps_place steps_keep_place(8)])
qed

lemma create_rightful: "rightful lk (new_monitor i type df) (snd (create_checked lk i type df b))"
proof -
  have "same_place (new_monitor i type df) (snd (build_monitor i type df b))"
    unfolding build_monitor_def
    by (rule same_place_trans[OF same_place_trans[OF same_place_trans[OF _ steps_keep_place(9)] plain_keeps_place] numbers_keep_place])
      (simp add: same_place_def)
  then show ?thesis unfolding create_checked_def
    by (rule rightful_between[OF _ resolve_parent_rightful])
      (rule same_place_trans[OF same_place_trans[OF group_keeps_place pin_keeps_place] steps_keep_place(7)])
qed

text \<open>What the walk accepts does not lead back to where it started.\<close>

lemma stored_monitor_unique: "distinct (map ed_id db) \<Longrightarrow> m \<in> set db \<Longrightarrow> stored_monitor db (ed_id m) = Some m"
  by (induction db) (auto simp: stored_monitor_def image_iff)

lemma stored_parent:
  "distinct (map ed_id db) \<Longrightarrow> (c, p) \<in> depends_on db \<Longrightarrow> \<exists>m. stored_monitor db c = Some m \<and> ed_parent m = Some p"
  using stored_monitor_unique by (fastforce simp: depends_on_def)

lemma walk_clear:
  "parent_walk (parents_in db lk) n seen (Some p) = None \<Longrightarrow> distinct (map ed_id db) \<Longrightarrow>
     (p, x) \<in> (depends_on db)\<^sup>* \<Longrightarrow> x \<notin> set seen"
proof (induction n arbitrary: seen p)
  case (Suc n)
  from Suc.prems(1) have p: "p \<notin> set seen" by (auto split: if_splits)
  from Suc.prems(3) show ?case
  proof (cases rule: converse_rtranclE)
    case (step y)
    obtain m where "stored_monitor db p = Some m" "ed_parent m = Some y"
      using stored_parent[OF Suc.prems(2) step(1)] by blast
    with Suc.prems(1) p have "parent_walk (parents_in db lk) n (p # seen) (Some y) = None"
      by (simp add: parents_in_def)
    from Suc.IH[OF this Suc.prems(2) step(2)] show ?thesis by simp
  qed (use p in simp)
qed simp

lemma new_edge_acyclic:
  assumes "acyclic r" "(p, i) \<notin> (r :: ('a \<times> 'a) set)\<^sup>*"
  shows "acyclic (insert (i, p) r)"
  using assms by (simp add: acyclic_insert)

lemma put_edges:
  assumes "distinct (map ed_id db)" "stored_monitor db (ed_id m) = Some stored" "rightful (parents_in db lk) stored m"
  shows "depends_on (put_monitor m db) \<subseteq> depends_on db \<or>
    (\<exists>p. depends_on (put_monitor m db) \<subseteq> insert (ed_id m, p) (depends_on db) \<and> (p, ed_id m) \<notin> (depends_on db)\<^sup>*)"
proof -
  have stored: "stored \<in> set db" "ed_id stored = ed_id m"
    using assms(2) by (auto simp: stored_monitor_def dest: find_SomeD)
  have edges: "depends_on (put_monitor m db) \<subseteq> depends_on db \<union> {(ed_id m, p) |p. ed_parent m = Some p}"
    by (auto simp: depends_on_def put_monitor_def split: if_splits)
  from assms(3) consider "ed_parent m = ed_parent stored" | "ed_parent m = None"
    | p where "ed_parent m = Some p" "parent_walk (parents_in db lk) max_dependency_depth [ed_id m] (Some p) = None"
    by (auto simp: rightful_def stored(2))
  then show ?thesis
  proof cases
    case 1
    then have "{(ed_id m, p) |p. ed_parent m = Some p} \<subseteq> depends_on db" using stored by (auto simp: depends_on_def) metis
    with edges show ?thesis by blast
  next
    case 2
    with edges show ?thesis by auto
  next
    case (3 p)
    from walk_clear[OF 3(2) assms(1), of "ed_id m"] have "(p, ed_id m) \<notin> (depends_on db)\<^sup>*" by auto
    with edges 3(1) show ?thesis by auto
  qed
qed

lemma put_monitor_ids [simp]: "map ed_id (put_monitor m db) = map ed_id db"
  by (induction db) (auto simp: put_monitor_def)

lemma forest_smaller: "forest db \<Longrightarrow> distinct (map ed_id db') \<Longrightarrow> depends_on db' \<subseteq> depends_on db \<Longrightarrow> forest db'"
  by (auto simp: forest_def intro: acyclic_subset)

lemma forest_edge:
  "forest db \<Longrightarrow> distinct (map ed_id db') \<Longrightarrow> depends_on db' \<subseteq> insert (i, p) (depends_on db) \<Longrightarrow>
     (p, i) \<notin> (depends_on db)\<^sup>* \<Longrightarrow> forest db'"
  using acyclic_subset[OF new_edge_acyclic, of "depends_on db" p i "depends_on db'"] by (simp add: forest_def)

lemma write_monitor_forest:
  assumes "forest db"
  shows "forest (write_monitor lk db w)"
proof (cases w)
  case (Create_monitor i type df b)
  obtain problems m where m: "create_checked (parents_in db lk) i type df b = (problems, m)" by fastforce
  show ?thesis
  proof (cases "problems = [] \<and> i \<notin> ed_id ` set db")
    case True
    have r: "rightful (parents_in db lk) (new_monitor i type df) m"
      using create_rightful[of "parents_in db lk" i type df b] by (simp add: m)
    have new: "ed_id (new_monitor i type df) = i" "ed_parent (new_monitor i type df) = None" by (simp_all add: new_monitor_def)
    have i: "ed_id m = i" using r by (simp add: rightful_def new)
    have d: "distinct (map ed_id (db @ [m]))" using assms True i by (simp add: forest_def)
    have edges: "depends_on (db @ [m]) = depends_on db \<union> {(i, p) |p. ed_parent m = Some p}"
      unfolding depends_on_def i[symmetric] by auto
    have "forest (db @ [m])"
    proof (cases "ed_parent m")
      case None
      with edges show ?thesis by (intro forest_smaller[OF assms d]) simp
    next
      case (Some p)
      then have "parent_walk (parents_in db lk) max_dependency_depth [i] (Some p) = None"
        using r by (simp add: rightful_def new)
      from walk_clear[OF this] assms have "(p, i) \<notin> (depends_on db)\<^sup>*" by (auto simp: forest_def)
      with edges Some show ?thesis by (intro forest_edge[OF assms d, of i p]) simp_all
    qed
    with True m Create_monitor show ?thesis by simp
  qed (use m assms Create_monitor in auto)
next
  case (Update_monitor i b)
  show ?thesis
  proof (cases "stored_monitor db i")
    case (Some stored)
    obtain problems m where m: "apply_monitor_update (parents_in db lk) stored b = (problems, m)" by fastforce
    have r: "rightful (parents_in db lk) stored m" using update_rightful[of "parents_in db lk" stored b] by (simp add: m)
    have "ed_id stored = i" using Some by (auto simp: stored_monitor_def dest: find_SomeD)
    then have "stored_monitor db (ed_id m) = Some stored" using r Some by (simp add: rightful_def)
    from put_edges[OF _ this r] assms have "forest (put_monitor m db)"
      using forest_smaller[OF assms, of "put_monitor m db"] forest_edge[OF assms, of "put_monitor m db"] by (auto simp: forest_def)
    with assms Some m Update_monitor show ?thesis by simp
  qed (use assms Update_monitor in simp)
next
  case (Delete_monitor i)
  have "depends_on (filter (\<lambda>m. ed_id m \<noteq> i) db) \<subseteq> depends_on db" by (auto simp: depends_on_def)
  moreover have "distinct (map ed_id (filter (\<lambda>m. ed_id m \<noteq> i) db))" using assms by (simp add: forest_def distinct_map_filter)
  ultimately show ?thesis using assms forest_smaller Delete_monitor by simp
qed

definition write_all :: "(lookups \<times> monitor_write) list \<Rightarrow> monitors \<Rightarrow> monitors" where
  "write_all ws db = fold (\<lambda>(lk, w) db. write_monitor lk db w) ws db"

text \<open>C8: However monitors are created, edited and deleted, one request after the other, no monitor ever comes
  to depend on itself through others, whatever the store answers about groups and probes.\<close>

theorem dependencies_never_loop: "acyclic (depends_on (write_all ws []))"
proof -
  have "forest (write_all ws db)" if "forest db" for db
    using that unfolding write_all_def by (induction ws arbitrary: db) (auto simp: write_monitor_forest)
  from this[of "[]"] show ?thesis by (simp add: forest_def depends_on_def acyclic_def)
qed

section \<open>Two edits at once\<close>

definition no_edit :: monitor_edit where
  "no_edit =
     \<lparr> me_name = None, me_description = None, me_enabled = None, me_interval = None, me_timeout = None,
       me_retries = None, me_retry_interval = Left_out, me_resend_after = None, me_upside_down = None,
       me_notify_on_recovery = None, me_group = Left_out, me_parent = Left_out, me_probe = Left_out,
       me_slo_target = Left_out \<rparr>"

definition reparent :: "ident \<Rightarrow> monitor_edit" where
  "reparent p = no_edit \<lparr> me_parent := Given (id_string p) \<rparr>"

lemma id_string_given: "length p = 16 \<Longrightarrow> id_string p \<noteq> ''''"
  by (simp add: id_string_def)

lemma reparent_accepted:
  assumes "length p = 16" "p \<noteq> ed_id m" "spaced m" "ed_type m \<noteq> ''docker''"
    and "parent_walk lk max_dependency_depth [ed_id m] (Some p) = None"
  shows "apply_monitor_update lk m (reparent p) = ([], m \<lparr> ed_parent := Some p \<rparr>)"
  using assms
  by (simp add: apply_monitor_update_def reparent_def no_edit_def edit_numbers_def edit_plain_def edit_steps
      apply_group_change_def apply_parent_change_def resolve_parent_def apply_pin_change_def resolve_pin_def place_def
      host_local_def parse_id_string id_string_given spaced_def)

lemma depends_onI: "m \<in> set db \<Longrightarrow> ed_id m = i \<Longrightarrow> ed_parent m = Some p \<Longrightarrow> (i, p) \<in> depends_on db"
  by (auto simp: depends_on_def)

lemma put_monitor_in:
  "x \<in> set db \<Longrightarrow> ed_id x = ed_id m \<Longrightarrow> m \<in> set (put_monitor m db)"
  "x \<in> set db \<Longrightarrow> ed_id x \<noteq> ed_id m \<Longrightarrow> x \<in> set (put_monitor m db)"
  by (force simp: put_monitor_def intro: rev_image_eqI)+

text \<open>C39: Two edits in flight at once can close a loop. Each is checked against what is stored, where neither
  monitor depends on anything; both are accepted; and once both are written each monitor depends on
  the other.\<close>

theorem concurrent_edits_close_a_loop:
  assumes "stored_monitor db i = Some m" "stored_monitor db j = Some n" "i \<noteq> j" "length i = 16" "length j = 16"
    and "ed_parent m = None" "ed_parent n = None" "spaced m" "spaced n" "ed_type m \<noteq> ''docker''" "ed_type n \<noteq> ''docker''"
  shows "\<exists>m' n'. apply_monitor_update (parents_in db lk) m (reparent j) = ([], m') \<and>
    apply_monitor_update (parents_in db lk) n (reparent i) = ([], n') \<and>
    (i, j) \<in> depends_on (put_monitor n' (put_monitor m' db)) \<and> (j, i) \<in> depends_on (put_monitor n' (put_monitor m' db))"
proof -
  have ids: "ed_id m = i" "ed_id n = j" "m \<in> set db" "n \<in> set db"
    using assms(1,2) by (auto simp: stored_monitor_def dest: find_SomeD)
  have walks: "parent_walk (parents_in db lk) max_dependency_depth [i] (Some j) = None"
    "parent_walk (parents_in db lk) max_dependency_depth [j] (Some i) = None"
    using assms(1-3,6,7) by (simp_all add: max_dependency_depth_def numeral_eq_Suc parents_in_def)
  let ?m = "m \<lparr> ed_parent := Some j \<rparr>" and ?n = "n \<lparr> ed_parent := Some i \<rparr>"
  have "?m \<in> set (put_monitor ?m db)" "n \<in> set (put_monitor ?m db)"
    using ids assms(3) put_monitor_in(1)[of m db ?m] put_monitor_in(2)[of n db ?m] by simp_all
  then have "?m \<in> set (put_monitor ?n (put_monitor ?m db))" "?n \<in> set (put_monitor ?n (put_monitor ?m db))"
    using ids assms(3) put_monitor_in(2)[of ?m "put_monitor ?m db" ?n] put_monitor_in(1)[of n "put_monitor ?m db" ?n] by simp_all
  then have "(i, j) \<in> depends_on (put_monitor ?n (put_monitor ?m db))" "(j, i) \<in> depends_on (put_monitor ?n (put_monitor ?m db))"
    by (simp_all add: ids depends_onI)
  moreover have "apply_monitor_update (parents_in db lk) m (reparent j) = ([], ?m)"
    using reparent_accepted[of j m] assms walks ids by simp
  moreover have "apply_monitor_update (parents_in db lk) n (reparent i) = ([], ?n)"
    using reparent_accepted[of i n] assms walks ids by simp
  ultimately show ?thesis by blast
qed

section \<open>Instances\<close>

definition no_defaults :: instance_defaults where
  "no_defaults = \<lparr> df_interval = None, df_timeout = None, df_retries = None \<rparr>"

definition quiet_lookups :: lookups where
  "quiet_lookups = \<lparr> lk_parent = (\<lambda>i. Missing), lk_group = (\<lambda>i. Missing), lk_probe = (\<lambda>i. Missing), lk_probe_count = Some 1,
     lk_probes = Some [] \<rparr>"

definition plain_monitor :: "8 word \<Rightarrow> editable" where
  "plain_monitor k = (new_monitor (replicate 15 0 @ [k]) ''http'' no_defaults) \<lparr> ed_name := ''m'' \<rparr>"

lemma plain_monitor_bounds: "within_bounds (plain_monitor k)" "in_range (new_monitor i type no_defaults)"
  by (simp_all add: within_bounds_def in_range_def spaced_def well_named_def plain_monitor_def new_monitor_def no_defaults_def second_def)


theorem concurrent_edits_close_a_loop_witness:
  "\<exists>m' n'. apply_monitor_update (parents_in [plain_monitor 1, plain_monitor 2] quiet_lookups) (plain_monitor 1)
      (reparent (replicate 15 0 @ [2])) = ([], m') \<and>
    (replicate 15 0 @ [1], replicate 15 0 @ [2]) \<in> depends_on (put_monitor n' (put_monitor m' [plain_monitor 1, plain_monitor 2])) \<and>
    (replicate 15 0 @ [2], replicate 15 0 @ [1]) \<in> depends_on (put_monitor n' (put_monitor m' [plain_monitor 1, plain_monitor 2]))"
proof -
  have m: "ed_id (plain_monitor k) = replicate 15 0 @ [k]" "ed_parent (plain_monitor k) = None" "ed_type (plain_monitor k) = ''http''"
    "spaced (plain_monitor k)" for k
    using plain_monitor_bounds(1)[of k] by (simp_all add: plain_monitor_def new_monitor_def within_bounds_def)
  have s: "stored_monitor [plain_monitor 1, plain_monitor 2] (replicate 15 0 @ [1]) = Some (plain_monitor 1)"
    "stored_monitor [plain_monitor 1, plain_monitor 2] (replicate 15 0 @ [2]) = Some (plain_monitor 2)"
    by (simp_all add: stored_monitor_def m)
  from concurrent_edits_close_a_loop[OF s, of quiet_lookups] show ?thesis by (auto simp: m)
qed

end
