(* ===== verification/ReportFigures.thy ===== *)
theory ReportFigures
  imports Rollup Float64
begin

text \<open>
  The figures of a report (\<open>internal/report\<close>: \<open>uptime.go\<close>, \<open>sla.go\<close>, \<open>breach.go\<close>, \<open>latency.go\<close>,
  \<open>postmortem.go\<close>) over \<open>store.HistoryBucket\<close>: the uptime ratio and its denominator, the error
  budget, the periods that spent it, the latency series, and the intervals of an incident. Every
  division is Go's on \<open>float64\<close>. A duration is a number of nanoseconds.
\<close>

section \<open>Buckets\<close>

record history_bucket =
  hk_start :: instant
  hk_up :: int
  hk_down :: int
  hk_pending :: int
  hk_maintenance :: int
  hk_unknown :: int
  hk_skipped :: int
  hk_rt_sum :: rat
  hk_rt_count :: int
  hk_rt_min :: "rat option"
  hk_rt_max :: "rat option"
  hk_rt_p95 :: "rat option"

definition no_bucket :: history_bucket where
  "no_bucket =
     \<lparr> hk_start = zero_time, hk_up = 0, hk_down = 0, hk_pending = 0, hk_maintenance = 0,
       hk_unknown = 0, hk_skipped = 0, hk_rt_sum = 0, hk_rt_count = 0, hk_rt_min = None,
       hk_rt_max = None, hk_rt_p95 = None \<rparr>"

definition observed :: "history_bucket \<Rightarrow> int" where
  "observed b = hk_up b + hk_down b"

section \<open>Uptime\<close>

definition MaintenanceExclude :: string where "MaintenanceExclude = ''exclude''"
definition MaintenanceCountAsUp :: string where "MaintenanceCountAsUp = ''count_as_up''"
definition MaintenanceCountAsDown :: string where "MaintenanceCountAsDown = ''count_as_down''"

lemmas maintenance_policies [simp] =
  MaintenanceExclude_def MaintenanceCountAsUp_def MaintenanceCountAsDown_def

record uptime =
  u_ratio :: "rat option"
  u_handling :: string
  u_observed :: int
  u_up :: int
  u_down :: int
  u_maintenance :: int
  u_unknown :: int
  u_skipped :: int
  u_unobserved_share :: "rat option"

definition float_ratio :: "int \<Rightarrow> int \<Rightarrow> rat" where
  "float_ratio a b = float_div (float_of_int a) (float_of_int b)"

definition compute_uptime :: "history_bucket \<Rightarrow> string \<Rightarrow> uptime" where
  "compute_uptime b given =
     (let handling = (if given = '''' then MaintenanceExclude else given);
          up = (if handling = MaintenanceCountAsUp then hk_up b + hk_maintenance b else hk_up b);
          down = (if handling = MaintenanceCountAsDown then hk_down b + hk_maintenance b else hk_down b);
          scheduled = hk_up b + hk_down b + hk_maintenance b + hk_unknown b + hk_skipped b
      in \<lparr> u_ratio = (if 0 < up + down then Some (float_ratio up (up + down)) else None),
           u_handling = handling, u_observed = up + down, u_up = hk_up b, u_down = hk_down b,
           u_maintenance = hk_maintenance b, u_unknown = hk_unknown b, u_skipped = hk_skipped b,
           u_unobserved_share =
             (if 0 < scheduled then Some (float_ratio (hk_unknown b + hk_skipped b) scheduled) else None) \<rparr>)"

text \<open>\<open>Sum\<close>: the first bucket sets the start, the loop adds in the order of the slice.\<close>

definition add_bucket :: "history_bucket \<Rightarrow> history_bucket \<Rightarrow> history_bucket" where
  "add_bucket tot b =
     tot \<lparr> hk_up := hk_up tot + hk_up b, hk_down := hk_down tot + hk_down b,
             hk_pending := hk_pending tot + hk_pending b,
             hk_maintenance := hk_maintenance tot + hk_maintenance b,
             hk_unknown := hk_unknown tot + hk_unknown b,
             hk_skipped := hk_skipped tot + hk_skipped b,
             hk_rt_sum := float_add (hk_rt_sum tot) (hk_rt_sum b),
             hk_rt_count := hk_rt_count tot + hk_rt_count b \<rparr>"

definition sum_step :: "history_bucket \<Rightarrow> history_bucket \<Rightarrow> history_bucket" where
  "sum_step tot b =
     add_bucket (if hk_start b < hk_start tot then tot \<lparr> hk_start := hk_start b \<rparr> else tot) b"

fun sum_buckets :: "history_bucket list \<Rightarrow> history_bucket" where
  "sum_buckets [] = no_bucket"
| "sum_buckets (b # bs) = foldl sum_step (add_bucket (no_bucket \<lparr> hk_start := hk_start b \<rparr>) b) bs"

section \<open>Breaches\<close>

record breach =
  br_started :: instant
  br_ended :: instant
  br_seconds :: int

text \<open>\<open>math.Round\<close>: to the nearest integer, halves away from zero.\<close>

definition float_round :: "rat \<Rightarrow> int" where
  "float_round x = (if 0 \<le> x then \<lfloor>x + 1 / 2\<rfloor> else - \<lfloor>1 / 2 - x\<rfloor>)"

definition day_downtime_seconds :: "int \<Rightarrow> int \<Rightarrow> rat" where
  "day_downtime_seconds down seen =
     (if seen \<le> 0 \<or> down \<le> 0 then 0 else float_mul (float_ratio down seen) 86400)"

definition day_down :: "string \<Rightarrow> history_bucket \<Rightarrow> int" where
  "day_down handling b =
     (if handling = MaintenanceCountAsDown then hk_down b + hk_maintenance b else hk_down b)"

definition day_observed :: "string \<Rightarrow> history_bucket \<Rightarrow> int" where
  "day_observed handling b =
     (if handling = MaintenanceCountAsUp \<or> handling = MaintenanceCountAsDown
      then hk_up b + hk_down b + hk_maintenance b else hk_up b + hk_down b)"

text \<open>The variables of the loop: the breaches found, the open one, and its seconds.\<close>

record breach_scan =
  bs_out :: "breach list"
  bs_current :: "breach option"
  bs_seconds :: rat

definition flush :: "breach_scan \<Rightarrow> breach_scan" where
  "flush s =
     (case bs_current s of
        None \<Rightarrow> s
      | Some c \<Rightarrow>
          \<lparr> bs_out = bs_out s @ [c \<lparr> br_seconds := float_to_int (of_int (float_round (bs_seconds s))) \<rparr>],
            bs_current = None, bs_seconds = 0 \<rparr>)"

definition breach_day :: "string \<Rightarrow> breach_scan \<Rightarrow> history_bucket \<Rightarrow> breach_scan" where
  "breach_day handling s b =
     (let down = day_down handling b; seen = day_observed handling b in
      if down = 0 then (if 0 < seen then flush s else s)
      else let stop = add_date utc (hk_start b) 0 0 1 in
        s \<lparr> bs_seconds := float_add (bs_seconds s) (day_downtime_seconds down seen),
            bs_current := Some (case bs_current s of
                None \<Rightarrow> \<lparr> br_started = hk_start b, br_ended = stop, br_seconds = 0 \<rparr>
              | Some c \<Rightarrow> c \<lparr> br_ended := stop \<rparr>) \<rparr>)"

definition compute_breaches :: "history_bucket list \<Rightarrow> string \<Rightarrow> breach list" where
  "compute_breaches daily handling =
     bs_out (flush (foldl (breach_day handling) \<lparr> bs_out = [], bs_current = None, bs_seconds = 0 \<rparr> daily))"

definition downtime_seconds :: "history_bucket list \<Rightarrow> string \<Rightarrow> int" where
  "downtime_seconds daily handling = sum_list (map br_seconds (compute_breaches daily handling))"

section \<open>The error budget\<close>

definition TargetFromTemplate :: string where "TargetFromTemplate = ''template''"

record target =
  tg_percent :: rat
  tg_source :: string

record sla =
  sla_target :: target
  sla_actual :: "rat option"
  sla_met :: "bool option"
  sla_budget :: int
  sla_consumed :: int
  sla_remaining :: int
  sla_consumed_ratio :: "rat option"
  sla_burn_rate :: "rat option"

definition duration_seconds :: "duration \<Rightarrow> rat" where
  "duration_seconds d =
     float_add (float_of_int (go_div d second)) (float_div (float_of_int (go_mod d second)) (float_of_int second))"

definition error_budget :: "duration \<Rightarrow> rat \<Rightarrow> rat" where
  "error_budget window percent =
     (let secs = duration_seconds window;
          budget = float_mul (if secs < 0 then 0 else secs) (float_sub 1 (float_div percent 100))
      in if budget < 0 then 0 else budget)"

definition compute_sla :: "uptime \<Rightarrow> target \<Rightarrow> duration \<Rightarrow> int \<Rightarrow> sla" where
  "compute_sla u t window downtime =
     (let budget = error_budget window (tg_percent t);
          whole = float_to_int (of_int (float_round budget));
          actual = map_option (\<lambda>r. float_mul r 100) (u_ratio u);
          spent = (if actual \<noteq> None \<and> 0 < budget then Some (float_div (float_of_int downtime) budget) else None)
      in \<lparr> sla_target = t, sla_actual = actual,
           sla_met = map_option (\<lambda>a. float_sub (tg_percent t) (fl (1 / 1000000000)) \<le> a) actual,
           sla_budget = whole, sla_consumed = downtime, sla_remaining = whole - downtime,
           sla_consumed_ratio = spent, sla_burn_rate = spent \<rparr>)"

section \<open>Latency\<close>

record day_latency =
  dl_date :: instant
  dl_average :: "rat option"
  dl_samples :: int

record p95 =
  p95_available :: bool
  p95_value :: "rat option"
  p95_window :: "(instant \<times> instant) option"
  p95_method :: string
  p95_reason :: string

record latency =
  la_average :: "rat option"
  la_samples :: int
  la_daily :: "day_latency list"
  la_best :: "day_latency option"
  la_worst :: "day_latency option"
  la_target :: "int option"
  la_days_over :: "int option"
  la_dates_over :: "instant list"
  la_p95 :: "p95 option"

definition average :: "history_bucket \<Rightarrow> rat option" where
  "average b =
     (if 0 < hk_rt_count b then Some (float_div (hk_rt_sum b) (float_of_int (hk_rt_count b))) else None)"

definition beats :: "(rat \<Rightarrow> rat \<Rightarrow> bool) \<Rightarrow> rat \<Rightarrow> day_latency option \<Rightarrow> bool" where
  "beats better avg best =
     (case best of None \<Rightarrow> True
      | Some d \<Rightarrow> (case dl_average d of None \<Rightarrow> False | Some a \<Rightarrow> better avg a))"

definition latency_day :: "int option \<Rightarrow> latency \<Rightarrow> history_bucket \<Rightarrow> latency" where
  "latency_day tgt l b =
     (let point = \<lparr> dl_date = hk_start b, dl_average = average b, dl_samples = hk_rt_count b \<rparr>;
          l' = (case average b of
                  None \<Rightarrow> l
                | Some avg \<Rightarrow>
                    l \<lparr> la_best := (if beats (<) avg (la_best l) then Some point else la_best l),
                        la_worst := (if beats (>) avg (la_worst l) then Some point else la_worst l),
                        la_dates_over :=
                          (case tgt of
                             Some ms \<Rightarrow> if float_of_int ms < avg then la_dates_over l @ [hk_start b] else la_dates_over l
                           | None \<Rightarrow> la_dates_over l) \<rparr>)
      in l' \<lparr> la_daily := la_daily l @ [point] \<rparr>)"

definition compute_latency :: "history_bucket \<Rightarrow> history_bucket list \<Rightarrow> int option \<Rightarrow> latency" where
  "compute_latency tot daily tgt =
     (let l = foldl (latency_day tgt)
                \<lparr> la_average = average tot, la_samples = hk_rt_count tot, la_daily = [],
                  la_best = None, la_worst = None, la_target = tgt, la_days_over = None,
                  la_dates_over = [], la_p95 = None \<rparr> daily
      in case tgt of
           None \<Rightarrow> l
         | Some _ \<Rightarrow> l \<lparr> la_days_over := Some (int (length (la_dates_over l))) \<rparr>)"

definition absent_p95 :: "string \<Rightarrow> p95" where
  "absent_p95 why =
     \<lparr> p95_available = False, p95_value = None, p95_window = None, p95_method = '''', p95_reason = why \<rparr>"

definition trailing_p95 :: "bool \<Rightarrow> rat option \<Rightarrow> instant \<Rightarrow> instant \<Rightarrow> p95" where
  "trailing_p95 covered value start stop =
     (if \<not> covered then absent_p95 ''insufficient_raw_retention''
      else if value = None then absent_p95 ''no_successful_checks''
      else \<lparr> p95_available = True, p95_value = value, p95_window = Some (start, stop),
             p95_method = ''nearest_rank'', p95_reason = '''' \<rparr>)"

section \<open>Incidents\<close>

text \<open>
  The part of an incident the post-mortem reads. An interval runs from the start to the instant
  measured, is unknown without that instant, and in the report also when it is negative.
\<close>

record incident_times =
  in_id :: ident
  in_started :: instant
  in_detected :: "instant option"
  in_acknowledged :: "instant option"
  in_resolved :: "instant option"

record incident_metrics =
  time_to_detect :: "int option"
  time_to_acknowledge :: "int option"
  time_to_resolve :: "int option"

definition since_start :: "incident_times \<Rightarrow> instant option \<Rightarrow> int option" where
  "since_start i mark = map_option (\<lambda>t. float_to_int (duration_seconds (t - in_started i))) mark"

definition metrics :: "incident_times \<Rightarrow> incident_metrics" where
  "metrics i =
     \<lparr> time_to_detect = since_start i (in_detected i),
       time_to_acknowledge = since_start i (in_acknowledged i),
       time_to_resolve = since_start i (in_resolved i) \<rparr>"

record incident_section =
  is_incident :: incident_times
  is_mttd :: "int option"
  is_mtta :: "int option"
  is_mttr :: "int option"
  is_alerts :: "int option"

definition non_negative :: "int option \<Rightarrow> int option" where
  "non_negative s = (case s of Some n \<Rightarrow> if n < 0 then None else Some n | None \<Rightarrow> None)"

text \<open>A count in a map that has no entry reads as zero; without the map nothing is known.\<close>

definition alerts_for :: "incident_times \<Rightarrow> (ident \<Rightarrow> int option) option \<Rightarrow> instant option \<Rightarrow> int option" where
  "alerts_for i alerts retained =
     (if (case retained of Some t \<Rightarrow> in_started i < t | None \<Rightarrow> False) then None
      else map_option (\<lambda>counts. case counts (in_id i) of Some n \<Rightarrow> n | None \<Rightarrow> 0) alerts)"

definition post_mortem ::
    "incident_times list \<Rightarrow> (ident \<Rightarrow> int option) option \<Rightarrow> instant option \<Rightarrow> incident_section list" where
  "post_mortem incidents alerts retained =
     map (\<lambda>i. \<lparr> is_incident = i, is_mttd = non_negative (time_to_detect (metrics i)),
                is_mtta = non_negative (time_to_acknowledge (metrics i)),
                is_mttr = non_negative (time_to_resolve (metrics i)),
                is_alerts = alerts_for i alerts retained \<rparr>) incidents"

record mtt_summary =
  mtt_incidents :: int
  mtt_detect :: "int option \<times> int"
  mtt_acknowledge :: "int option \<times> int"
  mtt_resolve :: "int option \<times> int"

definition mean_known :: "int option list \<Rightarrow> int option \<times> int" where
  "mean_known xs =
     (let vs = List.map_filter id xs; known = int (length vs)
      in (if 0 < known then Some (go_div (sum_list vs) known) else None, known))"

definition summarise :: "incident_section list \<Rightarrow> mtt_summary" where
  "summarise ins =
     \<lparr> mtt_incidents = int (length ins), mtt_detect = mean_known (map is_mttd ins),
       mtt_acknowledge = mean_known (map is_mtta ins), mtt_resolve = mean_known (map is_mttr ins) \<rparr>"

end
