(* ===== verification/ReportWindow.thy ===== *)
theory ReportWindow
  imports Cron ReportFigures
begin

text \<open>
  When a report is made and what it covers (\<open>internal/report/window.go\<close>, \<open>schedule.go\<close>): the
  period cut in a stated zone, the tier that can answer for it, and the cron expression behind
  each named frequency. Looking up a zone by name is a parameter.
\<close>

section \<open>The period\<close>

text \<open>A \<open>time.Time\<close> carries its location; that of the two ends is \<open>wi_times_in\<close>.\<close>

record window =
  wi_from :: instant
  wi_to :: instant
  wi_zone :: string
  wi_times_in :: location

datatype window_error =
  No_timezone | Not_rolling string | Unknown_style string | Needs_dates string | Unknown_period string
| Bad_timezone string | Window_backwards instant instant

definition window_duration :: "window \<Rightarrow> duration" where
  "window_duration w = wi_to w - wi_from w"

definition rolling_from :: "string \<Rightarrow> location \<Rightarrow> instant \<Rightarrow> instant option" where
  "rolling_from period loc stop =
     (if period = ''day'' then Some (add_date loc stop 0 0 (- 1))
      else if period = ''week'' then Some (add_date loc stop 0 0 (- 7))
      else if period = ''month'' then Some (add_date loc stop 0 (- 1) 0)
      else if period = ''quarter'' then Some (add_date loc stop 0 (- 3) 0)
      else if period = ''year'' then Some (add_date loc stop (- 1) 0 0)
      else None)"

definition midnight :: "location \<Rightarrow> int \<Rightarrow> int \<Rightarrow> int \<Rightarrow> instant" where
  "midnight loc y m d = go_date loc y m d 0 0 0 0"

text \<open>The start of the period the instant lies in, and that of the one before.\<close>

definition calendar_window :: "string \<Rightarrow> location \<Rightarrow> instant \<Rightarrow> window_error + instant \<times> instant" where
  "calendar_window period loc now =
     (case date_of loc now of (y, m, d) \<Rightarrow>
        if period = ''day'' then
          (let stop = midnight loc y m d in Inr (add_date loc stop 0 0 (- 1), stop))
        else if period = ''week'' then
          (let offset = go_mod (weekday_of loc now + 6) 7;
               stop = add_date loc (midnight loc y m d) 0 0 (- offset)
           in Inr (add_date loc stop 0 0 (- 7), stop))
        else if period = ''month'' then
          (let stop = midnight loc y m 1 in Inr (add_date loc stop 0 (- 1) 0, stop))
        else if period = ''quarter'' then
          (let stop = midnight loc y (go_div (m - 1) 3 * 3 + 1) 1 in Inr (add_date loc stop 0 (- 3) 0, stop))
        else if period = ''year'' then
          (let stop = midnight loc y 1 1 in Inr (add_date loc stop (- 1) 0 0, stop))
        else if period = ''custom'' then Inl (Needs_dates period)
        else Inl (Unknown_period period))"

definition resolve_window :: "string \<Rightarrow> string \<Rightarrow> location option \<Rightarrow> instant \<Rightarrow> window_error + window" where
  "resolve_window period style zone now =
     (case zone of
        None \<Rightarrow> Inl No_timezone
      | Some loc \<Rightarrow>
          (let st = (if style = '''' then ''calendar'' else style) in
           if st = ''rolling'' then
             (case rolling_from period loc now of
                None \<Rightarrow> Inl (Not_rolling period)
              | Some from_t \<Rightarrow> Inr \<lparr> wi_from = from_t, wi_to = now, wi_zone = loc_name loc, wi_times_in = loc \<rparr>)
           else if st \<noteq> ''calendar'' then Inl (Unknown_style st)
           else and_then (calendar_window period loc now)
             (\<lambda>(from_t, to_t). Inr \<lparr> wi_from = from_t, wi_to = to_t, wi_zone = loc_name loc, wi_times_in = loc \<rparr>)))"

section \<open>The tier that answers\<close>

record resolution =
  rs_tier :: string
  rs_requested :: string
  rs_downgraded :: bool
  rs_covered_from :: "instant option"

text \<open>\<open>report.Retention\<close> has the five fields of the pipeline's policy that matter here.\<close>

definition tier_retention :: "retention \<Rightarrow> (string \<times> int) list" where
  "tier_retention r =
     [(''1m'', rollup_1m_days r), (''5m'', rollup_5m_days r), (''1h'', rollup_1h_days r), (''1d'', rollup_1d_days r)]"

definition tier_covers :: "location \<Rightarrow> instant \<Rightarrow> instant \<Rightarrow> int \<Rightarrow> bool" where
  "tier_covers loc now from_t days = (days = 0 \<or> add_date loc now 0 0 (- days) \<le> from_t)"

definition asked_for :: "string \<Rightarrow> bool" where
  "asked_for requested = (requested \<noteq> '''' \<and> requested \<noteq> ''auto'')"

text \<open>The tiers from the one requested on; \<open>None\<close> is a name that is none of them.\<close>

definition candidate_tiers :: "string \<Rightarrow> retention \<Rightarrow> (string \<times> int) list option" where
  "candidate_tiers requested r =
     (if \<not> asked_for requested then Some (tier_retention r)
      else case dropWhile (\<lambda>t. fst t \<noteq> requested) (tier_retention r) of [] \<Rightarrow> None | ts \<Rightarrow> Some ts)"

definition resolve_tier :: "string \<Rightarrow> window \<Rightarrow> location \<Rightarrow> instant \<Rightarrow> retention \<Rightarrow> resolution" where
  "resolve_tier requested w loc now r =
     (case candidate_tiers requested r of
        None \<Rightarrow> \<lparr> rs_tier = ''1d'', rs_requested = requested, rs_downgraded = True, rs_covered_from = None \<rparr>
      | Some ts \<Rightarrow>
          (case find (\<lambda>t. tier_covers loc now (wi_from w) (snd t)) ts of
             Some t \<Rightarrow>
               \<lparr> rs_tier = fst t, rs_requested = requested,
                 rs_downgraded = (fst t \<noteq> fst (hd ts) \<and> asked_for requested), rs_covered_from = None \<rparr>
           | None \<Rightarrow>
               (let from_t = add_date loc now 0 0 (- rollup_1d_days r) in
                \<lparr> rs_tier = ''1d'', rs_requested = requested, rs_downgraded = asked_for requested,
                  rs_covered_from =
                    (if 0 < rollup_1d_days r \<and> wi_from w < from_t then Some from_t else None) \<rparr>)))"

definition raw_covers_trailing_week :: "retention \<Rightarrow> bool" where
  "raw_covers_trailing_week r = (raw_days r = 0 \<or> 7 \<le> raw_days r)"

section \<open>When a schedule fires\<close>

record schedule_spec =
  sp_frequency :: string
  sp_cron :: string
  sp_timezone :: string
  sp_send_at :: string

datatype schedule_error =
  Cron_missing | Cron_unexpected string | Send_at_malformed string | Send_at_hour string
| Send_at_minute string | Unknown_frequency string | Cron_rejected cron_error | Zone_unknown string
| Never_fires string

definition parse_send_at :: "string \<Rightarrow> schedule_error + int \<times> int" where
  "parse_send_at given =
     (let v = trim_space given; value = (if v = '''' then ''09:00'' else v) in
      case cut CHR '':'' value of
        (before, after, found) \<Rightarrow>
          if \<not> found \<or> length before \<noteq> 2 \<or> length after \<noteq> 2 then Inl (Send_at_malformed value)
          else case atoi before of
            None \<Rightarrow> Inl (Send_at_hour value)
          | Some h \<Rightarrow>
              if h < 0 \<or> 23 < h then Inl (Send_at_hour value)
              else case atoi after of
                None \<Rightarrow> Inl (Send_at_minute value)
              | Some mi \<Rightarrow> if mi < 0 \<or> 59 < mi then Inl (Send_at_minute value) else Inr (h, mi))"

definition at_time :: "int \<Rightarrow> int \<Rightarrow> string \<Rightarrow> string" where
  "at_time hh mi rest = itoa mi @ '' '' @ itoa hh @ '' '' @ rest"

definition cron_for :: "schedule_spec \<Rightarrow> schedule_error + string" where
  "cron_for spec =
     (if sp_frequency spec = ''cron'' then
        (if trim_space (sp_cron spec) = '''' then Inl Cron_missing else Inr (sp_cron spec))
      else if trim_space (sp_cron spec) \<noteq> '''' then Inl (Cron_unexpected (sp_frequency spec))
      else and_then (parse_send_at (sp_send_at spec)) (\<lambda>(hh, mi).
        if sp_frequency spec = ''daily'' then Inr (at_time hh mi ''* * *'')
        else if sp_frequency spec = ''weekly'' then Inr (at_time hh mi ''* * 1'')
        else if sp_frequency spec = ''monthly'' then Inr (at_time hh mi ''1 * *'')
        else if sp_frequency spec = ''quarterly'' then Inr (at_time hh mi ''1 1,4,7,10 *'')
        else Inl (Unknown_frequency (sp_frequency spec))))"

definition schedule_zone :: "(string \<Rightarrow> location option) \<Rightarrow> string \<Rightarrow> schedule_error + location" where
  "schedule_zone zones name =
     (if name = '''' then Inr utc else expect (Zone_unknown name) (zones name))"

definition next_run :: "(string \<Rightarrow> location option) \<Rightarrow> schedule_spec \<Rightarrow> instant \<Rightarrow> schedule_error + instant" where
  "next_run zones spec after =
     and_then (cron_for spec) (\<lambda>expression.
       and_then (case cron_parse expression of Inl e \<Rightarrow> Inl (Cron_rejected e) | Inr e \<Rightarrow> Inr e) (\<lambda>parsed.
         and_then (schedule_zone zones (sp_timezone spec)) (\<lambda>loc.
           expect (Never_fires expression) (cron_next parsed after (Some loc)))))"

end
