(* ===== verification/ReportWindowFacts.thy ===== *)
theory ReportWindowFacts
  imports ReportWindow
begin

text \<open>
  What the periods of a report are: in UTC the calendar windows of each kind tile time, so a
  report re-run later in its period covers the same window and the next one begins where it ended.
  In a zone whose clocks skip midnight on the first of a month they do not. And a named frequency
  means the cron fields it is documented to mean.
\<close>

section \<open>Months by their number\<close>

definition month_day :: "int \<Rightarrow> int" where
  "month_day n = norm_day_number 0 (n + 1) 1"

lemma month_index:
  fixes y m :: int
  shows "(12 * y + m - 1) div 12 = y + (m - 1) div 12" "(12 * y + m - 1) mod 12 = (m - 1) mod 12"
proof -
  have "12 * y + m - 1 = (m - 1) + y * 12" by simp
  then show "(12 * y + m - 1) div 12 = y + (m - 1) div 12" "(12 * y + m - 1) mod 12 = (m - 1) mod 12"
    by (simp_all only: div_mult_self1 mod_mult_self1 numeral_neq_zero not_False_eq_True)
qed

lemma norm_day_month: "norm_day_number y m d = month_day (12 * y + m - 1) + d - 1"
  by (simp add: month_day_def norm_day_number_def day_number_def month_index)

lemma month_day_parts:
  assumes "0 \<le> r" "r < 12"
  shows "month_day (12 * y + r) = days_before_year y + days_before_month (is_leap y) (r + 1) - 719162"
  using assms month_index[of y "r + 1"] by (simp add: month_day_def norm_day_number_def day_number_def)

lemma month_day_next:
  assumes "1 \<le> m" "m \<le> 12"
  shows "month_day (12 * y + m) = month_day (12 * y + m - 1) + month_len (is_leap y) m"
proof (cases "m = 12")
  case True
  then show ?thesis
    using month_day_parts[of 0 "y + 1"] month_day_parts[of 11 y] days_before_year_Suc[of y]
    by (simp add: year_len_def days_before_month_def month_len_def add.commute split: if_splits)
next
  case False
  have "days_before_month (is_leap y) (m + 1) = days_before_month (is_leap y) m + month_len (is_leap y) m"
    using False by (cases rule: month_cases[OF assms]) (simp_all add: days_before_month_def month_len_def)
  moreover have "month_day (12 * y + m - 1) = month_day (12 * y + (m - 1))" by (simp only: add_diff_eq)
  ultimately show ?thesis
    using False assms month_day_parts[of m y] month_day_parts[of "m - 1" y] by simp
qed

lemma month_day_step: "month_day n < month_day (n + 1)"
proof -
  have "n = 12 * (n div 12) + (n mod 12 + 1) - 1" by simp
  moreover have "1 \<le> n mod 12 + 1" "n mod 12 + 1 \<le> 12" by simp_all
  ultimately show ?thesis
    using month_day_next[of "n mod 12 + 1" "n div 12"]
    by (simp add: month_len_def split: if_splits)
qed

lemma month_day_less: "n < k \<Longrightarrow> month_day n < month_day k"
proof (induction k rule: int_gr_induct)
  case base
  show ?case by (rule month_day_step)
next
  case (step k)
  with month_day_step[of k] show ?case by simp
qed

lemma month_day_le: "n \<le> k \<Longrightarrow> month_day n \<le> month_day k"
  using month_day_less[of n k] by (cases "n = k") simp_all

lemma month_of_day:
  assumes "civil_of_day n = (y, m, d)"
  shows "month_day (12 * y + m - 1) \<le> n" "n < month_day (12 * y + m)" "n = month_day (12 * y + m - 1) + d - 1"
    "1 \<le> m" "m \<le> 12"
proof -
  note v = civil_of_day_valid[OF assms]
  then have m: "1 \<le> m" "m \<le> 12" "1 \<le> d" "d \<le> month_len (is_leap y) m" by (simp_all add: valid_date_def)
  show n: "n = month_day (12 * y + m - 1) + d - 1"
    using v(2) norm_day_month[of y m d] norm_day_number_valid[OF m(1,2)] by simp
  from month_day_next[OF m(1,2), of y] show "month_day (12 * y + m - 1) \<le> n" "n < month_day (12 * y + m)" using n m by simp_all
qed (use assms civil_of_day_valid(1)[OF assms] in \<open>simp_all add: valid_date_def\<close>)

section \<open>The boundaries of the periods\<close>

definition day_ns :: int where "day_ns = 86400000000000"

definition boundary :: "string \<Rightarrow> int \<Rightarrow> instant" where
  "boundary period k =
     (if period = ''day'' then k * day_ns
      else if period = ''week'' then (7 * k - 3) * day_ns
      else if period = ''month'' then month_day k * day_ns
      else if period = ''quarter'' then month_day (3 * k) * day_ns
      else month_day (12 * k) * day_ns)"

definition calendar_periods :: "string list" where
  "calendar_periods = [''day'', ''week'', ''month'', ''quarter'', ''year'']"

lemma midnight_utc: "midnight utc y m d = norm_day_number y m d * day_ns"
  by (simp add: midnight_def go_date_utc day_ns_def)

lemma day_of_midnight: "local_day utc (n * day_ns) = n"
  by (simp add: local_day_def local_sec_def unix_sec_def day_ns_def)

lemma month_of_midnight:
  assumes "civil_of_day (month_day n) = (y, m, d)"
  shows "12 * y + m - 1 = n" "d = 1"
proof -
  note v = month_of_day[OF assms]
  show n: "12 * y + m - 1 = n"
  proof (rule ccontr)
    assume "12 * y + m - 1 \<noteq> n"
    then consider "n < 12 * y + m - 1" | "n = 12 * y + m" | "12 * y + m < n" by linarith
    then show False using v(1,2) month_day_less by cases fastforce+
  qed
  from v(3) show "d = 1" unfolding n by simp
qed

lemma add_date_midnight:
  "add_date utc (month_day n * day_ns) dy dm 0 = month_day (n + 12 * dy + dm) * day_ns"
proof -
  obtain y m d where c: "civil_of_day (month_day n) = (y, m, d)" by (rule prod_cases3)
  have zero: "hour_of utc (k * day_ns) = 0" "minute_of utc (k * day_ns) = 0" "second_of utc (k * day_ns) = 0"
    "nanosecond_of (k * day_ns) = 0" for k
    by (simp_all add: hour_of_def minute_of_def second_of_def nanosecond_of_def local_sec_def unix_sec_def day_ns_def)
  have "12 * (y + dy) + (m + dm) - 1 = n + 12 * dy + dm" using month_of_midnight(1)[OF c] by simp
  then have "norm_day_number (y + dy) (m + dm) d = month_day (n + 12 * dy + dm)"
    by (simp only: norm_day_month month_of_midnight(2)[OF c])
  then show ?thesis
    by (simp only: add_date_def date_of_def day_of_midnight c prod.case go_date_utc zero)
      (simp add: day_ns_def)
qed

section \<open>The windows tile time\<close>

lemma boundary_less:
  assumes "i < j"
  shows "boundary p i < boundary p j"
  using assms month_day_less[of i j] month_day_less[of "3 * i" "3 * j"] month_day_less[of "12 * i" "12 * j"]
  by (simp add: boundary_def day_ns_def)

lemma day_bounds: "local_day utc t * day_ns \<le> t" "t < (local_day utc t + 1) * day_ns"
  by (simp_all add: local_day_def local_sec_def unix_sec_def day_ns_def)

lemma within_days:
  assumes "a \<le> local_day utc t" "local_day utc t < b"
  shows "a * day_ns \<le> t" "t < b * day_ns"
proof -
  have "a * day_ns \<le> local_day utc t * day_ns" "(local_day utc t + 1) * day_ns \<le> b * day_ns"
    using assms by (simp_all add: day_ns_def)
  with day_bounds[of t] show "a * day_ns \<le> t" "t < b * day_ns" by linarith+
qed

lemma month_windows:
  assumes "date_of utc t = (y, m, d)"
  shows "calendar_window ''month'' utc t = Inr (boundary ''month'' (12 * y + m - 2), boundary ''month'' (12 * y + m - 1))"
    "calendar_window ''quarter'' utc t =
       Inr (boundary ''quarter'' (4 * y + (m - 1) div 3 - 1), boundary ''quarter'' (4 * y + (m - 1) div 3))"
    "calendar_window ''year'' utc t = Inr (boundary ''year'' (y - 1), boundary ''year'' y)"
proof -
  have "1 \<le> m" using month_of_day(4) assms by (simp add: date_of_def)
  then have q: "go_div (m - 1) 3 = (m - 1) div 3" by (simp add: go_div_nonneg)
  have n: "12 * y + ((m - 1) div 3 * 3 + 1) - 1 = 3 * (4 * y + (m - 1) div 3)" by simp
  show "calendar_window ''month'' utc t = Inr (boundary ''month'' (12 * y + m - 2), boundary ''month'' (12 * y + m - 1))"
    by (simp add: calendar_window_def assms boundary_def midnight_utc norm_day_month add_date_midnight)
  have "midnight utc y ((m - 1) div 3 * 3 + 1) 1 = month_day (3 * (4 * y + (m - 1) div 3)) * day_ns"
    by (simp only: midnight_utc norm_day_month n) simp
  then show "calendar_window ''quarter'' utc t =
       Inr (boundary ''quarter'' (4 * y + (m - 1) div 3 - 1), boundary ''quarter'' (4 * y + (m - 1) div 3))"
    by (simp only: calendar_window_def assms boundary_def prod.case q Let_def add_date_midnight) (simp add: algebra_simps)
  show "calendar_window ''year'' utc t = Inr (boundary ''year'' (y - 1), boundary ''year'' y)"
    by (simp add: calendar_window_def assms boundary_def midnight_utc norm_day_month add_date_midnight)
qed

lemma day_windows:
  "calendar_window ''day'' utc t = Inr (boundary ''day'' (local_day utc t - 1), boundary ''day'' (local_day utc t))"
  "calendar_window ''week'' utc t =
     Inr (boundary ''week'' ((local_day utc t + 3) div 7 - 1), boundary ''week'' ((local_day utc t + 3) div 7))"
proof -
  obtain y m d where c: "date_of utc t = (y, m, d)" by (rule prod_cases3)
  then have n: "norm_day_number y m d = local_day utc t"
    using month_of_day(3) by (simp add: date_of_def norm_day_month)
  have w: "go_mod (weekday_of utc t + 6) 7 = (local_day utc t + 3) mod 7"
    unfolding weekday_of_def by (subst go_mod_nonneg) (simp, simp, presburger)
  have s: "local_day utc t - (local_day utc t + 3) mod 7 = 7 * ((local_day utc t + 3) div 7) - 3"
    using minus_mod_eq_mult_div[of "local_day utc t + 3" 7] by simp
  show "calendar_window ''day'' utc t = Inr (boundary ''day'' (local_day utc t - 1), boundary ''day'' (local_day utc t))"
    by (simp add: calendar_window_def c midnight_utc n add_date_utc_days boundary_def day_ns_def Let_def algebra_simps)
  have "midnight utc y m d - (local_day utc t + 3) mod 7 * day_ns = boundary ''week'' ((local_day utc t + 3) div 7)"
    by (simp add: midnight_utc n boundary_def flip: s left_diff_distrib)
  then show "calendar_window ''week'' utc t =
     Inr (boundary ''week'' ((local_day utc t + 3) div 7 - 1), boundary ''week'' ((local_day utc t + 3) div 7))"
    by (simp add: calendar_window_def c w add_date_utc_days day_ns_def Let_def) (simp add: boundary_def day_ns_def)
qed

text \<open>C18: In UTC the calendar windows of each kind tile time. There is an increasing sequence of boundaries,
  and a report made at any moment covers exactly the interval between the two boundaries before the
  current period: whenever in the period it is made it covers the same window, and the next
  report begins where it ended.\<close>

theorem calendar_windows_tile:
  assumes "period \<in> set calendar_periods"
  shows "(\<forall>i j. i < j \<longrightarrow> boundary period i < boundary period j) \<and>
    (\<forall>now. \<exists>k. boundary period k \<le> now \<and> now < boundary period (k + 1) \<and>
       resolve_window period '''' (Some utc) now =
         Inr \<lparr> wi_from = boundary period (k - 1), wi_to = boundary period k, wi_zone = ''UTC'', wi_times_in = utc \<rparr>)"
proof (intro conjI allI impI)
  fix now
  obtain y m d where c: "date_of utc now = (y, m, d)" by (rule prod_cases3)
  note v = month_of_day[OF c[unfolded date_of_def]]
  have "\<exists>k. boundary period k \<le> now \<and> now < boundary period (k + 1) \<and>
      calendar_window period utc now = Inr (boundary period (k - 1), boundary period k)"
  proof -
    consider "period = ''day''" | "period = ''week''" | "period = ''month''" | "period = ''quarter''" | "period = ''year''"
      using assms by (auto simp: calendar_periods_def)
    then show ?thesis
    proof cases
      case 1
      then show ?thesis using day_windows(1) within_days[of "local_day utc now" now "local_day utc now + 1"]
        by (intro exI[of _ "local_day utc now"]) (simp add: boundary_def)
    next
      case 2
      let ?k = "(local_day utc now + 3) div 7"
      have "7 * ?k - 3 \<le> local_day utc now" "local_day utc now < 7 * (?k + 1) - 3" by presburger+
      from within_days[OF this] 2 day_windows(2) show ?thesis
        by (intro exI[of _ ?k]) (simp add: boundary_def)
    next
      case 3
      from within_days[OF v(1,2)] 3 month_windows(1)[OF c] show ?thesis
        by (intro exI[of _ "12 * y + m - 1"]) (simp add: boundary_def)
    next
      case 4
      let ?k = "4 * y + (m - 1) div 3"
      have "3 * ?k \<le> 12 * y + m - 1" "12 * y + m \<le> 3 * (?k + 1)" by presburger+
      then have "month_day (3 * ?k) \<le> local_day utc now" "local_day utc now < month_day (3 * (?k + 1))"
        using v(1,2) month_day_less by (smt (verit))+
      from within_days[OF this] 4 month_windows(2)[OF c] show ?thesis
        by (intro exI[of _ ?k]) (simp add: boundary_def)
    next
      case 5
      have "month_day (12 * y) \<le> month_day (12 * y + m - 1)" "month_day (12 * y + m) \<le> month_day (12 * (y + 1))"
        using v(4,5) by (intro month_day_le; simp add: algebra_simps)+
      with v(1,2) have "month_day (12 * y) \<le> local_day utc now" "local_day utc now < month_day (12 * (y + 1))"
        by linarith+
      from within_days[OF this] 5 month_windows(3)[OF c] show ?thesis
        by (intro exI[of _ y]) (simp add: boundary_def)
    qed
  qed
  then obtain k where k: "boundary period k \<le> now" "now < boundary period (k + 1)"
      "calendar_window period utc now = Inr (boundary period (k - 1), boundary period k)" by blast
  have "loc_name utc = ''UTC''" by (simp add: utc_def)
  with k show "\<exists>k. boundary period k \<le> now \<and> now < boundary period (k + 1) \<and>
       resolve_window period '''' (Some utc) now =
         Inr \<lparr> wi_from = boundary period (k - 1), wi_to = boundary period k, wi_zone = ''UTC'', wi_times_in = utc \<rparr>"
    by (intro exI[of _ k]) (simp add: resolve_window_def)
qed (rule boundary_less)

theorem calendar_windows_tile_witness:
  "\<exists>k. boundary ''month'' k \<le> 1775000000000000000 \<and> 1775000000000000000 < boundary ''month'' (k + 1) \<and>
     resolve_window ''month'' '''' (Some utc) 1775000000000000000 =
       Inr \<lparr> wi_from = boundary ''month'' (k - 1), wi_to = boundary ''month'' k, wi_zone = ''UTC'', wi_times_in = utc \<rparr>"
proof -
  have "''month'' \<in> set calendar_periods" by (simp add: calendar_periods_def)
  from calendar_windows_tile[OF this] show ?thesis by blast
qed

section \<open>Where midnight is skipped on the first\<close>

text \<open>Asuncion put its clocks forward at midnight on 1 October 2017.\<close>

definition asuncion :: location where
  "asuncion = \<lparr> loc_name = ''America/Asuncion'', loc_base = - 14400, loc_trans = [(1506830400, - 10800)] \<rparr>"

lemma asuncion_days:
  "date_of asuncion 1505476800000000000 = (2017, 9, 15)" "date_of asuncion 1508068800000000000 = (2017, 10, 15)"
  "date_of asuncion 1504238400000000000 = (2017, 9, 1)" "date_of asuncion 1506826800000000000 = (2017, 9, 30)"
  by (rule date_ofI; simp add: date_eval asuncion_def)+

lemma asuncion_midnights:
  "midnight asuncion 2017 9 1 = 1504238400000000000" "midnight asuncion 2017 10 1 = 1506826800000000000"
  by (simp_all add: midnight_def go_date_eval asuncion_def)

text \<open>The monthly report for September 2017 in Asuncion begins at 23:00 on 30 August, a day and an hour before
  the August report ends, and ends an hour before the month does: midnight on 1 October does not
  exist there, the end of the window falls back to 23:00 on 30 September, and the start is found by
  going back a month from that.\<close>

theorem monthly_windows_overlap_at_a_gap:
  "\<exists>august september.
     resolve_window ''month'' ''calendar'' (Some asuncion) 1505476800000000000 = Inr august \<and>
     resolve_window ''month'' ''calendar'' (Some asuncion) 1508068800000000000 = Inr september \<and>
     wi_to august - wi_from september = 25 * hour \<and>
     wi_from september = go_date asuncion 2017 8 30 23 0 0 0 \<and> wi_to september = go_date asuncion 2017 9 30 23 0 0 0"
  by (simp add: resolve_window_def calendar_window_def asuncion_days asuncion_midnights add_date_def Let_def)
    (simp add: go_date_eval date_eval asuncion_def hour_def)

end
