(* ===== verification/ReportDocument.thy ===== *)
theory ReportDocument
  imports ReportWindow Paging Ident
begin

text \<open>
  Putting a report together (\<open>internal/report/document.go\<close>, \<open>comparison.go\<close>) from what the store
  answers, and the store's answers over the tiers (\<open>internal/store/sqlite/reports.go\<close>, the raw
  reads of \<open>history.go\<close>). A read may fail with any error, which ends the report. Go iterates over a
  map in any order; the order taken is an argument.
\<close>

section \<open>What the store answers\<close>

record scope =
  sc_monitors :: "ident list"
  sc_groups :: "ident list"
  sc_tags :: "ident list"

definition scope_empty :: "scope \<Rightarrow> bool" where
  "scope_empty s = (int (length (sc_monitors s)) + int (length (sc_groups s)) + int (length (sc_tags s)) = 0)"

record scoped_monitor =
  sm_id :: ident
  sm_name :: string
  sm_type :: string
  sm_group :: "ident option"
  sm_slo :: "rat option"
  sm_tags :: "ident list"

record group_row =
  gr_id :: ident
  gr_parent :: "ident option"
  gr_slo :: "rat option"

record report_db =
  rd_monitors :: "scoped_monitor list"
  rd_groups :: "group_row list"
  rd_data :: db

definition in_group :: "report_db \<Rightarrow> ident list \<Rightarrow> ident option \<Rightarrow> bool" where
  "in_group rd gs g =
     (case g of
        None \<Rightarrow> False
      | Some i \<Rightarrow> i \<in> set gs \<or>
          (\<exists>c \<in> set (rd_groups rd). gr_id c = i \<and> (case gr_parent c of None \<Rightarrow> False | Some p \<Rightarrow> p \<in> set gs)))"

definition monitors_in_scope :: "report_db \<Rightarrow> scope \<Rightarrow> scoped_monitor list" where
  "monitors_in_scope rd s =
     (if scope_empty s then []
      else sort_key sm_id
        (filter (\<lambda>m. sm_id m \<in> set (sc_monitors s) \<or> in_group rd (sc_groups s) (sm_group m) \<or>
                     (\<exists>t \<in> set (sm_tags m). t \<in> set (sc_tags s))) (rd_monitors rd)))"

definition group_target :: "report_db \<Rightarrow> ident option \<Rightarrow> rat option" where
  "group_target rd g =
     (case g of None \<Rightarrow> None | Some i \<Rightarrow> (case find (\<lambda>r. gr_id r = i) (rd_groups rd) of None \<Rightarrow> None | Some r \<Rightarrow> gr_slo r))"

definition slo_targets :: "report_db \<Rightarrow> ident list \<Rightarrow> ident \<Rightarrow> target option" where
  "slo_targets rd ids i =
     (case find (\<lambda>m. sm_id m = i \<and> i \<in> set ids) (rd_monitors rd) of
        None \<Rightarrow> None
      | Some m \<Rightarrow>
          (case sm_slo m of
             Some p \<Rightarrow> Some \<lparr> tg_percent = p, tg_source = ''monitor'' \<rparr>
           | None \<Rightarrow> map_option (\<lambda>p. \<lparr> tg_percent = p, tg_source = ''group'' \<rparr>) (group_target rd (sm_group m))))"

text \<open>The scanner: a null sum or count reads as zero, the percentile column is always null.\<close>

definition scan_bucket :: "instant \<Rightarrow> bucket_row \<Rightarrow> history_bucket" where
  "scan_bucket start b =
     \<lparr> hk_start = start, hk_up = b_up b, hk_down = b_down b, hk_pending = b_pending b,
       hk_maintenance = b_maintenance b, hk_unknown = b_unknown b, hk_skipped = b_skipped b,
       hk_rt_sum = (case b_rt_sum b of None \<Rightarrow> 0 | Some s \<Rightarrow> s), hk_rt_count = b_rt_count b,
       hk_rt_min = b_rt_min b, hk_rt_max = b_rt_max b, hk_rt_p95 = None \<rparr>"

definition tier_rows :: "report_db \<Rightarrow> string \<Rightarrow> ident \<Rightarrow> instant \<Rightarrow> instant \<Rightarrow> bucket_row list" where
  "tier_rows rd tier i from_t to_t =
     filter (\<lambda>b. b_monitor b = i) (buckets_in_range (db_tiers (rd_data rd) tier) from_t to_t)"

definition window_totals ::
    "report_db \<Rightarrow> ident list \<Rightarrow> instant \<Rightarrow> instant \<Rightarrow> string \<Rightarrow> ident \<Rightarrow> history_bucket option" where
  "window_totals rd ids from_t to_t tier i =
     (let rows = tier_rows rd tier i from_t to_t in
      if i \<in> set ids \<and> rows \<noteq> []
      then Some (scan_bucket (from_millis (millis from_t)) (aggregate_buckets (i, millis from_t) rows))
      else None)"

definition series_from_tier ::
    "report_db \<Rightarrow> string \<Rightarrow> ident list \<Rightarrow> instant \<Rightarrow> instant \<Rightarrow> ident \<Rightarrow> history_bucket list" where
  "series_from_tier rd tier ids from_t to_t i =
     (if i \<in> set ids
      then map (\<lambda>b. scan_bucket (from_millis (b_start b)) b) (sort_key b_start (tier_rows rd tier i from_t to_t))
      else [])"

definition tier_widths :: "string \<Rightarrow> duration option" where
  "tier_widths name = map_option tier_interval (find (\<lambda>t. tier_name t = name) tiers)"

definition monitor_raw :: "report_db \<Rightarrow> ident \<Rightarrow> hb_row list" where
  "monitor_raw rd i = filter (\<lambda>r. r_org r = sentinel_org \<and> r_monitor r = i) (db_raw (rd_data rd))"

definition raw_covers :: "report_db \<Rightarrow> ident \<Rightarrow> instant \<Rightarrow> string \<Rightarrow> bool" where
  "raw_covers rd i from_t tier =
     (case tier_widths tier of
        None \<Rightarrow> True
      | Some width \<Rightarrow>
          (case bound_of min (map r_time (monitor_raw rd i)) of
             None \<Rightarrow> False
           | Some us \<Rightarrow>
               (let earliest = from_micros us in
                if earliest \<le> from_t then True
                else case bound_of min (map b_start (filter (\<lambda>b. b_monitor b = i) (db_tiers (rd_data rd) tier))) of
                       None \<Rightarrow> True
                     | Some ms \<Rightarrow> time_truncate earliest width \<le> from_millis ms)))"

definition uptime_from_raw :: "report_db \<Rightarrow> ident \<Rightarrow> instant \<Rightarrow> instant \<Rightarrow> history_bucket" where
  "uptime_from_raw rd i from_t to_t =
     (let rows = filter (\<lambda>r. micros from_t \<le> r_time r \<and> r_time r < micros to_t) (monitor_raw rd i);
          b = aggregate_raw (i, millis from_t) rows
      in (scan_bucket from_t b) \<lparr> hk_rt_p95 := b_rt_p95 b \<rparr>)"

text \<open>The interface the report computes from, each read free to fail.\<close>

record 'e report_store =
  st_scope :: "scope \<Rightarrow> 'e + scoped_monitor list"
  st_totals :: "ident list \<Rightarrow> instant \<Rightarrow> instant \<Rightarrow> string \<Rightarrow> 'e + (ident \<Rightarrow> history_bucket option)"
  st_daily :: "ident list \<Rightarrow> instant \<Rightarrow> instant \<Rightarrow> 'e + (ident \<Rightarrow> history_bucket list)"
  st_hourly :: "ident list \<Rightarrow> instant \<Rightarrow> instant \<Rightarrow> 'e + (ident \<Rightarrow> history_bucket list)"
  st_targets :: "ident list \<Rightarrow> 'e + (ident \<Rightarrow> target option)"
  st_raw_covers :: "ident \<Rightarrow> instant \<Rightarrow> string \<Rightarrow> 'e + bool"
  st_from_raw :: "ident \<Rightarrow> instant \<Rightarrow> instant \<Rightarrow> 'e + history_bucket"
  st_incidents :: "nat \<Rightarrow> instant \<Rightarrow> instant \<Rightarrow> 'e + incident_times list"

definition sqlite_reports :: "report_db \<Rightarrow> (nat \<Rightarrow> instant \<Rightarrow> instant \<Rightarrow> 'e + incident_times list) \<Rightarrow> 'e report_store" where
  "sqlite_reports rd incidents =
     \<lparr> st_scope = (\<lambda>s. Inr (monitors_in_scope rd s)),
       st_totals = (\<lambda>ids a b tier. Inr (window_totals rd ids a b tier)),
       st_daily = (\<lambda>ids a b. Inr (series_from_tier rd ''1d'' ids a b)),
       st_hourly = (\<lambda>ids a b. Inr (series_from_tier rd ''1h'' ids a b)),
       st_targets = (\<lambda>ids. Inr (slo_targets rd ids)),
       st_raw_covers = (\<lambda>i a tier. Inr (raw_covers rd i a tier)),
       st_from_raw = (\<lambda>i a b. Inr (uptime_from_raw rd i a b)),
       st_incidents = incidents \<rparr>"

section \<open>Several monitors at once\<close>

definition collect :: "(ident \<Rightarrow> history_bucket option) \<Rightarrow> ident list \<Rightarrow> history_bucket list" where
  "collect totals ids = List.map_filter totals ids"

text \<open>The map from day to bucket as a list of its entries; a day not yet in it reads as empty.\<close>

fun merge_day :: "history_bucket \<Rightarrow> (int \<times> history_bucket) list \<Rightarrow> (int \<times> history_bucket) list" where
  "merge_day b [] = [(millis (hk_start b), (sum_buckets [no_bucket, b]) \<lparr> hk_start := hk_start b \<rparr>)]"
| "merge_day b ((k, old) # rest) =
     (if k = millis (hk_start b) then (k, (sum_buckets [old, b]) \<lparr> hk_start := hk_start b \<rparr>) # rest
      else (k, old) # merge_day b rest)"

definition merge_daily :: "ident list \<Rightarrow> (ident \<Rightarrow> history_bucket list) \<Rightarrow> history_bucket list" where
  "merge_daily visited series =
     sort_key hk_start (map snd (fold merge_day (concat (map series visited)) []))"

section \<open>Sections\<close>

record day_uptime =
  du_date :: instant
  du_uptime :: uptime

record hour_bucket =
  hh_start :: instant
  hh_uptime :: uptime
  hh_average :: "rat option"
  hh_samples :: int

record monitor_section =
  se_monitor :: ident
  se_name :: string
  se_type :: string
  se_group :: "ident option"
  se_uptime :: uptime
  se_daily :: "day_uptime list"
  se_hourly :: "hour_bucket list"
  se_sla :: "sla option"
  se_latency :: latency
  se_breaches :: "breach list"

record comparison_spec =
  cs_mode :: string
  cs_monitors :: "ident list"
  cs_groups :: "ident list"

record spec =
  sp_type :: string
  sp_scope :: scope
  sp_period :: string
  sp_style :: string
  sp_zone :: string
  sp_from :: instant
  sp_to :: instant
  sp_dates_in :: location
  sp_handling :: string
  sp_target :: "rat option"
  sp_latency_target :: "int option"
  sp_tier :: string
  sp_comparison :: comparison_spec

definition hourly_max_window :: duration where "hourly_max_window = 48 * hour"
definition p95_max_monitors :: nat where "p95_max_monitors = 25"
definition incident_page_size :: nat where "incident_page_size = 100"

definition wants_hourly :: "window \<Rightarrow> resolution \<Rightarrow> bool" where
  "wants_hourly w res =
     (0 < window_duration w \<and> window_duration w \<le> hourly_max_window \<and> rs_tier res \<noteq> ''1d'')"

definition resolve_spec_window :: "(string \<Rightarrow> location option) \<Rightarrow> spec \<Rightarrow> instant \<Rightarrow> window_error + window" where
  "resolve_spec_window zones sp now =
     and_then (if sp_zone sp = '''' then Inr utc else expect (Bad_timezone (sp_zone sp)) (zones (sp_zone sp)))
       (\<lambda>loc. if sp_from sp \<noteq> zero_time \<and> sp_to sp \<noteq> zero_time then
                (if \<not> sp_from sp < sp_to sp then Inl (Window_backwards (sp_from sp) (sp_to sp))
                 else Inr \<lparr> wi_from = sp_from sp, wi_to = sp_to sp, wi_zone = loc_name loc,
                           wi_times_in = sp_dates_in sp \<rparr>)
              else resolve_window (sp_period sp) (sp_style sp) (Some loc) now)"

definition resolve_target :: "spec \<Rightarrow> (ident \<Rightarrow> target option) \<Rightarrow> ident \<Rightarrow> target option" where
  "resolve_target sp stored i =
     (case sp_target sp of
        Some p \<Rightarrow> Some \<lparr> tg_percent = p, tg_source = TargetFromTemplate \<rparr>
      | None \<Rightarrow> stored i)"

definition hour_point :: "string \<Rightarrow> history_bucket \<Rightarrow> hour_bucket" where
  "hour_point handling b =
     \<lparr> hh_start = hk_start b, hh_uptime = compute_uptime b handling, hh_average = average b,
       hh_samples = hk_rt_count b \<rparr>"

definition section_of ::
    "spec \<Rightarrow> duration \<Rightarrow> (ident \<Rightarrow> history_bucket option) \<Rightarrow> (ident \<Rightarrow> history_bucket list) \<Rightarrow>
     (ident \<Rightarrow> history_bucket list) \<Rightarrow> (ident \<Rightarrow> target option) \<Rightarrow> scoped_monitor \<Rightarrow> monitor_section" where
  "section_of sp window_len totals series hourly targets m =
     (let i = sm_id m;
          tot = (case totals i of Some b \<Rightarrow> b | None \<Rightarrow> no_bucket);
          daily = series i;
          up = compute_uptime tot (sp_handling sp)
      in \<lparr> se_monitor = i, se_name = sm_name m, se_type = sm_type m, se_group = sm_group m, se_uptime = up,
           se_daily = map (\<lambda>b. \<lparr> du_date = hk_start b, du_uptime = compute_uptime b (sp_handling sp) \<rparr>) daily,
           se_hourly = map (hour_point (sp_handling sp)) (hourly i),
           se_sla =
             (case resolve_target sp targets i of
                None \<Rightarrow> None
              | Some t \<Rightarrow> if sp_type sp = ''uptime'' then None
                          else Some (compute_sla up t window_len (downtime_seconds daily (sp_handling sp)))),
           se_latency = compute_latency tot daily (sp_latency_target sp),
           se_breaches = compute_breaches daily (sp_handling sp) \<rparr>)"

definition with_p95 :: "p95 \<Rightarrow> monitor_section \<Rightarrow> monitor_section" where
  "with_p95 p s = s \<lparr> se_latency := (se_latency s) \<lparr> la_p95 := Some p \<rparr> \<rparr>"

fun each_section :: "(monitor_section \<Rightarrow> 'e + monitor_section) \<Rightarrow> monitor_section list \<Rightarrow> 'e + monitor_section list" where
  "each_section f [] = Inr []"
| "each_section f (s # ss) = and_then (f s) (\<lambda>s'. and_then (each_section f ss) (\<lambda>ss'. Inr (s' # ss')))"

definition one_p95 :: "'e report_store \<Rightarrow> instant \<Rightarrow> instant \<Rightarrow> monitor_section \<Rightarrow> 'e + monitor_section" where
  "one_p95 st from_t to_t s =
     and_then (st_raw_covers st (se_monitor s) from_t ''1d'') (\<lambda>covered.
       and_then (if covered then and_then (st_from_raw st (se_monitor s) from_t to_t) (\<lambda>b. Inr (hk_rt_p95 b)) else Inr None)
         (\<lambda>value. Inr (with_p95 (trailing_p95 covered value from_t to_t) s)))"

definition attach_p95 ::
    "'e report_store \<Rightarrow> monitor_section list \<Rightarrow> retention \<Rightarrow> window \<Rightarrow> 'e + monitor_section list" where
  "attach_p95 st sections r w =
     (let week = add_date (wi_times_in w) (wi_to w) 0 0 (- 7);
          from_t = (if week < wi_from w then wi_from w else week)
      in if p95_max_monitors < length sections then Inr (map (with_p95 (absent_p95 ''scope_too_large'')) sections)
         else if \<not> raw_covers_trailing_week r then Inr (map (with_p95 (absent_p95 ''insufficient_raw_retention'')) sections)
         else each_section (one_p95 st from_t (wi_to w)) sections)"

section \<open>Comparison\<close>

record series =
  sr_label :: string
  sr_period :: "(instant \<times> instant) option"
  sr_uptime :: uptime
  sr_latency :: latency

record comparison =
  cp_mode :: string
  cp_series :: "series list"

datatype 'e report_error =
  Bad_window window_error | Store_error string 'e | Unknown_mode string

definition reading :: "string \<Rightarrow> 'e + 'a \<Rightarrow> 'e report_error + 'a" where
  "reading what r = (case r of Inl e \<Rightarrow> Inl (Store_error what e) | Inr x \<Rightarrow> Inr x)"

text \<open>The zero values of the two blocks, for a series over no monitor at all.\<close>

definition no_uptime :: uptime where
  "no_uptime =
     \<lparr> u_ratio = None, u_handling = '''', u_observed = 0, u_up = 0, u_down = 0, u_maintenance = 0,
       u_unknown = 0, u_skipped = 0, u_unobserved_share = None \<rparr>"

definition no_latency :: latency where
  "no_latency =
     \<lparr> la_average = None, la_samples = 0, la_daily = [], la_best = None, la_worst = None, la_target = None,
       la_days_over = None, la_dates_over = [], la_p95 = None \<rparr>"

definition series_over ::
    "'e report_store \<Rightarrow> (ident list \<Rightarrow> ident list) \<Rightarrow> ident list \<Rightarrow> instant \<times> instant \<Rightarrow> string \<Rightarrow> string \<Rightarrow> string \<Rightarrow>
     'e report_error + series" where
  "series_over st visit ids period tier policy label =
     (if ids = [] then Inr \<lparr> sr_label = label, sr_period = None, sr_uptime = no_uptime, sr_latency = no_latency \<rparr>
      else and_then (reading ''comparison totals'' (st_totals st ids (fst period) (snd period) tier)) (\<lambda>totals.
        and_then (reading ''comparison series'' (st_daily st ids (fst period) (snd period))) (\<lambda>daily.
          let tot = sum_buckets (collect totals ids)
          in Inr \<lparr> sr_label = label, sr_period = None, sr_uptime = compute_uptime tot policy,
                   sr_latency = compute_latency tot (merge_daily (visit ids) daily) None \<rparr>)))"

definition compare_periods ::
    "'e report_store \<Rightarrow> (ident list \<Rightarrow> ident list) \<Rightarrow> scope \<Rightarrow> window \<Rightarrow> string \<Rightarrow> string \<Rightarrow> 'e report_error + comparison" where
  "compare_periods st visit scop w tier policy =
     and_then (reading ''resolve comparison scope'' (st_scope st scop)) (\<lambda>ms.
       let ids = map sm_id ms;
           now_p = (wi_from w, wi_to w);
           before_p = (wi_from w - (wi_to w - wi_from w), wi_from w)
       in and_then (series_over st visit ids now_p tier policy ''This period'') (\<lambda>current.
            and_then (series_over st visit ids before_p tier policy ''Previous period'') (\<lambda>earlier.
              Inr \<lparr> cp_mode = ''previous_period'',
                    cp_series = [current \<lparr> sr_period := Some now_p \<rparr>, earlier \<lparr> sr_period := Some before_p \<rparr>] \<rparr>)))"

definition entity_series ::
    "'e report_store \<Rightarrow> (ident list \<Rightarrow> ident list) \<Rightarrow> string \<Rightarrow> window \<Rightarrow> string \<Rightarrow> string \<Rightarrow> ident \<Rightarrow> 'e report_error + series" where
  "entity_series st visit mode w tier policy i =
     (let scop = (if mode = ''groups'' then \<lparr> sc_monitors = [], sc_groups = [i], sc_tags = [] \<rparr>
                  else \<lparr> sc_monitors = [i], sc_groups = [], sc_tags = [] \<rparr>)
      in and_then (reading ''resolve comparison entity'' (st_scope st scop)) (\<lambda>ms.
           let label = (if mode = ''monitors'' \<and> length ms = 1 then sm_name (hd ms) else id_string i)
           in series_over st visit (map sm_id ms) (wi_from w, wi_to w) tier policy label))"

fun all_series :: "(ident \<Rightarrow> 'e + series) \<Rightarrow> ident list \<Rightarrow> 'e + series list" where
  "all_series f [] = Inr []"
| "all_series f (i # is) = and_then (f i) (\<lambda>s. and_then (all_series f is) (\<lambda>ss. Inr (s # ss)))"

definition compare_entities ::
    "'e report_store \<Rightarrow> (ident list \<Rightarrow> ident list) \<Rightarrow> ident list \<Rightarrow> ident list \<Rightarrow> window \<Rightarrow> string \<Rightarrow> string \<Rightarrow>
     'e report_error + comparison" where
  "compare_entities st visit monitor_ids group_ids w tier policy =
     (let mode = (if group_ids \<noteq> [] then ''groups'' else ''monitors'');
          entities = (if group_ids \<noteq> [] then group_ids else monitor_ids)
      in and_then (all_series (entity_series st visit mode w tier policy) entities)
           (\<lambda>ss. Inr \<lparr> cp_mode = mode, cp_series = ss \<rparr>))"

definition build_comparison ::
    "'e report_store \<Rightarrow> (ident list \<Rightarrow> ident list) \<Rightarrow> comparison_spec \<Rightarrow> scope \<Rightarrow> window \<Rightarrow> string \<Rightarrow> string \<Rightarrow>
     'e report_error + comparison option" where
  "build_comparison st visit cs scop w tier policy =
     (if cs_mode cs = ''previous_period'' then and_then (compare_periods st visit scop w tier policy) (Inr \<circ> Some)
      else if cs_mode cs = ''monitors'' then and_then (compare_entities st visit (cs_monitors cs) [] w tier policy) (Inr \<circ> Some)
      else if cs_mode cs = ''groups'' then and_then (compare_entities st visit [] (cs_groups cs) w tier policy) (Inr \<circ> Some)
      else if cs_mode cs = '''' then Inr None
      else Inl (Unknown_mode (cs_mode cs)))"

section \<open>The document\<close>

record estate =
  es_uptime :: uptime
  es_latency :: latency

record document =
  do_generated :: instant
  do_window :: window
  do_resolution :: resolution
  do_count :: int
  do_sections :: "monitor_section list"
  do_summary :: "estate option"
  do_incidents :: "incident_section list"
  do_mtt :: mtt_summary
  do_comparison :: "comparison option"

definition attach_incidents ::
    "'e report_store \<Rightarrow> spec \<Rightarrow> window \<Rightarrow> document \<Rightarrow> 'e report_error + document" where
  "attach_incidents st sp w doc =
     (if sp_type sp \<noteq> ''post_mortem'' \<and> sp_type sp \<noteq> ''custom'' then Inr doc
      else and_then (reading ''incident log'' (st_incidents st incident_page_size (wi_from w) (wi_to w))) (\<lambda>is.
        let sections = post_mortem is None None in Inr (doc \<lparr> do_incidents := sections, do_mtt := summarise sections \<rparr>)))"

definition add_comparison ::
    "'e report_store \<Rightarrow> (ident list \<Rightarrow> ident list) \<Rightarrow> spec \<Rightarrow> window \<Rightarrow> string \<Rightarrow> document \<Rightarrow> 'e report_error + document" where
  "add_comparison st visit sp w tier doc =
     (if cs_mode (sp_comparison sp) = '''' then Inr doc
      else and_then (build_comparison st visit (sp_comparison sp) (sp_scope sp) w tier (sp_handling sp))
             (\<lambda>c. Inr (doc \<lparr> do_comparison := c \<rparr>)))"

definition covered_start :: "window \<Rightarrow> resolution \<Rightarrow> instant" where
  "covered_start w res =
     (case rs_covered_from res of Some t \<Rightarrow> if wi_from w < t then t else wi_from w | None \<Rightarrow> wi_from w)"

definition build_report ::
    "(string \<Rightarrow> location option) \<Rightarrow> (ident list \<Rightarrow> ident list) \<Rightarrow> 'e report_store \<Rightarrow> spec \<Rightarrow> retention \<Rightarrow>
     location \<Rightarrow> instant \<Rightarrow>
     'e report_error + document" where
  "build_report zones visit st sp r now_in now =
     and_then (case resolve_spec_window zones sp now of Inl e \<Rightarrow> Inl (Bad_window e) | Inr w \<Rightarrow> Inr w) (\<lambda>w.
     and_then (reading ''resolve scope'' (st_scope st (sp_scope sp))) (\<lambda>ms.
     let res = resolve_tier (sp_tier sp) w now_in now r;
         doc = \<lparr> do_generated = now, do_window = w, do_resolution = res, do_count = int (length ms),
                 do_sections = [], do_summary = None, do_incidents = [], do_mtt = summarise [],
                 do_comparison = None \<rparr>;
         ids = map sm_id ms;
         from_t = covered_start w res
     in if ms = [] then Inr doc
        else and_then (reading ''window totals'' (st_totals st ids from_t (wi_to w) (rs_tier res))) (\<lambda>totals.
          and_then (reading ''daily series'' (st_daily st ids from_t (wi_to w))) (\<lambda>daily.
          and_then (if wants_hourly w res then reading ''hourly series'' (st_hourly st ids from_t (wi_to w)) else Inr (\<lambda>_. []))
            (\<lambda>hourly.
          and_then (reading ''slo targets'' (st_targets st ids)) (\<lambda>targets.
          and_then (reading ''trailing percentile''
              (attach_p95 st (map (section_of sp (wi_to w - from_t) totals daily hourly targets) ms) r w)) (\<lambda>sections.
          let tot = sum_buckets (collect totals ids);
              summary = \<lparr> es_uptime = compute_uptime tot (sp_handling sp),
                          es_latency = compute_latency tot (merge_daily (visit ids) daily) (sp_latency_target sp) \<rparr>
          in and_then (attach_incidents st sp w (doc \<lparr> do_sections := sections, do_summary := Some summary \<rparr>))
               (add_comparison st visit sp w (rs_tier res)))))))))"

end
