(* ===== verification/ReportFacts.thy ===== *)
theory ReportFacts
  imports ReportFigures
begin

text \<open>
  What the figures of a report say: the ratio is a proportion that is whole exactly when nothing
  failed, the verdict on a target is right up to the tolerance the code allows, and the breaches
  are the runs of days with downtime.
\<close>

section \<open>The uptime ratio\<close>

definition proper_counts :: "history_bucket \<Rightarrow> bool" where
  "proper_counts b = (0 \<le> hk_up b \<and> 0 \<le> hk_down b \<and> 0 \<le> hk_maintenance b \<and>
     hk_up b + hk_down b + hk_maintenance b < 2 ^ 53)"

definition counted_up :: "history_bucket \<Rightarrow> string \<Rightarrow> int" where
  "counted_up b handling = (if handling = MaintenanceCountAsUp then hk_up b + hk_maintenance b else hk_up b)"

lemma counted_range:
  assumes "proper_counts b"
  shows "0 \<le> counted_up b h" "0 \<le> day_down h b" "counted_up b h + day_down h b < 2 ^ 53"
  using assms by (auto simp: proper_counts_def counted_up_def day_down_def)

lemma uptime_ratio:
  assumes "proper_counts b"
  shows "u_ratio (compute_uptime b h) =
    (if 0 < counted_up b h + day_down h b
     then Some (fl (of_int (counted_up b h) / of_int (counted_up b h + day_down h b))) else None)"
  using counted_range[OF assms, of h] fl_of_small_int[of "counted_up b h"]
    fl_of_small_int[of "counted_up b h + day_down h b"]
  by (auto simp: compute_uptime_def counted_up_def day_down_def float_ratio_def float_ops Let_def)

lemma fl_below_one:
  assumes "0 \<le> k" "k < n" "n \<le> 2 ^ 53"
  shows "fl (of_int k / of_int n) < 1"
proof -
  have "of_int k / of_int n \<le> ((of_int n - 1) / of_int n :: rat)"
    using assms by (intro divide_right_mono) (simp_all flip: of_int_diff)
  also have "\<dots> = 1 - 1 / of_int n" using assms by (simp add: diff_divide_distrib)
  also have "\<dots> \<le> 1 - 1 / of_int (2 ^ 53)"
    using assms by (intro diff_left_mono divide_left_mono) (simp_all del: of_int_power)
  also have "\<dots> = of_int (2 ^ 53 - 1) / 2 ^ 53" by simp
  finally have "fl (of_int k / of_int n) \<le> fl (of_int (2 ^ 53 - 1) / 2 ^ 53)"
    using assms by (intro fl_mono_nonneg) simp_all
  also have "\<dots> = of_int (2 ^ 53 - 1) / 2 ^ 53" by (rule fl_dyadic) simp_all
  also have "\<dots> < 1" by simp
  finally show ?thesis .
qed

lemma fl_above_zero:
  assumes "0 < k" "0 < n" "n \<le> 2 ^ 53"
  shows "1 / 2 ^ 53 \<le> fl (of_int k / of_int n)"
proof -
  have "(1 / 2 ^ 53 :: rat) = fl (of_int 1 / 2 ^ 53)" by (subst fl_dyadic) simp_all
  also have "\<dots> = fl (1 / of_int (2 ^ 53))" by simp
  also have "\<dots> \<le> fl (of_int k / of_int n)"
    using assms by (intro fl_mono_nonneg frac_le) (simp_all del: of_int_power)
  finally show ?thesis .
qed

lemma ratio_mono:
  fixes a b c d :: int
  assumes "0 \<le> a" "0 < b" "0 < d" "a * d \<le> c * b"
  shows "fl (of_int a / of_int b) \<le> fl (of_int c / of_int d)"
proof (rule fl_mono_nonneg)
  have "(of_int (a * d) :: rat) \<le> of_int (c * b)" using assms(4) by (subst of_int_le_iff)
  then show "(of_int a / of_int b :: rat) \<le> of_int c / of_int d"
    using assms by (simp add: frac_le_eq divide_le_eq le_divide_eq field_simps)
qed (use assms in simp)

definition at_most :: "rat option \<Rightarrow> rat option \<Rightarrow> bool" where
  "at_most x y = (case (x, y) of (Some a, Some b) \<Rightarrow> a \<le> b | _ \<Rightarrow> True)"

lemma policies_ordered:
  assumes "proper_counts b"
  shows "at_most (u_ratio (compute_uptime b MaintenanceCountAsDown)) (u_ratio (compute_uptime b MaintenanceExclude))"
    "at_most (u_ratio (compute_uptime b MaintenanceExclude)) (u_ratio (compute_uptime b MaintenanceCountAsUp))"
  using assms
    ratio_mono[of "hk_up b" "hk_up b + (hk_down b + hk_maintenance b)" "hk_up b + hk_down b" "hk_up b"]
    ratio_mono[of "hk_up b" "hk_up b + hk_down b" "hk_up b + hk_maintenance b + hk_down b" "hk_up b + hk_maintenance b"]
  by (auto simp: at_most_def uptime_ratio counted_up_def day_down_def proper_counts_def algebra_simps
      simp del: of_int_add)

text \<open>C33: The uptime ratio is a proportion: there is none exactly when nothing was observed, it is 1
  exactly when nothing counted as down and 0 exactly when nothing counted as up, whatever the
  number of checks, because rounding never reaches the ends. Counting maintenance as down never
  gives more, and counting it as up never less, than leaving it out.\<close>

theorem uptime_is_a_proportion:
  assumes "proper_counts b"
  shows "(case u_ratio (compute_uptime b h) of
      None \<Rightarrow> counted_up b h + day_down h b = 0
    | Some r \<Rightarrow> 0 \<le> r \<and> r \<le> 1 \<and> (r = 1 \<longleftrightarrow> day_down h b = 0) \<and> (r = 0 \<longleftrightarrow> counted_up b h = 0))
    \<and> at_most (u_ratio (compute_uptime b MaintenanceCountAsDown)) (u_ratio (compute_uptime b MaintenanceExclude))
    \<and> at_most (u_ratio (compute_uptime b MaintenanceExclude)) (u_ratio (compute_uptime b MaintenanceCountAsUp))"
proof -
  define k n where "k = counted_up b h" and "n = counted_up b h + day_down h b"
  have range: "0 \<le> k" "k \<le> n" "n < 2 ^ 53" "day_down h b = n - k"
    using counted_range[OF assms, of h] by (simp_all add: k_def n_def)
  have "fl (of_int k / of_int n) = 1 \<longleftrightarrow> k = n" if "0 < n"
    using that range fl_below_one[of k n] by (cases "k = n") auto
  moreover have "fl (of_int k / of_int n) = 0 \<longleftrightarrow> k = 0" if "0 < n"
    using that range fl_above_zero[of k n] by (cases "k = 0") auto
  moreover have "0 \<le> fl (of_int k / of_int n) \<and> fl (of_int k / of_int n) \<le> 1" if "0 < n"
    using that range by (intro fl_unit) (simp_all add: divide_le_eq_1)
  moreover have "u_ratio (compute_uptime b h) = (if 0 < n then Some (fl (of_int k / of_int n)) else None)"
    unfolding k_def n_def by (rule uptime_ratio[OF assms])
  ultimately have "case u_ratio (compute_uptime b h) of
      None \<Rightarrow> k + day_down h b = 0
    | Some r \<Rightarrow> 0 \<le> r \<and> r \<le> 1 \<and> (r = 1 \<longleftrightarrow> day_down h b = 0) \<and> (r = 0 \<longleftrightarrow> k = 0)"
    using range by (cases "0 < n") auto
  then show ?thesis unfolding k_def using policies_ordered[OF assms] by blast
qed

section \<open>The verdict on a target\<close>

lemma fl_nearby: "2 powi (- 1022) \<le> x \<Longrightarrow> x \<le> 128 \<Longrightarrow> \<bar>fl x - x\<bar> \<le> 1 / 70368744177664"
  using fl_error[of x] by (auto simp: field_simps)

lemma tiny: "(2::rat) powi (- 1022) \<le> 1 / 2 ^ 60"
  by (subst power_int_minus_divide) simp

text \<open>A percentage computed from counts, against the exact one.\<close>

lemma actual_percent:
  assumes "0 \<le> k" "k \<le> n" "0 < n" "n < 2 ^ 53"
  shows "\<bar>float_mul (fl (of_int k / of_int n)) 100 - 100 * of_int k / of_int n\<bar> \<le> 1 / 100000000000"
proof (cases "k = 0")
  case False
  let ?x = "of_int k / of_int n :: rat"
  have "1 / of_int (2 ^ 53) \<le> ?x"
    using False assms by (intro frac_le) (simp_all del: of_int_power)
  with tiny have x: "2 powi (- 1022) \<le> ?x" "?x \<le> 1"
    using assms by (simp_all add: divide_le_eq_1)
  have "\<bar>fl ?x - ?x\<bar> \<le> 1 / 9007199254740992"
    using fl_error[OF x(1)] x(2) by (auto simp: field_simps)
  moreover have "1 / 2 ^ 53 \<le> fl ?x" "fl ?x \<le> 1"
    using False assms fl_above_zero[of k n] fl_unit[of ?x] x(2) by simp_all
  with tiny have "\<bar>fl (fl ?x * 100) - fl ?x * 100\<bar> \<le> 1 / 70368744177664"
    by (intro fl_nearby) simp_all
  moreover have "\<bar>fl ?x * 100 - 100 * of_int k / of_int n\<bar> \<le> 100 / 9007199254740992"
    using \<open>\<bar>fl ?x - ?x\<bar> \<le> 1 / 9007199254740992\<close> by linarith
  ultimately show ?thesis unfolding float_mul_def by linarith
qed (simp add: float_ops)

lemma tolerance:
  assumes "1 \<le> q" "q \<le> 100"
  shows "\<bar>float_sub (fl q) (fl (1 / 1000000000)) - (q - 1 / 1000000000)\<bar> \<le> 1 / 100000000000"
proof -
  have q: "\<bar>fl q - q\<bar> \<le> 1 / 70368744177664" using assms tiny by (intro fl_nearby) simp_all
  have e: "\<bar>fl (1 / 1000000000) - 1 / 1000000000\<bar> \<le> 1 / 9007199254740992"
    using fl_error[of "1 / 1000000000"] tiny by (simp add: field_simps)
  define v w where "v = fl q" and "w = fl (1 / 1000000000)"
  have d: "\<bar>v - w - (q - 1 / 1000000000)\<bar> \<le> 1 / 70368744177664 + 1 / 9007199254740992"
    using q e unfolding v_def[symmetric] w_def[symmetric] by linarith
  then have "1 / 2 \<le> v - w" "v - w \<le> 128" using assms by linarith+
  with tiny have "\<bar>fl (v - w) - (v - w)\<bar> \<le> 1 / 70368744177664" by (intro fl_nearby) simp_all
  with d show ?thesis unfolding float_sub_def v_def[symmetric] w_def[symmetric] by linarith
qed

text \<open>C32: The verdict is right about the target as it was typed. With \<open>q\<close> the target percentage in decimals,
  stored as the float nearest to it, a monitor whose counts reach it exactly is never reported as
  having missed it, and one that falls short by two parts in \<open>10^9\<close> of a percent or more is never
  reported as having met it; whatever of the window was observed, consumed and remaining budget
  add up to the whole.\<close>

theorem verdict_matches_the_target:
  assumes "proper_counts b" "k = counted_up b h" "n = k + day_down h b" "0 < n" "1 \<le> q" "q \<le> 100"
    "s = compute_sla (compute_uptime b h) \<lparr> tg_percent = fl q, tg_source = src \<rparr> window downtime"
  shows "(q * of_int n \<le> 100 * of_int k \<longrightarrow> sla_met s = Some True) \<and>
         (100 * of_int k \<le> (q - 2 / 1000000000) * of_int n \<longrightarrow> sla_met s = Some False) \<and>
         sla_consumed s + sla_remaining s = sla_budget s"
proof -
  have range: "0 \<le> k" "k \<le> n" "n < 2 ^ 53"
    using counted_range[OF assms(1), of h] assms(2,3) by simp_all
  define a where "a = float_mul (fl (of_int k / of_int n)) 100"
  have a: "\<bar>a - 100 * of_int k / of_int n\<bar> \<le> 1 / 100000000000"
    unfolding a_def using range assms(4) by (intro actual_percent)
  have met: "sla_met s = Some (float_sub (fl q) (fl (1 / 1000000000)) \<le> a)"
    using assms(2-4) by (simp add: assms(7) compute_sla_def uptime_ratio[OF assms(1)] a_def Let_def)
  have "float_sub (fl q) (fl (1 / 1000000000)) \<le> a" if "q \<le> 100 * of_int k / of_int n"
    using that a tolerance[OF assms(5,6)] by linarith
  moreover have "a < float_sub (fl q) (fl (1 / 1000000000))" if "100 * of_int k / of_int n \<le> q - 2 / 1000000000"
    using that a tolerance[OF assms(5,6)] by linarith
  ultimately show ?thesis
    using assms(4) by (auto simp: met le_divide_eq divide_le_eq) (simp add: assms(7) compute_sla_def Let_def)
qed

section \<open>Breaches are the runs of days with downtime\<close>

text \<open>The reference: leave out the days nothing is known of, and take the maximal runs of what is down.\<close>

function runs :: "('a \<Rightarrow> bool) \<Rightarrow> 'a list \<Rightarrow> 'a list list" where
  "runs p [] = []"
| "runs p (x # xs) =
     (if p x then (x # takeWhile p xs) # runs p (dropWhile p xs) else runs p xs)"
  by pat_completeness auto

termination
  by (relation "measure (\<lambda>(p, xs). length xs)") (auto simp: le_imp_less_Suc length_dropWhile_le)

lemma runs_parts:
  "r \<in> set (runs p xs) \<Longrightarrow> r \<noteq> [] \<and> (\<forall>x \<in> set r. p x) \<and> (\<exists>us vs. xs = us @ r @ vs)"
proof (induction p xs rule: runs.induct)
  case (2 p x xs)
  show ?case
  proof (cases "p x \<and> r = x # takeWhile p xs")
    case True
    then have "x # xs = [] @ r @ dropWhile p xs" by simp
    moreover have "r \<noteq> [] \<and> (\<forall>y \<in> set r. p y)" using True by (auto dest: set_takeWhileD)
    ultimately show ?thesis by blast
  next
    case False
    with "2.prems" consider "p x" "r \<in> set (runs p (dropWhile p xs))" | "\<not> p x" "r \<in> set (runs p xs)"
      by (auto split: if_splits)
    then show ?thesis
    proof cases
      case 1
      with "2.IH"(1) obtain us vs where "r \<noteq> [] \<and> (\<forall>x \<in> set r. p x)" "dropWhile p xs = us @ r @ vs"
        by blast
      then have "x # xs = (x # takeWhile p xs @ us) @ r @ vs" by (metis append_Cons append_assoc takeWhile_dropWhile_id)
      with \<open>r \<noteq> [] \<and> (\<forall>x \<in> set r. p x)\<close> show ?thesis by blast
    next
      case 2
      with "2.IH"(2) show ?thesis by (metis append_Cons)
    qed
  qed
qed simp

lemma runs_prefix:
  assumes "\<forall>x \<in> set ds. p x" "ds \<noteq> []"
  shows "runs p (ds @ xs) = (ds @ takeWhile p xs) # runs p (dropWhile p xs)"
  using assms by (cases ds) (simp_all add: takeWhile_append2 dropWhile_append2)

definition is_down :: "string \<Rightarrow> history_bucket \<Rightarrow> bool" where
  "is_down h b = (day_down h b \<noteq> 0)"

definition is_known :: "string \<Rightarrow> history_bucket \<Rightarrow> bool" where
  "is_known h b = (day_down h b \<noteq> 0 \<or> 0 < day_observed h b)"

definition run_seconds :: "string \<Rightarrow> history_bucket list \<Rightarrow> rat" where
  "run_seconds h days =
     foldl float_add 0 (map (\<lambda>b. day_downtime_seconds (day_down h b) (day_observed h b)) days)"

definition breach_of_run :: "string \<Rightarrow> history_bucket list \<Rightarrow> breach" where
  "breach_of_run h days =
     \<lparr> br_started = hk_start (hd days), br_ended = hk_start (last days) + 24 * hour,
       br_seconds = float_to_int (of_int (float_round (run_seconds h days))) \<rparr>"

text \<open>The loop with an open run: what it has written, and the run it will close.\<close>

definition open_run :: "string \<Rightarrow> breach list \<Rightarrow> history_bucket list \<Rightarrow> breach_scan" where
  "open_run h out days =
     \<lparr> bs_out = out, bs_current = (if days = [] then None
         else Some \<lparr> br_started = hk_start (hd days), br_ended = hk_start (last days) + 24 * hour, br_seconds = 0 \<rparr>),
       bs_seconds = run_seconds h days \<rparr>"

lemma flush_run:
  "flush (open_run h out days) = open_run h (out @ (if days = [] then [] else [breach_of_run h days])) []"
  by (auto simp: flush_def open_run_def breach_of_run_def run_seconds_def)

lemma breach_day_run:
  "breach_day h (open_run h out days) b =
     (if is_down h b then open_run h out (days @ [b])
      else if is_known h b then flush (open_run h out days) else open_run h out days)"
  by (auto simp: breach_day_def is_down_def is_known_def open_run_def run_seconds_def Let_def
      add_date_utc_days hour_def)

lemma scan_runs:
  assumes "\<forall>b \<in> set days. is_down h b"
  shows "bs_out (flush (foldl (breach_day h) (open_run h out days) bs)) =
    out @ map (breach_of_run h) (runs (is_down h) (days @ filter (is_known h) bs))"
  using assms
proof (induction bs arbitrary: out days)
  case Nil
  then show ?case
    using runs_prefix[of days "is_down h" "[]"] by (cases "days = []") (simp_all add: flush_run, simp_all add: open_run_def)
next
  case (Cons b bs)
  have known: "is_down h b \<Longrightarrow> is_known h b" by (simp add: is_down_def is_known_def)
  consider (down) "is_down h b" | (up) "\<not> is_down h b" "is_known h b" | (gap) "\<not> is_known h b"
    using known by blast
  then show ?case
  proof cases
    case down
    with Cons.IH[of "days @ [b]" out] Cons.prems known show ?thesis by (simp add: breach_day_run)
  next
    case up
    have "runs (is_down h) (days @ b # filter (is_known h) bs) =
        (if days = [] then [] else [days]) @ runs (is_down h) (filter (is_known h) bs)"
      using Cons.prems up runs_prefix[of days "is_down h" "b # filter (is_known h) bs"] by auto
    with up Cons.IH[of "[]"] show ?thesis by (simp add: breach_day_run flush_run)
  next
    case gap
    with Cons.IH[of days out] Cons.prems known show ?thesis by (auto simp: breach_day_run)
  qed
qed

text \<open>C16: The breach log is a segmentation of the daily series: leave out the days nothing is known of,
  and every maximal run of days with downtime is one breach, from the start of its first day to
  the end of its last, with the seconds of its days added up and rounded once. The downtime
  charged to the error budget is the sum over these.\<close>

theorem breaches_are_runs:
  "compute_breaches daily h = map (breach_of_run h) (runs (is_down h) (filter (is_known h) daily))
   \<and> downtime_seconds daily h =
       sum_list (map (br_seconds \<circ> breach_of_run h) (runs (is_down h) (filter (is_known h) daily)))"
proof -
  have "\<lparr> bs_out = [], bs_current = None, bs_seconds = 0 \<rparr> = open_run h [] []"
    by (simp add: open_run_def run_seconds_def)
  with scan_runs[of "[]" h "[]" daily] show ?thesis
    by (simp add: compute_breaches_def downtime_seconds_def)
qed

text \<open>The seconds of a run never exceed the days in it: rounding is monotone and the bound is a float.\<close>

lemma day_seconds_bounds:
  assumes "proper_counts b"
  shows "0 \<le> day_downtime_seconds (day_down h b) (day_observed h b)"
    "day_downtime_seconds (day_down h b) (day_observed h b) \<le> 86400"
proof -
  define d n where "d = day_down h b" and "n = day_observed h b"
  have dn: "0 \<le> d" "d \<le> n" "n < 2 ^ 53"
    using assms by (auto simp: d_def n_def day_down_def day_observed_def proper_counts_def)
  have "0 \<le> float_ratio d n \<and> float_ratio d n \<le> 1" if "0 < n"
    using that dn fl_unit[of "of_int d / of_int n"]
    by (simp add: float_ratio_def float_ops fl_of_small_int divide_le_eq_1)
  moreover have "fl (float_ratio d n * 86400) \<le> fl 86400" if "0 < n" "0 \<le> float_ratio d n" "float_ratio d n \<le> 1"
    using that by (intro fl_mono_nonneg) simp_all
  moreover have "fl 86400 = 86400" using fl_of_small_int[of 86400] by simp
  ultimately show "0 \<le> day_downtime_seconds (day_down h b) (day_observed h b)"
    "day_downtime_seconds (day_down h b) (day_observed h b) \<le> 86400"
    unfolding d_def[symmetric] n_def[symmetric]
    by (auto simp: day_downtime_seconds_def float_mul_def)
qed

lemma run_seconds_bounds:
  assumes "\<forall>b \<in> set days. proper_counts b" "length days < 2 ^ 30"
  shows "0 \<le> run_seconds h days \<and> run_seconds h days \<le> of_int (86400 * int (length days))"
  using assms
proof (induction days rule: rev_induct)
  case (snoc b days)
  let ?s = "run_seconds h days" and ?d = "day_downtime_seconds (day_down h b) (day_observed h b)"
  have "run_seconds h (days @ [b]) = fl (?s + ?d)" by (simp add: run_seconds_def float_add_def)
  moreover have s: "0 \<le> ?s" "?s \<le> of_int (86400 * int (length days))" using snoc by simp_all
  moreover have d: "0 \<le> ?d" "?d \<le> 86400" using day_seconds_bounds[of b h] snoc.prems by simp_all
  moreover have "?s + ?d \<le> of_int (86400 * int (length (days @ [b])))" using s d by simp
  moreover have "fl (of_int (86400 * int (length (days @ [b])))) = of_int (86400 * int (length (days @ [b])))"
    using snoc.prems by (intro fl_of_small_int) simp_all
  ultimately show ?case
    using fl_mono_nonneg[of "?s + ?d" "of_int (86400 * int (length (days @ [b])))"] by simp
qed (simp add: run_seconds_def)

lemma float_round_bounds: "0 \<le> x \<Longrightarrow> x \<le> of_int k \<Longrightarrow> 0 \<le> float_round x \<and> float_round x \<le> k"
  by (auto simp: float_round_def le_floor_iff floor_le_iff)

text \<open>Days that do not overlap: each starts at least a day after the one before.\<close>

definition apart :: "history_bucket \<Rightarrow> history_bucket \<Rightarrow> bool" where
  "apart a b = (hk_start a + 24 * hour \<le> hk_start b)"

lemma apart_span:
  assumes "sorted_wrt apart days" "days \<noteq> []"
  shows "hk_start (hd days) + int (length days) * (24 * hour) \<le> hk_start (last days) + 24 * hour"
  using assms
proof (induction days rule: rev_induct)
  case (snoc b days)
  then show ?case
  proof (cases "days = []")
    case False
    with snoc have "hk_start (last days) + 24 * hour \<le> hk_start b"
      by (auto simp: sorted_wrt_append apart_def)
    with False snoc show ?thesis by (simp add: sorted_wrt_append algebra_simps)
  qed simp
qed simp

text \<open>A breach never claims more downtime than the days it spans, and never less than none: with the days
  of the series at least a day apart, its duration fits between its start and its end.\<close>

theorem breach_fits_its_span:
  assumes "sorted_wrt apart daily" "\<forall>b \<in> set daily. proper_counts b" "length daily < 2 ^ 30"
  shows "\<forall>br \<in> set (compute_breaches daily h).
    0 \<le> br_seconds br \<and> br_seconds br * second \<le> br_ended br - br_started br"
proof
  fix br assume "br \<in> set (compute_breaches daily h)"
  then obtain r where r: "r \<in> set (runs (is_down h) (filter (is_known h) daily))" "br = breach_of_run h r"
    using scan_runs[of "[]" h "[]" daily] unfolding compute_breaches_def
    by (auto simp: open_run_def run_seconds_def)
  then obtain us vs where us: "filter (is_known h) daily = us @ r @ vs" "r \<noteq> []"
    using runs_parts by blast
  have "set r \<subseteq> set daily" using arg_cong[OF us(1), of set] by auto
  moreover have "length r \<le> length daily"
    using arg_cong[OF us(1), of length] length_filter_le[of "is_known h" daily] by simp
  ultimately have "0 \<le> run_seconds h r \<and> run_seconds h r \<le> of_int (86400 * int (length r))"
    using assms(2,3) by (intro run_seconds_bounds) auto
  then have n: "0 \<le> float_round (run_seconds h r)" "float_round (run_seconds h r) \<le> 86400 * int (length r)"
    using float_round_bounds by blast+
  have "sorted_wrt apart r"
    using sorted_wrt_filter[OF assms(1), of "is_known h"] by (simp add: us(1) sorted_wrt_append)
  with us(2) have "int (length r) * (24 * hour) \<le> br_ended br - br_started br"
    using apart_span[of r] by (simp add: r(2) breach_of_run_def)
  moreover have "float_to_int (of_int (float_round (run_seconds h r))) = float_round (run_seconds h r)"
    using n \<open>length r \<le> length daily\<close> assms(3)
    by (simp add: float_to_int_def rat_trunc_def in_int64_def min_int64_def max_int64_def)
  ultimately show "0 \<le> br_seconds br \<and> br_seconds br * second \<le> br_ended br - br_started br"
    using n by (simp add: r(2) breach_of_run_def hour_def second_def)
qed

section \<open>On concrete days\<close>

definition day_of :: "int \<Rightarrow> int \<Rightarrow> int \<Rightarrow> history_bucket" where
  "day_of n up down = no_bucket \<lparr> hk_start := n * (24 * hour), hk_up := up, hk_down := down \<rparr>"

theorem uptime_is_a_proportion_witness:
  "u_ratio (compute_uptime (day_of 0 9 1) '''') \<noteq> Some 1 \<and> u_ratio (compute_uptime (day_of 0 9 1) '''') \<noteq> None
   \<and> u_ratio (compute_uptime (day_of 0 9 0) '''') = Some 1"
proof -
  have counts: "proper_counts (day_of 0 u d)" "counted_up (day_of 0 u d) h = u" "day_down h (day_of 0 u d) = d"
    if "0 \<le> u" "0 \<le> d" "u + d < 2 ^ 53" for u d h
    using that by (simp_all add: proper_counts_def counted_up_def day_down_def day_of_def no_bucket_def)
  show ?thesis
    using conjunct1[OF uptime_is_a_proportion[OF counts(1)[of 9 1], of "''''"]]
      conjunct1[OF uptime_is_a_proportion[OF counts(1)[of 9 0], of "''''"]]
    by (simp add: counts split: option.splits)
qed

theorem verdict_matches_the_target_witness:
  "sla_met (compute_sla (compute_uptime (day_of 0 8991 9) '''') \<lparr> tg_percent = fl (999 / 10), tg_source = ''monitor'' \<rparr>
     (24 * hour) 86) = Some True"
proof -
  have "proper_counts (day_of 0 8991 9)" "8991 = counted_up (day_of 0 8991 9) ''''"
    "9000 = 8991 + day_down '''' (day_of 0 8991 9)"
    by (simp_all add: proper_counts_def counted_up_def day_down_def day_of_def no_bucket_def)
  from verdict_matches_the_target[OF this _ _ _ refl, of "999 / 10"]
  show ?thesis by (auto simp del: maintenance_policies)
qed

theorem breach_fits_its_span_witness:
  "\<forall>br \<in> set (compute_breaches [day_of 0 5 1, day_of 1 0 0, day_of 2 3 3] ''exclude'').
     0 \<le> br_seconds br \<and> br_seconds br * second \<le> br_ended br - br_started br"
  by (rule breach_fits_its_span) (simp_all add: apart_def proper_counts_def day_of_def no_bucket_def hour_def)

end
