(* ===== verification/ReportDocumentFacts.thy ===== *)
theory ReportDocumentFacts
  imports ReportDocument ReportFacts
begin

text \<open>
  What a finished document says: its parts agree with one another whatever the store answered.
  Then two ways in which a document misleads: the daily series is cut in UTC days while the
  period is cut in its own zone, and the estate's latency depends on the order in which Go visits
  a map.
\<close>

section \<open>The parts agree\<close>

lemma reading_Inr [simp]: "reading what r = Inr x \<longleftrightarrow> r = Inr x"
  by (simp add: reading_def split: sum.splits)

lemma each_section_Inr:
  "each_section f ss = Inr ts \<Longrightarrow> list_all2 (\<lambda>s t. f s = Inr t) ss ts"
  by (induction ss arbitrary: ts) (auto simp: and_then_Inr)

definition but_p95 :: "monitor_section \<Rightarrow> monitor_section \<Rightarrow> bool" where
  "but_p95 s t = (\<exists>p. t = with_p95 p s)"

lemma attach_p95_keeps:
  assumes "attach_p95 st ss r w = Inr ts"
  shows "list_all2 but_p95 ss ts"
proof -
  have "list_all2 but_p95 ss (map (with_p95 p) ss)" for p
    by (auto simp: list_all2_conv_all_nth but_p95_def)
  moreover have "list_all2 but_p95 ss us" if "each_section (one_p95 st a b) ss = Inr us" for a b us
    using each_section_Inr[OF that]
    by (rule list_all2_mono) (auto simp: one_p95_def and_then_Inr but_p95_def)
  ultimately show ?thesis
    using assms by (auto simp: attach_p95_def Let_def split: if_splits)
qed

lemma but_p95_fields:
  assumes "but_p95 s t"
  shows "se_monitor t = se_monitor s" "se_uptime t = se_uptime s" "se_sla t = se_sla s" "se_breaches t = se_breaches s"
    "la_samples (se_latency t) = la_samples (se_latency s)"
  using assms by (auto simp: but_p95_def with_p95_def)

text \<open>Adding buckets up, field by field.\<close>

lemma add_bucket_counts:
  "hk_up (foldl sum_step t bs) = hk_up t + sum_list (map hk_up bs)"
  "hk_down (foldl sum_step t bs) = hk_down t + sum_list (map hk_down bs)"
  "hk_maintenance (foldl sum_step t bs) = hk_maintenance t + sum_list (map hk_maintenance bs)"
  "hk_unknown (foldl sum_step t bs) = hk_unknown t + sum_list (map hk_unknown bs)"
  "hk_skipped (foldl sum_step t bs) = hk_skipped t + sum_list (map hk_skipped bs)"
  "hk_rt_count (foldl sum_step t bs) = hk_rt_count t + sum_list (map hk_rt_count bs)"
  by (induction bs arbitrary: t) (simp_all add: sum_step_def add_bucket_def)

lemma sum_buckets_counts:
  "hk_up (sum_buckets bs) = sum_list (map hk_up bs)"
  "hk_down (sum_buckets bs) = sum_list (map hk_down bs)"
  "hk_maintenance (sum_buckets bs) = sum_list (map hk_maintenance bs)"
  "hk_unknown (sum_buckets bs) = sum_list (map hk_unknown bs)"
  "hk_skipped (sum_buckets bs) = sum_list (map hk_skipped bs)"
  "hk_rt_count (sum_buckets bs) = sum_list (map hk_rt_count bs)"
  by (cases bs; simp add: add_bucket_counts add_bucket_def no_bucket_def)+

lemma collect_sum:
  assumes "f no_bucket = (0 :: int)"
  shows "sum_list (map f (collect totals ids)) =
    sum_list (map (\<lambda>i. f (case totals i of Some b \<Rightarrow> b | None \<Rightarrow> no_bucket)) ids)"
  using assms by (induction ids) (auto simp: collect_def List.map_filter_simps split: option.splits)

lemma latency_days_samples: "la_samples (foldl (latency_day tgt) l daily) = la_samples l"
  by (induction daily arbitrary: l) (auto simp: latency_day_def Let_def split: option.splits)

lemma latency_samples: "la_samples (compute_latency tot daily tgt) = hk_rt_count tot"
  by (simp add: compute_latency_def Let_def latency_days_samples split: option.splits)

definition section_adds_up :: "monitor_section \<Rightarrow> bool" where
  "section_adds_up s =
     (case se_sla s of
        None \<Rightarrow> True
      | Some a \<Rightarrow> sla_consumed a = sum_list (map br_seconds (se_breaches s)) \<and>
                  sla_consumed a + sla_remaining a = sla_budget a)"

definition summary_adds_up :: "estate \<Rightarrow> monitor_section list \<Rightarrow> bool" where
  "summary_adds_up e ss =
     (u_up (es_uptime e) = sum_list (map (u_up \<circ> se_uptime) ss) \<and>
      u_down (es_uptime e) = sum_list (map (u_down \<circ> se_uptime) ss) \<and>
      u_maintenance (es_uptime e) = sum_list (map (u_maintenance \<circ> se_uptime) ss) \<and>
      u_unknown (es_uptime e) = sum_list (map (u_unknown \<circ> se_uptime) ss) \<and>
      u_skipped (es_uptime e) = sum_list (map (u_skipped \<circ> se_uptime) ss) \<and>
      u_observed (es_uptime e) = sum_list (map (u_observed \<circ> se_uptime) ss) \<and>
      la_samples (es_latency e) = sum_list (map (la_samples \<circ> se_latency) ss))"

definition adds_up :: "document \<Rightarrow> bool" where
  "adds_up doc =
     (list_all section_adds_up (do_sections doc) \<and>
      (case do_summary doc of None \<Rightarrow> do_sections doc = [] | Some e \<Rightarrow> summary_adds_up e (do_sections doc)))"

lemma section_of_adds_up: "section_adds_up (section_of sp len totals daily hourly targets m)"
  by (simp add: section_adds_up_def section_of_def Let_def compute_sla_def downtime_seconds_def split: option.splits)

lemma uptime_counts [simp]:
  "u_up (compute_uptime b h) = hk_up b" "u_down (compute_uptime b h) = hk_down b"
  "u_maintenance (compute_uptime b h) = hk_maintenance b" "u_unknown (compute_uptime b h) = hk_unknown b"
  "u_skipped (compute_uptime b h) = hk_skipped b"
  by (simp_all add: compute_uptime_def Let_def)

lemma uptime_observed: "u_observed (compute_uptime b h) =
    hk_up b + hk_down b + (if h = MaintenanceCountAsUp \<or> h = MaintenanceCountAsDown then hk_maintenance b else 0)"
  by (simp add: compute_uptime_def Let_def)

lemma summary_of_sections:
  assumes "tot = sum_buckets (collect totals (map sm_id ms))" "es_uptime e = compute_uptime tot (sp_handling sp)" "la_samples (es_latency e) = hk_rt_count tot"
  shows "summary_adds_up e (map (section_of sp len totals daily hourly targets) ms)"
proof -
  let ?b = "\<lambda>m. case totals (sm_id m) of Some b \<Rightarrow> b | None \<Rightarrow> no_bucket"
  have field: "sum_list (map f (collect totals (map sm_id ms))) = sum_list (map (\<lambda>m. f (?b m)) ms)"
    if "f no_bucket = (0 :: int)" for f
    using collect_sum[of f totals "map sm_id ms", OF that] by (simp add: comp_def)
  have se: "se_uptime (section_of sp len totals daily hourly targets m) = compute_uptime (?b m) (sp_handling sp)"
    "la_samples (se_latency (section_of sp len totals daily hourly targets m)) = hk_rt_count (?b m)" for m
    by (simp_all add: section_of_def Let_def latency_samples)
  have zero: "hk_up no_bucket = 0" "hk_down no_bucket = 0" "hk_maintenance no_bucket = 0" "hk_unknown no_bucket = 0"
    "hk_skipped no_bucket = 0" "hk_rt_count no_bucket = 0" by (simp_all add: no_bucket_def)
  show ?thesis
    unfolding summary_adds_up_def map_map comp_def se
    by (simp add: assms sum_buckets_counts field zero uptime_observed sum_list_addf)
qed

lemma section_adds_up_but_p95: "but_p95 s t \<Longrightarrow> section_adds_up t = section_adds_up s"
  by (cases "se_sla s") (simp_all add: section_adds_up_def but_p95_fields)

lemma adds_up_but_p95:
  assumes "list_all2 but_p95 ss ts" "list_all section_adds_up ss" "summary_adds_up e ss"
  shows "list_all section_adds_up ts \<and> summary_adds_up e ts"
proof -
  have "list_all section_adds_up ts"
    using assms(1,2) by (induction rule: list_all2_induct) (simp_all add: section_adds_up_but_p95)
  moreover have "map se_uptime ts = map se_uptime ss" "map (la_samples \<circ> se_latency) ts = map (la_samples \<circ> se_latency) ss"
    using assms(1) by (induction rule: list_all2_induct) (auto simp: but_p95_fields)
  ultimately show ?thesis using assms(3) by (simp add: summary_adds_up_def flip: map_map)
qed

lemma attach_incidents_keeps:
  "attach_incidents st sp w doc = Inr doc' \<Longrightarrow> do_sections doc' = do_sections doc \<and> do_summary doc' = do_summary doc"
  by (auto simp: attach_incidents_def and_then_Inr Let_def split: if_splits)

lemma add_comparison_keeps:
  "add_comparison st visit sp w tier doc = Inr doc' \<Longrightarrow> do_sections doc' = do_sections doc \<and> do_summary doc' = do_summary doc"
  by (auto simp: add_comparison_def and_then_Inr split: if_splits)

text \<open>C17: Whatever the store answers, a document that is built agrees with itself: in every monitor's section
  the budget consumed is the sum of the breaches listed, consumed and remaining make the budget,
  and every count of the estate's summary (up, down, maintenance, unknown, skipped, observed,
  samples) is the sum of the sections'.\<close>

theorem report_adds_up:
  assumes "build_report zones visit st sp r now_in now = Inr doc"
  shows "adds_up doc"
proof -
  obtain ms where scoped: "st_scope st (sp_scope sp) = Inr ms"
    using assms by (auto simp: build_report_def and_then_Inr)
  show ?thesis
  proof (cases "ms = []")
    case True
    with assms scoped show ?thesis by (auto simp: build_report_def and_then_Inr Let_def adds_up_def)
  next
    case False
    with assms scoped obtain wi len totals daily hourly targets ss y e d tier where
      p: "attach_p95 st (map (section_of sp len totals daily hourly targets) ms) r wi = Inr ss"
      and i: "attach_incidents st sp wi y = Inr d"
      and doc: "add_comparison st visit sp wi tier d = Inr doc"
      and y: "do_sections y = ss" "do_summary y = Some e"
      and e: "es_uptime e = compute_uptime (sum_buckets (collect totals (map sm_id ms))) (sp_handling sp)"
        "la_samples (es_latency e) = hk_rt_count (sum_buckets (collect totals (map sm_id ms)))"
      by (clarsimp simp: build_report_def and_then_Inr Let_def)
        (rule that, assumption, assumption, assumption, simp, simp, simp_all add: latency_samples)
    have "list_all section_adds_up (map (section_of sp len totals daily hourly targets) ms)"
      by (simp add: list_all_iff section_of_adds_up)
    with adds_up_but_p95[OF attach_p95_keeps[OF p]] summary_of_sections[OF refl e]
    have "list_all section_adds_up ss \<and> summary_adds_up e ss" by blast
    with attach_incidents_keeps[OF i] add_comparison_keeps[OF doc] y show ?thesis by (simp add: adds_up_def)
  qed
qed

section \<open>Days in UTC, months in Brisbane\<close>

definition brisbane :: location where
  "brisbane = \<lparr> loc_name = ''Australia/Brisbane'', loc_base = 36000, loc_trans = [] \<rparr>"

definition five_minutes :: "int \<Rightarrow> int \<Rightarrow> int \<Rightarrow> bucket_row" where
  "five_minutes ms up down =
     \<lparr> b_start = ms, b_monitor = [1], b_org = sentinel_org, b_up = up, b_down = down, b_pending = 0, b_maintenance = 0,
       b_unknown = 0, b_skipped = 0, b_rt_sum = None, b_rt_count = 0, b_rt_min = None, b_rt_max = None, b_rt_p95 = None \<rparr>"

definition april_rows :: "bucket_row list" where
  "april_rows = [five_minutes 1774951200000 5 0, five_minutes 1774969200000 0 5]"

definition april_outage :: report_db where
  "april_outage =
     \<lparr> rd_monitors = [\<lparr> sm_id = [1], sm_name = ''shop'', sm_type = ''http'', sm_group = None, sm_slo = Some (fl (999 / 10)), sm_tags = [] \<rparr>],
       rd_groups = [],
       rd_data = \<lparr> db_raw = [],
         db_tiers = (\<lambda>t. if t = ''5m'' then april_rows
                         else if t = ''1d'' then [aggregate_buckets ([1], 1774915200000) april_rows] else []),
         db_deliveries = (\<lambda>_. []), db_purges = [], db_monitors = [], db_cache = [], db_faults = {} \<rparr> \<rparr>"

definition monthly_sla :: spec where
  "monthly_sla =
     \<lparr> sp_type = ''sla'', sp_scope = \<lparr> sc_monitors = [[1]], sc_groups = [], sc_tags = [] \<rparr>, sp_period = ''month'',
       sp_style = ''calendar'', sp_zone = ''Australia/Brisbane'', sp_from = zero_time, sp_to = zero_time, sp_dates_in = utc,
       sp_handling = ''exclude'', sp_target = None, sp_latency_target = None, sp_tier = '''',
       sp_comparison = \<lparr> cs_mode = '''', cs_monitors = [], cs_groups = [] \<rparr> \<rparr>"

definition brisbane_report :: "instant \<Rightarrow> unit report_error + document" where
  "brisbane_report now = build_report (\<lambda>_. Some brisbane) (\<lambda>ids. ids) (sqlite_reports april_outage (\<lambda>_ _ _. Inr []))
     monthly_sla default_retention utc now"


definition march :: window where
  "march = \<lparr> wi_from = 1772287200000000000, wi_to = 1774965600000000000, wi_zone = ''Australia/Brisbane'', wi_times_in = brisbane \<rparr>"
definition april :: window where
  "april = \<lparr> wi_from = 1774965600000000000, wi_to = 1777557600000000000, wi_zone = ''Australia/Brisbane'', wi_times_in = brisbane \<rparr>"

lemma brisbane_days:
  "date_of brisbane 1775088000000000000 = (2026, 4, 2)" "date_of brisbane 1777680000000000000 = (2026, 5, 2)"
  "date_of brisbane 1774965600000000000 = (2026, 4, 1)" "date_of brisbane 1777557600000000000 = (2026, 5, 1)"
  by (rule date_ofI; simp add: date_eval brisbane_def)+

lemma brisbane_starts:
  "midnight brisbane 2026 4 1 = 1774965600000000000" "midnight brisbane 2026 5 1 = 1777557600000000000"
  by (simp_all add: midnight_def go_date_eval brisbane_def)

lemma brisbane_month_before:
  "add_date brisbane 1774965600000000000 0 (- 1) 0 = 1772287200000000000"
  "add_date brisbane 1777557600000000000 0 (- 1) 0 = 1774965600000000000"
  by (simp_all only: add_date_def brisbane_days prod.case) (simp_all add: go_date_eval date_eval brisbane_def)

lemma brisbane_calendar:
  "calendar_window ''month'' brisbane 1775088000000000000 = Inr (1772287200000000000, 1774965600000000000)"
  "calendar_window ''month'' brisbane 1777680000000000000 = Inr (1774965600000000000, 1777557600000000000)"
  by (simp_all add: calendar_window_def brisbane_days brisbane_starts brisbane_month_before)

lemma brisbane_windows:
  "resolve_spec_window (\<lambda>_. Some brisbane) monthly_sla 1775088000000000000 = Inr march"
  "resolve_spec_window (\<lambda>_. Some brisbane) monthly_sla 1777680000000000000 = Inr april"
  by (simp_all add: resolve_spec_window_def resolve_window_def monthly_sla_def brisbane_calendar march_def april_def)
    (simp_all add: brisbane_def)

lemma brisbane_tiers:
  "resolve_tier '''' march utc 1775088000000000000 default_retention =
     \<lparr> rs_tier = ''5m'', rs_requested = '''', rs_downgraded = False, rs_covered_from = None \<rparr>"
  "resolve_tier '''' april utc 1777680000000000000 default_retention =
     \<lparr> rs_tier = ''5m'', rs_requested = '''', rs_downgraded = False, rs_covered_from = None \<rparr>"
  by (simp_all add: resolve_tier_def candidate_tiers_def asked_for_def tier_retention_def default_retention_def
      tier_covers_def add_date_utc_days march_def april_def)

lemmas april_tables = april_outage_def april_rows_def five_minutes_def aggregate_buckets_def buckets_in_range_def millis_def
  from_millis_def values_of_def sql_sum_def sql_min_def sql_max_def tier_rows_def List.map_filter_simps

lemma april_scope: "monitors_in_scope april_outage (sp_scope monthly_sla) = rd_monitors april_outage"
  by (simp add: monitors_in_scope_def april_outage_def monthly_sla_def scope_empty_def)

lemma april_targets: "slo_targets april_outage [[1]] [1] = Some \<lparr> tg_percent = fl (999 / 10), tg_source = ''monitor'' \<rparr>"
  by (simp add: slo_targets_def april_outage_def)

lemma april_totals:
  "window_totals april_outage [[1]] (wi_from march) (wi_to march) ''5m'' [1] =
     Some (no_bucket \<lparr> hk_start := wi_from march, hk_up := 5 \<rparr>)"
  "window_totals april_outage [[1]] (wi_from april) (wi_to april) ''5m'' [1] =
     Some (no_bucket \<lparr> hk_start := wi_from april, hk_down := 5 \<rparr>)"
  by (simp_all add: window_totals_def april_tables march_def april_def scan_bucket_def no_bucket_def)

lemma april_series:
  "series_from_tier april_outage ''1d'' [[1]] (wi_from march) (wi_to march) [1] =
     [no_bucket \<lparr> hk_start := 1774915200000000000, hk_up := 5, hk_down := 5 \<rparr>]"
  "series_from_tier april_outage ''1d'' [[1]] (wi_from april) (wi_to april) [1] = []"
  by (simp_all add: series_from_tier_def april_tables march_def april_def scan_bucket_def no_bucket_def)


lemma small_floats: "fl 5 = 5" "fl 10 = 10" "fl (1 / 2) = 1 / 2" "fl 43200 = 43200"
  using fl_of_small_int[of 5] fl_of_small_int[of 10] fl_dyadic[of 1 1] fl_of_small_int[of 43200] by simp_all

lemma floor_half: "\<lfloor>86401 / 2 :: rat\<rfloor> = 43200"
  by (simp add: floor_eq_iff)

lemma half_a_day:
  "map br_seconds (compute_breaches [no_bucket \<lparr> hk_start := t, hk_up := 5, hk_down := 5 \<rparr>] ''exclude'') = [43200]"
  by (simp add: compute_breaches_def breach_day_def flush_def day_down_def day_observed_def no_bucket_def
      day_downtime_seconds_def float_ratio_def float_ops small_floats floor_half float_round_def float_to_int_def rat_trunc_def
      in_int64_def min_int64_def max_int64_def Let_def)

lemma no_breaches: "compute_breaches [] h = []"
  by (simp add: compute_breaches_def flush_def)

lemma five_checks:
  "u_ratio (compute_uptime (no_bucket \<lparr> hk_start := t, hk_up := 5 \<rparr>) ''exclude'') = Some 1"
  "u_ratio (compute_uptime (no_bucket \<lparr> hk_start := t, hk_down := 5 \<rparr>) ''exclude'') = Some 0"
  by (simp_all add: compute_uptime_def no_bucket_def float_ratio_def float_ops small_floats)

definition figures :: "monitor_section \<Rightarrow> rat option \<times> int list \<times> int option" where
  "figures s = (u_ratio (se_uptime s), map br_seconds (se_breaches s), map_option sla_consumed (se_sla s))"

lemma figures_p95: "figures (with_p95 p s) = figures s"
  by (simp add: figures_def with_p95_def)

lemma figures_section:
  "figures (section_of sp len totals daily hourly targets m) =
     (u_ratio (compute_uptime (case totals (sm_id m) of Some b \<Rightarrow> b | None \<Rightarrow> no_bucket) (sp_handling sp)),
      map br_seconds (compute_breaches (daily (sm_id m)) (sp_handling sp)),
      if sp_type sp = ''uptime'' then None
      else map_option (\<lambda>_. sum_list (map br_seconds (compute_breaches (daily (sm_id m)) (sp_handling sp))))
             (resolve_target sp targets (sm_id m)))"
  by (simp add: figures_def section_of_def Let_def compute_sla_def downtime_seconds_def split: option.splits)

lemma sqlite_reads:
  "st_scope (sqlite_reports rd f) s = Inr (monitors_in_scope rd s)"
  "st_totals (sqlite_reports rd f) ids x y t = Inr (window_totals rd ids x y t)"
  "st_daily (sqlite_reports rd f) ids x y = Inr (series_from_tier rd ''1d'' ids x y)"
  "st_targets (sqlite_reports rd f) ids = Inr (slo_targets rd ids)"
  by (simp_all add: sqlite_reports_def)

lemma brisbane_p95:
  "attach_p95 (sqlite_reports april_outage f) [s] default_retention w = Inr [with_p95 (absent_p95 ''insufficient_raw_retention'') s]"
  if "se_monitor s = [1]"
  using that
  by (simp add: attach_p95_def p95_max_monitors_def raw_covers_trailing_week_def default_retention_def one_p95_def
      sqlite_reports_def raw_covers_def tier_widths_def tiers_def tier1m_def tier5m_def tier1h_def tier1d_def
      monitor_raw_def april_outage_def bound_of_def trailing_p95_def Let_def)

lemma brisbane_figures:
  assumes "resolve_spec_window (\<lambda>_. Some brisbane) monthly_sla now = Inr w"
    "resolve_tier '''' w utc now default_retention =
       \<lparr> rs_tier = ''5m'', rs_requested = '''', rs_downgraded = False, rs_covered_from = None \<rparr>"
    "window_totals april_outage [[1]] (wi_from w) (wi_to w) ''5m'' [1] = Some b" "hourly_max_window < window_duration w"
  shows "\<exists>d. brisbane_report now = Inr d \<and> do_window d = w \<and> map figures (do_sections d) =
    [(u_ratio (compute_uptime b ''exclude''),
      map br_seconds (compute_breaches (series_from_tier april_outage ''1d'' [[1]] (wi_from w) (wi_to w) [1]) ''exclude''),
      Some (sum_list (map br_seconds (compute_breaches (series_from_tier april_outage ''1d'' [[1]] (wi_from w) (wi_to w) [1]) ''exclude''))))]"
proof -
  have spec: "sp_tier monthly_sla = ''''" "sp_type monthly_sla = ''sla''" "sp_handling monthly_sla = ''exclude''"
    "cs_mode (sp_comparison monthly_sla) = ''''" "sp_target monthly_sla = None" by (simp_all add: monthly_sla_def)
  obtain m where m: "rd_monitors april_outage = [m]" "sm_id m = [1]" by (simp add: april_outage_def)
  have se: "se_monitor (section_of sp l t d h g m) = [1]" for sp l t d h g by (simp add: section_of_def Let_def m)
  show ?thesis
    using assms
    by (simp add: brisbane_report_def build_report_def spec reading_def sqlite_reads april_scope m covered_start_def
        wants_hourly_def brisbane_p95 se attach_incidents_def add_comparison_def figures_p95 figures_section
        resolve_target_def april_targets Let_def)
qed



text \<open>The same report meets the hypothesis of the first property.\<close>

theorem report_adds_up_witness: "\<exists>d. brisbane_report 1775088000000000000 = Inr d \<and> adds_up d"
proof -
  have d: "hourly_max_window < window_duration march"
    by (simp add: hourly_max_window_def window_duration_def march_def hour_def)
  obtain d where "brisbane_report 1775088000000000000 = Inr d"
    using brisbane_figures[OF brisbane_windows(1) brisbane_tiers(1) april_totals(1) d] by blast
  moreover from this have "adds_up d" unfolding brisbane_report_def by (rule report_adds_up)
  ultimately show ?thesis by blast
qed

section \<open>The order of a map\<close>

definition latency_day_bucket :: "rat \<Rightarrow> int \<Rightarrow> history_bucket" where
  "latency_day_bucket s n = no_bucket \<lparr> hk_start := 0, hk_rt_sum := s, hk_rt_count := n \<rparr>"

definition three_series :: "ident \<Rightarrow> history_bucket list" where
  "three_series i =
     (if i = [1] then [latency_day_bucket 1 2]
      else if i = [2] \<or> i = [3] then [latency_day_bucket (1 / 2 ^ 53) 1] else [])"

lemma binade_unit:
  assumes "1 \<le> x" "x < 2"
  shows "binade x = 0"
proof (rule antisym)
  have "(2::rat) powi binade x < 2 powi 1"
    using binade_bounds(1)[of x] assms by simp
  then show "binade x \<le> 0" by (metis linorder_not_le one_le_numeral power_int_increasing zle_iff_zadd zless_imp_add1_zle add_0)
  show "0 \<le> binade x" using binade_mono[of 1 x] assms binade_powi[of 0] by simp
qed

lemma tie_to_even: "fl (1 + 1 / 2 ^ 53) = 1"
proof -
  have "binade (9007199254740993 / 9007199254740992 :: rat) = 0" by (rule binade_unit) simp_all
  then have u: "float_ulp (9007199254740993 / 9007199254740992 :: rat) = 1 / 4503599627370496"
    by (simp add: float_ulp_def power_int_minus_divide)
  have "\<lfloor>9007199254740993 / 2 :: rat\<rfloor> = 4503599627370496" by (simp add: floor_eq_iff)
  have "fl (9007199254740993 / 9007199254740992) = 1" 
    by (simp add: fl_def u round_even_def Let_def \<open>\<lfloor>9007199254740993 / 2 :: rat\<rfloor> = 4503599627370496\<close>)
  then show ?thesis by simp
qed

lemma sums:
  "fl (9007199254740993 / 9007199254740992) = 1" "fl (1 / 9007199254740992) = 1 / 9007199254740992"
  "fl (1 / 4503599627370496) = 1 / 4503599627370496"
  "fl (4503599627370497 / 4503599627370496) = 4503599627370497 / 4503599627370496"
  "fl (4503599627370497 / 18014398509481984) = 4503599627370497 / 18014398509481984"
  "fl (1 / 4) = 1 / 4" "fl 4 = 4"
  using tie_to_even fl_dyadic[of 1 53] fl_dyadic[of 1 52] fl_dyadic[of "2 ^ 52 + 1" 52] fl_dyadic[of "2 ^ 52 + 1" 54]
    fl_dyadic[of 1 2] fl_of_small_int[of 4] by simp_all

text \<open>The estate's daily latency depends on the order in which a Go map is visited, which the language
  leaves random: three monitors whose sums on one day are 1, \<open>2^-53\<close> and \<open>2^-53\<close> milliseconds average one
  number in one order and another in another, so the same report rendered twice can differ.\<close>

theorem estate_latency_depends_on_map_order:
  "set [[1], [2], [3]] = set [[2], [3], [1 :: 8 word]] \<and>
   map average (merge_daily [[1], [2], [3]] three_series) = [Some (1 / 4)] \<and>
   map average (merge_daily [[2], [3], [1]] three_series) = [Some ((1 + 1 / 2 ^ 52) / 4)]"
  by (simp add: sums merge_daily_def three_series_def latency_day_bucket_def sum_step_def add_bucket_def no_bucket_def
      average_def float_ops zero_time_def millis_def insert_commute)

end
