(* ===== verification/Spec2Isabelle.thy ===== *)
theory Spec2Isabelle
  imports Push RollupRetention MaintenanceSweep AssignSync Outbound ConfigFacts MonitorWriteFacts
    ReportWindowFacts ReportDocumentFacts
begin

text \<open>
  A verification development of an uptime monitor: one process that is the control plane (API,
  store, notifications, reports) and any number of probes that carry out checks and stream the
  results back. The theories model the program's Go code under \<open>src/\<close>; a definition has the name
  of the function it translates, in the case Isabelle allows.

  \<^bold>\<open>The parts and how they interact.\<close> A monitor is written through the API
  (\<open>MonitorWrites\<close>, with its credentials split off and sealed in \<open>ConfigSecrets\<close>). The control
  plane streams the monitors of a probe to it (\<open>AssignSync\<close>), the probe schedules and runs them
  (\<open>ProbeQueue\<close>, \<open>ProbeAssign\<close>, \<open>ProbeSession\<close>) and buffers what it finds (\<open>ProbeBuffer\<close>) until the
  control plane has acknowledged it. Ingest (\<open>Ingest\<close>) turns a batch of results into heartbeats
  (\<open>HeartbeatStore\<close>), the monitor's new state (\<open>ControlStore\<close>), events and live updates, and records
  what a check saw besides its verdict (\<open>Observations\<close>). Push monitors (\<open>Push\<close>) enter ingest without a
  probe. Maintenance windows (\<open>Maintenance\<close>, \<open>MaintenanceStore\<close>) suppress alerts. The rollup
  (\<open>Rollup\<close>) aggregates heartbeats into coarser tiers and deletes what is past its horizon. Events go
  out to webhooks (\<open>Webhooks\<close>, \<open>Outbound\<close>).

  \<^bold>\<open>Foundations.\<close>
  \<^item> \<open>Prelude\<close>: the collections of facts, Go's integers, the result monad over \<open>error + 'a\<close>, generic
    lemmas on lists.
  \<^item> \<open>GoTime\<close>: the \<open>time\<close> package. An instant is a number of nanoseconds since the epoch, a zone a base
    offset with a list of transitions; \<open>go_date\<close> and \<open>add_date\<close> normalise as Go does, gaps and
    repetitions of the clock included. \<open>GoStrings\<close>: \<open>strings\<close> and \<open>strconv\<close>. \<open>Float64\<close>: finite
    \<open>float64\<close> values as the rationals they are, each operation rounding to nearest, ties to even.
    Overflow to infinity is out of reach of the values computed with, and not modelled.
  \<^item> \<open>Model\<close>: \<open>internal/model\<close>, the records of monitors, states, heartbeats and channels. \<open>Ident\<close>:
    \<open>model/id.go\<close>, \<open>model/uuid.go\<close>. \<open>Json\<close>: decoded JSON documents and dotted paths into them.
  \<^item> \<open>Paging\<close>: the keyset listings of the store, as a locale over a key and an order.

  \<^bold>\<open>Ingest\<close> (\<open>controlplane/ingest.go\<close>, \<open>observations.go\<close>, \<open>push.go\<close>, \<open>server.go\<close>). \<open>HeartbeatStore\<close> and
  \<open>ControlStore\<close> hold the tables; every database call can fail, by a fault value the model is given
  per call. \<open>Ingest\<close> is the handler \<open>IngestResults\<close> with all its exits. \<open>IngestFacts\<close> shows what one monitor's
  state machine makes of a sequence of results: its verdict is a function of the outcomes seen,
  outages open and close in turn, reminders come at the intended checks, suppression withholds
  alerts without touching verdicts. \<open>IngestHandler\<close> lifts this to batches: what an acknowledgement
  means, what each error exit leaves behind. The dependency walk looks ten levels up, as
  \<open>maxDependencyDepth\<close> says. \<open>ExpiryFacts\<close>: the alerts about one certificate count down, for which the
  float division of \<open>flooredDays\<close> is shown exact on whole milliseconds.

  \<^bold>\<open>Probe\<close> (\<open>probe/scheduler.go\<close>, \<open>watch.go\<close>, \<open>execute.go\<close>, \<open>buffer.go\<close>). \<open>ProbeQueue\<close> is \<open>container/heap\<close>
  on a slice; its \<open>Less\<close>, \<open>Swap\<close> and sifting are executed, and the locale \<open>due_queue\<close> states what the
  session relies on. \<open>ProbeSession\<close> interleaves the update handler, the loop and the checks in flight as a
  step relation at the granularity of the locks, and \<open>ProbeSessionFacts\<close> has its invariants by rule
  induction. \<open>ProbeBuffer\<close>: sheds repetitions only, and accounts for every result. \<open>AssignSync\<close>
  composes the control plane's stream with the probe's handler: after every message both sides hold
  the same set.

  \<^bold>\<open>Maintenance\<close> (\<open>internal/maintenance\<close>, \<open>store/sqlite/maintenance.go\<close>, \<open>internal/cron\<close>). \<open>Cron\<close> parses
  expressions and searches for the next firing, at most \<open>lookahead_days\<close> (1500) days ahead as the
  source does; the recursion is on that number. \<open>Maintenance\<close> has the occurrences of the four kinds of
  window, \<open>MaintenanceFacts\<close> shows that the search finds the least one in UTC, \<open>MaintenanceSweep\<close> that a
  sweep over due windows moves exactly the monitors under a window. In zones with transitions the
  search is shown to fail on concrete zones.

  \<^bold>\<open>Rollup\<close> (\<open>internal/rollup\<close>, \<open>store/sqlite/rollup.go\<close>). SQL is modelled as the function it computes
  on lists of rows. \<open>RollupExact\<close>: a tier built out of finer tiers says what the raw rows say, up to the
  percentile, which may overstate, and a second pass changes nothing. \<open>RollupRetention\<close>: deletion in
  batches takes exactly what is past its horizon (the loop ends because a full batch leaves fewer
  rows), an accepted policy leaves no hole, the purge takes exactly the queued monitors. Sums of response times are exact rationals,
  where SQLite adds doubles.

  \<^bold>\<open>Webhooks\<close> (\<open>store/sqlite/webhooks.go\<close>, \<open>internal/outbound\<close>). The subscriptions with their failure
  counters and the delivery log; the dispatcher's bounded queue (4096), its attempts and backoff,
  and the headers a receiver sees.

  \<^bold>\<open>Writes\<close> (\<open>model/config.go\<close>, \<open>secrets/vault.go\<close>, \<open>api/monitors.go\<close>, \<open>api/monitor_writes.go\<close>,
  \<open>api/probes.go\<close>). \<open>ConfigFacts\<close>: splitting and merging are inverse, nothing readable is left at a
  secret path, an edit that echoes a read changes nothing. \<open>MonitorWriteFacts\<close>: what is accepted is within
  bounds, and dependencies never loop as long as edits do not overlap.

  \<^bold>\<open>Reports\<close> (\<open>internal/report\<close>, \<open>store/sqlite/reports.go\<close>). \<open>ReportFigures\<close>: uptime, error budget,
  breaches, latency and incident times, in \<open>float64\<close>. \<open>ReportWindow\<close>: the period a report is about, the
  tier that answers it and when the next one is due. \<open>ReportDocument\<close>: the store behind a report as a
  record of functions, its SQLite implementation over the tiers, and \<open>Build\<close>; the order Go visits
  a map in is an argument. \<open>ReportFacts\<close> has the figures (breaches are the maximal runs, ratios are
  proportions, the verdict is the target's), \<open>ReportWindowFacts\<close> the windows (they tile time in UTC;
  two overlap where midnight is skipped), \<open>ReportDocumentFacts\<close> the document: its parts add up, whatever
  the store answered, but near the ends of a period outages are charged to the wrong one.

  \<^bold>\<open>Interfaces.\<close> Locales state what a client asks of a provider, and each is interpreted on the model's
  own definitions in the provider's theory: stores whose saves keep the sweep's claims
  (\<open>ControlStore\<close>), idempotent batch inserts (\<open>HeartbeatStore\<close>), day searches (\<open>Cron\<close>), schedules with
  their occurrences (\<open>MaintenanceFacts\<close>), queues of due checks (\<open>ProbeQueue\<close>), upserting tables
  (\<open>Rollup\<close>), keyset listings (\<open>Paging\<close>).

  \<^bold>\<open>Parameters.\<close> Code that is not in the repository is an argument: the cipher behind the vault, HTTP,
  HMAC, SHA-256, zone lookup by name, fresh identifiers, the wall clock, the checkers'
  answers. What a theorem needs of it is a named hypothesis, met by a concrete function in the
  theorem's witness.

  \<^bold>\<open>Not modelled.\<close> Rendering of reports, the providers' HTTP and SMTP calls, the checkers' network
  I/O, the importer of another program's database, object storage, generated code, routing and
  middleware, the load harness, and the listing endpoints. Of the modelled parts: the gRPC streams
  themselves, registration of probes, the paginated maintenance list, bulk edits, channel
  and tag lists of a monitor, a report's expiry calendar and brand. Goroutines are interleaved where a property depends on
  it (probe session, assignment stream, concurrent edits) and sequential elsewhere.
\<close>

end
